(* ===== verification/Prelude.thy ===== *)
theory Prelude
  imports Main "HOL-Library.Word" "HOL-Library.AList"
begin

text \<open>
  Shared vocabulary of the development: machine integers and byte strings, the outcome of a Rust
  call (a value, an error of its \<open>Result\<close>, or a panic), checked arithmetic and indexing, the
  string functions of the Rust standard library that the sources call, a JSON value type with
  the accessors of \<open>serde_json::Value\<close>, the model of \<open>HashMap\<close>, and the generic lemmas the
  component theories share.
\<close>

section \<open>Machine integers and bytes\<close>

type_synonym u8 = "8 word"
type_synonym u32 = "32 word"
type_synonym u64 = "64 word"
type_synonym bytes = "8 word list"

text \<open>
  A \<open>MerkleHash\<close> / \<open>DataHash\<close> is a 32-byte value. \<open>usize\<close> is 64 bits wide on the targets of the
  program, so \<open>usize\<close> and \<open>u64\<close> share a type.
\<close>

type_synonym hash = "256 word"
type_synonym usize = "64 word"

named_theorems res_simps
named_theorems handler_defs

section \<open>Outcomes of Rust calls\<close>

text \<open>
  \<open>Ok v\<close> is a returned value, \<open>Err e\<close> an error carried by \<open>Result\<close> (with its displayed text), and
  \<open>Panic\<close> an unwinding panic: an index out of range, an arithmetic overflow where the build has
  overflow checks, or an \<open>unwrap\<close> of a failure.
\<close>

datatype 'a res = Ok 'a | Err string | Panic

fun bind_res :: "'a res \<Rightarrow> ('a \<Rightarrow> 'b res) \<Rightarrow> 'b res" where
  "bind_res (Ok v) f = f v"
| "bind_res (Err e) f = Err e"
| "bind_res Panic f = Panic"

text \<open>
  Rust checks arithmetic for overflow in a debug build and wraps in a release build. The flag
  \<open>ovf\<close> says which build it is; theorems that do not mention it hold for both.
\<close>

definition sub_res :: "bool \<Rightarrow> 'a::len word \<Rightarrow> 'a word \<Rightarrow> 'a word res" where
  "sub_res ovf a b = (if b \<le> a \<or> \<not> ovf then Ok (a - b) else Panic)"

definition add_res :: "bool \<Rightarrow> 'a::len word \<Rightarrow> 'a word \<Rightarrow> 'a word res" where
  "add_res ovf a b = (if unat a + unat b < 2 ^ LENGTH('a) \<or> \<not> ovf then Ok (a + b) else Panic)"

definition nth_res :: "'a list \<Rightarrow> nat \<Rightarrow> 'a res" where
  "nth_res xs i = (if i < length xs then Ok (xs ! i) else Panic)"

text \<open>\<open>Iterator::collect::<Result<_>>\<close> and \<open>?\<close> inside a loop: stop at the first failure.\<close>

fun traverse_res :: "('a \<Rightarrow> 'b res) \<Rightarrow> 'a list \<Rightarrow> 'b list res" where
  "traverse_res f [] = Ok []"
| "traverse_res f (x # xs) = bind_res (f x) (\<lambda>y. bind_res (traverse_res f xs) (\<lambda>ys. Ok (y # ys)))"

definition saturating_sub :: "'a::len word \<Rightarrow> 'a word \<Rightarrow> 'a word" where
  "saturating_sub a b = (if b \<le> a then a - b else 0)"

section \<open>Strings\<close>

definition starts_with :: "string \<Rightarrow> string \<Rightarrow> bool" where
  "starts_with p s \<longleftrightarrow> take (length p) s = p"

definition strip_prefix :: "string \<Rightarrow> string \<Rightarrow> string option" where
  "strip_prefix p s = (if starts_with p s then Some (drop (length p) s) else None)"

fun split_once :: "char \<Rightarrow> string \<Rightarrow> (string \<times> string) option" where
  "split_once c [] = None"
| "split_once c (x # xs) =
     (if x = c then Some ([], xs)
      else (case split_once c xs of None \<Rightarrow> None | Some (a, b) \<Rightarrow> Some (x # a, b)))"

text \<open>\<open>str::split\<close> on one character: always at least one component, empty ones included.\<close>

fun split_on :: "char \<Rightarrow> string \<Rightarrow> string list" where
  "split_on c [] = [[]]"
| "split_on c (x # xs) =
     (if x = c then [] # split_on c xs
      else (x # hd (split_on c xs)) # tl (split_on c xs))"

fun join :: "string \<Rightarrow> string list \<Rightarrow> string" where
  "join sep [] = []"
| "join sep [x] = x"
| "join sep (x # y # zs) = x @ sep @ join sep (y # zs)"

definition trim_start_matches :: "char \<Rightarrow> string \<Rightarrow> string" where
  "trim_start_matches c s = dropWhile (\<lambda>x. x = c) s"

text \<open>\<open>str::parse::<u64>\<close>: an optional plus sign, at least one digit, nothing else, no overflow.\<close>

definition digit_val :: "char \<Rightarrow> nat option" where
  "digit_val c = (let n = of_char c :: nat in if 48 \<le> n \<and> n \<le> 57 then Some (n - 48) else None)"

fun parse_digits :: "nat \<Rightarrow> string \<Rightarrow> nat option" where
  "parse_digits acc [] = Some acc"
| "parse_digits acc (c # cs) =
     (case digit_val c of
        None \<Rightarrow> None
      | Some d \<Rightarrow> if acc * 10 + d < 2 ^ 64 then parse_digits (acc * 10 + d) cs else None)"

definition parse_u64 :: "string \<Rightarrow> u64 option" where
  "parse_u64 s =
     (let t = (case s of c # r \<Rightarrow> if c = CHR ''+'' then r else s | [] \<Rightarrow> s)
      in if t = [] then None else map_option of_nat (parse_digits 0 t))"

text \<open>Decimal display of an unsigned integer (\<open>format!("{n}")\<close>).\<close>

fun show_nat :: "nat \<Rightarrow> string" where
  "show_nat n = (if n < 10 then [char_of (48 + n)] else show_nat (n div 10) @ [char_of (48 + n mod 10)])"

declare show_nat.simps [simp del]

definition show_u64 :: "u64 \<Rightarrow> string" where
  "show_u64 n = show_nat (unat n)"

section \<open>JSON values\<close>

text \<open>
  \<open>serde_json::Value\<close> restricted to what the wire types contain: all numbers are unsigned. The
  indexing operator gives \<open>Null\<close> for an absent key or a value that is not an object.
\<close>

datatype json =
    JNull
  | JBool bool
  | JNum u64
  | JStr string
  | JArr "json list"
  | JObj "(string \<times> json) list"

fun jget :: "json \<Rightarrow> string \<Rightarrow> json" where
  "jget (JObj kvs) k = (case map_of kvs k of Some v \<Rightarrow> v | None \<Rightarrow> JNull)"
| "jget _ k = JNull"

fun as_str :: "json \<Rightarrow> string option" where
  "as_str (JStr s) = Some s"
| "as_str _ = None"

fun as_u64 :: "json \<Rightarrow> u64 option" where
  "as_u64 (JNum n) = Some n"
| "as_u64 _ = None"

fun as_array :: "json \<Rightarrow> json list option" where
  "as_array (JArr xs) = Some xs"
| "as_array _ = None"

text \<open>\<open>anyhow::Context\<close> on an \<open>Option\<close>: a missing value is an error with that text.\<close>

fun context_opt :: "string \<Rightarrow> 'a option \<Rightarrow> 'a res" where
  "context_opt msg None = Err msg"
| "context_opt msg (Some v) = Ok v"

section \<open>Generic lemmas\<close>

lemma bind_res_eq_Ok [res_simps]: "bind_res m f = Ok v \<longleftrightarrow> (\<exists>u. m = Ok u \<and> f u = Ok v)"
  by (cases m) auto

lemma bind_res_Ok_right [simp]: "bind_res m Ok = m"
  by (cases m) auto

lemma bind_res_assoc: "bind_res (bind_res m f) g = bind_res m (\<lambda>x. bind_res (f x) g)"
  by (cases m) auto

lemma sub_res_Ok [simp]: "b \<le> a \<Longrightarrow> sub_res ovf a b = Ok (a - b)"
  by (simp add: sub_res_def)

lemma add_res_Ok [simp]: "unat a + unat b < 2 ^ LENGTH('a) \<Longrightarrow> add_res ovf (a :: 'a::len word) b = Ok (a + b)"
  by (simp add: add_res_def)

lemma sub_res_not_Err [simp]: "sub_res ovf a b \<noteq> Err e"
  by (simp add: sub_res_def)

lemma nth_res_Ok [simp]: "i < length xs \<Longrightarrow> nth_res xs i = Ok (xs ! i)"
  by (simp add: nth_res_def)

lemma nth_res_Panic [simp]: "length xs \<le> i \<Longrightarrow> nth_res xs i = Panic"
  by (simp add: nth_res_def)

lemma nth_res_not_Err [simp]: "nth_res xs i \<noteq> Err e"
  by (simp add: nth_res_def)

lemma nth_res_eq_Ok [res_simps]: "nth_res xs i = Ok v \<longleftrightarrow> i < length xs \<and> v = xs ! i"
  by (auto simp: nth_res_def)

lemma unat_u64_less: "unat (n :: u64) < 2 ^ 64"
  using unsigned_less [of n] by simp

lemma unat_u32_less: "unat (n :: u32) < 2 ^ 32"
  using unsigned_less [of n] by simp

lemma unat_ucast_u32 [simp]: "unat (ucast (v :: u32) :: u64) = unat v"
  using unat_u32_less [of v] by (simp add: unsigned_ucast_eq take_bit_nat_eq_self_iff)

lemma unat_pred: "0 < (n :: 'a::len word) \<Longrightarrow> unat (n - 1) = unat n - 1"
  by (metis unat_minus_one word_neq_0_conv)

lemma unat_of_nat_u64: "n < 2 ^ 64 \<Longrightarrow> unat (of_nat n :: u64) = n"
  by (simp add: unsigned_of_nat take_bit_nat_eq_self)

lemma unat_below_max: "j < (- 1 :: u64) \<Longrightarrow> Suc (unat j) < 2 ^ 64"
  by (simp add: word_less_nat_alt unsigned_minus_1_eq_mask mask_eq_exp_minus_1)

lemma unat_succ_below_max: "j < (- 1 :: u64) \<Longrightarrow> unat (j + 1) = Suc (unat j)"
  using unat_below_max [of j] by (simp add: unat_word_ariths)

lemma add_res_one [simp]: "j < (- 1 :: u64) \<Longrightarrow> add_res ovf j 1 = Ok (j + 1)"
  using unat_below_max [of j] by (simp add: add_res_def)

lemma unat_of_nat_u32: "n < 2 ^ 32 \<Longrightarrow> unat (of_nat n :: u32) = n"
  by (simp add: unsigned_of_nat take_bit_nat_eq_self)

lemma of_nat_u32_mono: "m \<le> n \<Longrightarrow> n < 2 ^ 32 \<Longrightarrow> (of_nat m :: u32) \<le> of_nat n"
  by (simp add: word_le_nat_alt unat_of_nat_u32)

lemma sorted_map_of_nat_u32:
  "sorted ns \<Longrightarrow> \<forall>n \<in> set ns. n < 2 ^ 32 \<Longrightarrow> sorted (map (of_nat :: nat \<Rightarrow> u32) ns)"
  by (induction ns) (auto intro!: of_nat_u32_mono)

lemma traverse_res_Ok_iff:
  "traverse_res f xs = Ok ys \<longleftrightarrow> length ys = length xs \<and> (\<forall>i < length xs. f (xs ! i) = Ok (ys ! i))"
proof (induction xs arbitrary: ys)
  case Nil
  then show ?case by auto
next
  case (Cons x xs)
  show ?case
    by (cases ys) (auto simp: res_simps Cons.IH nth_Cons split: nat.splits)
qed

lemma traverse_res_all_Ok: "(\<And>x. x \<in> set xs \<Longrightarrow> f x = Ok (g x)) \<Longrightarrow> traverse_res f xs = Ok (map g xs)"
  by (induction xs) auto

subsection \<open>Strings and numerals\<close>

lemma starts_with_append [simp]: "starts_with p (p @ s)"
  by (simp add: starts_with_def)

lemma strip_prefix_append [simp]: "strip_prefix p (p @ s) = Some s"
  by (simp add: strip_prefix_def)

lemma strip_prefix_Some_iff: "strip_prefix p s = Some t \<longleftrightarrow> s = p @ t"
  by (auto simp: strip_prefix_def starts_with_def) (metis append_take_drop_id)

lemma split_once_append: "c \<notin> set a \<Longrightarrow> split_once c (a @ c # b) = Some (a, b)"
  by (induction a) auto

lemma split_once_Some_iff: "split_once c s = Some (a, b) \<longleftrightarrow> s = a @ c # b \<and> c \<notin> set a"
proof
  show "split_once c s = Some (a, b) \<Longrightarrow> s = a @ c # b \<and> c \<notin> set a"
    by (induction s arbitrary: a b) (auto split: if_splits option.splits)
qed (auto simp: split_once_append)

lemma split_on_not_Nil [simp]: "split_on c s \<noteq> []"
  by (cases s) auto

lemma split_on_no_sep: "c \<notin> set s \<Longrightarrow> split_on c s = [s]"
  by (induction s) auto

lemma split_on_append: "c \<notin> set a \<Longrightarrow> split_on c (a @ c # b) = a # split_on c b"
  by (induction a) auto

lemma split_on_join: "xs \<noteq> [] \<Longrightarrow> \<forall>x \<in> set xs. c \<notin> set x \<Longrightarrow> split_on c (join [c] xs) = xs"
proof (induction "[c]" xs rule: join.induct)
  case (3 x y zs)
  then show ?case using split_on_append [of c x "join [c] (y # zs)"] by simp
qed (auto simp: split_on_no_sep)

lemma join_Cons: "xs \<noteq> [] \<Longrightarrow> join sep (x # xs) = x @ sep @ join sep xs"
  by (cases xs) auto

lemma join_split_on: "join [c] (split_on c s) = s"
proof (induction s)
  case (Cons x xs)
  obtain y ys where "split_on c xs = y # ys"
    by (cases "split_on c xs") auto
  with Cons show ?case by (cases ys) (auto simp: join_Cons)
qed simp

lemma split_on_no_sep_inside: "x \<in> set (split_on c s) \<Longrightarrow> c \<notin> set x"
proof (induction s arbitrary: x)
  case (Cons a s)
  obtain y ys where "split_on c s = y # ys"
    by (cases "split_on c s") auto
  with Cons show ?case by (auto split: if_splits)
qed simp

lemma digit_val_char [simp]: "d < 10 \<Longrightarrow> digit_val (char_of (48 + d)) = Some d"
  by (simp add: digit_val_def)

lemma parse_digits_snoc:
  "parse_digits acc (xs @ [c]) =
     (case parse_digits acc xs of
        None \<Rightarrow> None
      | Some a \<Rightarrow> (case digit_val c of
            None \<Rightarrow> None
          | Some d \<Rightarrow> if a * 10 + d < 2 ^ 64 then Some (a * 10 + d) else None))"
  by (induction xs arbitrary: acc) (auto split: option.splits)

lemma parse_digits_bound: "parse_digits acc s = Some n \<Longrightarrow> acc < 2 ^ 64 \<Longrightarrow> n < 2 ^ 64"
  by (induction s arbitrary: acc) (auto split: option.splits if_splits)

lemma parse_digits_show_nat: "n < 2 ^ 64 \<Longrightarrow> parse_digits 0 (show_nat n) = Some n"
proof (induction n rule: show_nat.induct)
  case (1 n)
  show ?case
  proof (cases "n < 10")
    case True
    then show ?thesis by (subst show_nat.simps) simp
  next
    case False
    with "1.prems" have "n div 10 < 2 ^ 64" by simp
    with "1.IH" False have IH: "parse_digits 0 (show_nat (n div 10)) = Some (n div 10)" by simp
    have "n div 10 * 10 + n mod 10 = n" by simp
    with IH "1.prems" False show ?thesis
      by (subst show_nat.simps) (simp add: parse_digits_snoc)
  qed
qed

lemma show_nat_digits: "c \<in> set (show_nat n) \<Longrightarrow> digit_val c \<noteq> None"
proof (induction n rule: show_nat.induct)
  case (1 n)
  have m: "n mod 10 < 10" by simp
  show ?case
  proof (cases "n < 10")
    case True
    with "1.prems" show ?thesis by (subst (asm) show_nat.simps) simp
  next
    case False
    with "1.prems" have "c \<in> set (show_nat (n div 10)) \<or> c = char_of (48 + n mod 10)"
      by (subst (asm) show_nat.simps) auto
    with "1.IH" False m show ?thesis by (metis digit_val_char option.distinct(1))
  qed
qed

lemma show_nat_not_Nil [simp]: "show_nat n \<noteq> []"
  by (subst show_nat.simps) simp

lemma show_u64_not_Nil [simp]: "show_u64 n \<noteq> []"
  by (simp add: show_u64_def)

lemma show_u64_digits: "c \<in> set (show_u64 n) \<Longrightarrow> digit_val c \<noteq> None"
  by (simp add: show_u64_def show_nat_digits)

lemma show_u64_no_minus [simp]: "CHR ''-'' \<notin> set (show_u64 n)"
  using show_u64_digits [of "CHR ''-''" n] by (auto simp: digit_val_def)

lemma parse_u64_show_u64 [simp]: "parse_u64 (show_u64 n) = Some n"
proof -
  obtain c cs where c: "show_u64 n = c # cs"
    by (cases "show_u64 n") auto
  then have "digit_val c \<noteq> None"
    using show_u64_digits [of c n] by simp
  then have "c \<noteq> CHR ''+''"
    by (auto simp: digit_val_def)
  moreover have "parse_digits 0 (show_u64 n) = Some (unat n)"
    unfolding show_u64_def by (rule parse_digits_show_nat [OF unat_u64_less])
  ultimately show ?thesis
    using c by (simp add: parse_u64_def)
qed

end
