(* ===== verification/Range.thy ===== *)
theory Range
  imports Prelude
begin

text \<open>
  \<open>parse_range\<close> of \<open>crates/xetd/src/main.rs\<close>. A header value is a byte string; whether it
  is visible ASCII is decided by \<open>HeaderValue::to_str\<close> of the \<open>http\<close> crate, the parameter \<open>to_str\<close>.
\<close>

definition parse_range :: "(string \<Rightarrow> string option) \<Rightarrow> string option \<Rightarrow> u64 \<Rightarrow> (u64 \<times> u64) option" where
  "parse_range to_str h len =
     (case h of
        None \<Rightarrow> Some (0, saturating_sub len 1)
      | Some hv \<Rightarrow>
          Option.bind (Option.bind (to_str hv) (strip_prefix ''bytes='')) (\<lambda>spec.
          Option.bind (split_once CHR ''-'' spec) (\<lambda>(a, b).
          Option.bind (parse_u64 a) (\<lambda>start.
          Option.bind (if b = [] then Some (saturating_sub len 1) else parse_u64 b) (\<lambda>stop.
          if start > stop \<or> start \<ge> len then None
          else Some (start, min stop (saturating_sub len 1)))))))"

lemma saturating_sub_one: "0 < len \<Longrightarrow> saturating_sub len 1 = len - (1 :: u64)"
  by (simp add: saturating_sub_def word_le_nat_alt word_less_nat_alt)

lemma pred_less: "0 < len \<Longrightarrow> len - 1 < (len :: u64)"
  by (simp add: word_less_nat_alt unat_sub_if_size)

lemma parse_range_SomeD:
  "parse_range to_str (Some hv) len = Some (s, e) \<Longrightarrow>
     \<exists>stop. s \<le> stop \<and> s < len \<and> e = min stop (saturating_sub len 1)"
  by (auto simp: parse_range_def bind_eq_Some_conv not_less not_le split: if_splits)

lemma saturating_pred_below_max: "saturating_sub len 1 < (- 1 :: u64)"
proof (cases "0 < len")
  case True
  then show ?thesis using pred_less [of len] order_less_le_trans [OF _ word_n1_ge [of len]] by (simp add: saturating_sub_one)
next
  case False
  then have "len = 0" by (simp add: word_gt_0)
  then show ?thesis by (simp add: saturating_sub_def word_gt_0)
qed

lemma parse_range_ordered: "parse_range to_str h len = Some (s, e) \<Longrightarrow> s \<le> e"
proof (cases h)
  case None
  then show "parse_range to_str h len = Some (s, e) \<Longrightarrow> ?thesis" by (auto simp: parse_range_def)
next
  case (Some hv)
  assume "parse_range to_str h len = Some (s, e)"
  then obtain stop where *: "s \<le> stop" "s < len" "e = min stop (saturating_sub len 1)"
    using Some by (blast dest: parse_range_SomeD)
  then have "0 < len" by (metis word_gt_0 word_not_simps(1))
  moreover have "s \<le> len - 1" using *(2) by (simp add: word_less_sub1 word_le_less_eq) unat_arith
  ultimately show ?thesis using * by (simp add: saturating_sub_one)
qed

lemma parse_range_below_max: "parse_range to_str h len = Some (s, e) \<Longrightarrow> e < - 1"
proof (cases h)
  case None
  then show "parse_range to_str h len = Some (s, e) \<Longrightarrow> ?thesis"
    using saturating_pred_below_max [of len] by (auto simp: parse_range_def)
next
  case (Some hv)
  assume "parse_range to_str h len = Some (s, e)"
  then have "e \<le> saturating_sub len 1" using Some by (auto dest!: parse_range_SomeD)
  then show ?thesis using saturating_pred_below_max by (rule order_le_less_trans)
qed

text \<open>
  C40. Whatever the client sends, a range that \<open>parse_range\<close> accepts is ordered and lies inside the object: its end is
  before the object's length. The one exception is the empty object, for which only a request without a
  \<open>Range\<close> header is accepted, with the range from 0 to 0.
\<close>

theorem parse_range_within:
  assumes "parse_range to_str h len = Some (s, e)"
  shows "s \<le> e \<and> (if len = 0 then h = None \<and> s = 0 \<and> e = 0 else e < len)"
proof (cases "len = 0")
  case True
  then have "h = None" using assms by (cases h) (auto dest!: parse_range_SomeD simp: word_gt_0)
  then show ?thesis using assms True by (simp add: parse_range_def saturating_sub_def word_gt_0)
next
  case False
  then have pos: "0 < len" by (simp add: word_gt_0)
  have "e \<le> saturating_sub len 1"
    using assms by (cases h) (auto simp: parse_range_def [of _ None] dest!: parse_range_SomeD)
  then have "e < len"
    using pred_less [OF pos] by (simp add: saturating_sub_one [OF pos] order_le_less_trans)
  then show ?thesis using parse_range_ordered [OF assms] False by simp
qed

theorem parse_range_within_witness:
  "parse_range Some (Some ''bytes=3-900'') 10 = Some (3, 9) \<and> (3 :: u64) \<le> 9 \<and> (9 :: u64) < 10"
proof -
  have h: "parse_range Some (Some ''bytes=3-900'') 10 = Some (3, 9)"
    by (simp add: parse_range_def strip_prefix_def starts_with_def parse_u64_def digit_val_def saturating_sub_def)
  show ?thesis using parse_range_within [OF h] h by simp
qed

lemma parse_range_header:
  assumes "to_str hv = Some (''bytes='' @ show_u64 a @ ''-'' @ show_u64 b)" and "a \<le> b" "a < len"
  shows "parse_range to_str (Some hv) len = Some (a, min b (saturating_sub len 1))"
  using assms split_once_append [of "CHR ''-''" "show_u64 a" "show_u64 b"]
  by (auto simp: parse_range_def strip_prefix_def starts_with_def)

text \<open>
  The header that the agent sends for the bytes \<open>a..=b\<close> selects exactly that range, cut off at
  the end of the object, and is refused exactly when it is empty or starts past the end.
\<close>

theorem parse_range_of_format:
  assumes "to_str hv = Some (''bytes='' @ show_u64 a @ ''-'' @ show_u64 b)"
  shows "parse_range to_str (Some hv) len =
     (if a \<le> b \<and> a < len then Some (a, min b (saturating_sub len 1)) else None)"
  using assms parse_range_header [of to_str hv a b len] split_once_append [of "CHR ''-''" "show_u64 a" "show_u64 b"]
  by (auto simp: parse_range_def strip_prefix_def starts_with_def)

theorem parse_range_of_format_witness:
  "parse_range Some (Some (''bytes='' @ show_u64 2 @ ''-'' @ show_u64 5)) 4 = Some (2, 3)"
  using parse_range_of_format [of Some "''bytes='' @ show_u64 2 @ ''-'' @ show_u64 5" 2 5 4]
  by (simp add: saturating_sub_def)

end
