(* ===== verification/Hash_Map.thy ===== *)
theory Hash_Map
  imports Prelude
begin

text \<open>
  The model of \<open>std::collections::HashMap\<close>: an association list with distinct keys, in the
  order in which the map's iterators would visit its entries. That order is unspecified in Rust;
  theorems quantify over every state, hence over every order, and only \<open>keys\<close>, \<open>values\<close> and
  \<open>iter\<close> can observe it. The locale \<open>hash_map\<close> is the contract the components rely on.
\<close>

type_synonym ('k, 'v) hashmap = "('k \<times> 'v) list"

abbreviation hm_get :: "('k, 'v) hashmap \<Rightarrow> 'k \<Rightarrow> 'v option" where
  "hm_get \<equiv> map_of"

definition hm_contains_key :: "'k \<Rightarrow> ('k, 'v) hashmap \<Rightarrow> bool" where
  "hm_contains_key k m \<longleftrightarrow> hm_get m k \<noteq> None"

definition hm_insert :: "'k \<Rightarrow> 'v \<Rightarrow> ('k, 'v) hashmap \<Rightarrow> ('k, 'v) hashmap" where
  "hm_insert k v m = AList.update k v m"

text \<open>\<open>entry(k).or_insert(v)\<close>: an existing entry is kept.\<close>

definition hm_or_insert :: "'k \<Rightarrow> 'v \<Rightarrow> ('k, 'v) hashmap \<Rightarrow> ('k, 'v) hashmap" where
  "hm_or_insert k v m = (case hm_get m k of None \<Rightarrow> m @ [(k, v)] | Some _ \<Rightarrow> m)"

definition hm_remove :: "'k \<Rightarrow> ('k, 'v) hashmap \<Rightarrow> ('k, 'v) hashmap" where
  "hm_remove k m = AList.delete k m"

definition hm_retain :: "('k \<Rightarrow> 'v \<Rightarrow> bool) \<Rightarrow> ('k, 'v) hashmap \<Rightarrow> ('k, 'v) hashmap" where
  "hm_retain P m = filter (\<lambda>(k, v). P k v) m"

definition hm_keys :: "('k, 'v) hashmap \<Rightarrow> 'k list" where
  "hm_keys m = map fst m"

definition hm_values :: "('k, 'v) hashmap \<Rightarrow> 'v list" where
  "hm_values m = map snd m"

definition hm_ok :: "('k, 'v) hashmap \<Rightarrow> bool" where
  "hm_ok m \<longleftrightarrow> distinct (map fst m)"

section \<open>The contract\<close>

locale hash_map =
  fixes get :: "'m \<Rightarrow> 'k \<Rightarrow> 'v option"
    and empty :: "'m"
    and insert_entry or_insert_entry :: "'k \<Rightarrow> 'v \<Rightarrow> 'm \<Rightarrow> 'm"
    and remove_entry :: "'k \<Rightarrow> 'm \<Rightarrow> 'm"
    and retain_entries :: "('k \<Rightarrow> 'v \<Rightarrow> bool) \<Rightarrow> 'm \<Rightarrow> 'm"
    and keys_of :: "'m \<Rightarrow> 'k list"
    and values_of :: "'m \<Rightarrow> 'v list"
    and ok :: "'m \<Rightarrow> bool"
  assumes get_empty: "get empty k = None"
    and get_insert: "get (insert_entry k v m) = (get m)(k \<mapsto> v)"
    and get_or_insert: "get (or_insert_entry k v m) = (if get m k = None then (get m)(k \<mapsto> v) else get m)"
    and get_remove: "get (remove_entry k m) = (get m)(k := None)"
    and get_retain: "ok m \<Longrightarrow> get (retain_entries P m) k =
           (case get m k of None \<Rightarrow> None | Some v \<Rightarrow> if P k v then Some v else None)"
    and keys_dom: "set (keys_of m) = dom (get m)"
    and keys_distinct: "ok m \<Longrightarrow> distinct (keys_of m)"
    and values_ran: "ok m \<Longrightarrow> set (values_of m) = ran (get m)"
    and ok_empty: "ok empty"
    and ok_insert: "ok m \<Longrightarrow> ok (insert_entry k v m)"
    and ok_or_insert: "ok m \<Longrightarrow> ok (or_insert_entry k v m)"
    and ok_remove: "ok m \<Longrightarrow> ok (remove_entry k m)"
    and ok_retain: "ok m \<Longrightarrow> ok (retain_entries P m)"
begin

lemma finite_entries: "finite (dom (get m))"
  by (metis keys_dom List.finite_set)

lemma dom_or_insert: "dom (get (or_insert_entry k v m)) = insert k (dom (get m))"
  by (auto simp: get_or_insert)

lemma get_or_insert_mono: "get m k' = Some v' \<Longrightarrow> get (or_insert_entry k v m) k' = Some v'"
  by (auto simp: get_or_insert)

lemma retain_subset: "ok m \<Longrightarrow> get (retain_entries P m) k = Some v \<longleftrightarrow> get m k = Some v \<and> P k v"
  by (auto simp: get_retain split: option.splits)

text \<open>Removing every key of a list leaves the entries under the other keys.\<close>

lemma get_fold_remove: "get (fold remove_entry ks m) k = (if k \<in> set ks then None else get m k)"
  by (induction ks arbitrary: m) (auto simp: get_remove)

lemma ok_fold_remove: "ok m \<Longrightarrow> ok (fold remove_entry ks m)"
  by (induction ks arbitrary: m) (auto intro: ok_remove)

end

lemma map_of_filter_distinct:
  "distinct (map fst m) \<Longrightarrow>
   map_of (filter (\<lambda>(k, v). P k v) m) k =
     (case map_of m k of None \<Rightarrow> None | Some v \<Rightarrow> if P k v then Some v else None)"
proof (induction m)
  case Nil
  then show ?case by simp
next
  case (Cons a m)
  show ?case
  proof (cases "fst a = k")
    case True
    with Cons.prems have "map_of m k = None"
      by (auto simp: map_of_eq_None_iff)
    moreover from this Cons have "map_of (filter (\<lambda>(k, v). P k v) m) k = None"
      by simp
    ultimately show ?thesis using True by (cases a) auto
  next
    case False
    with Cons show ?thesis by (cases a) auto
  qed
qed

interpretation hm: hash_map hm_get "[]" hm_insert hm_or_insert hm_remove hm_retain hm_keys hm_values hm_ok
proof unfold_locales
  fix m :: "('k, 'v) hashmap" and k v P
  show "hm_get (hm_or_insert k v m) = (if hm_get m k = None then (hm_get m)(k \<mapsto> v) else hm_get m)"
    by (auto simp: hm_or_insert_def map_add_def split: option.splits)
  assume ok: "hm_ok m"
  show "hm_get (hm_retain P m) k = (case hm_get m k of None \<Rightarrow> None | Some v \<Rightarrow> if P k v then Some v else None)"
    using ok unfolding hm_ok_def hm_retain_def by (rule map_of_filter_distinct)
  show "set (hm_values m) = ran (hm_get m)"
    using ok by (simp add: hm_values_def hm_ok_def ran_distinct)
  show "hm_ok (hm_or_insert k v m)"
    using ok by (auto simp: hm_ok_def hm_or_insert_def map_of_eq_None_iff split: option.splits)
  show "hm_ok (hm_retain P m)"
    using ok by (simp add: hm_ok_def hm_retain_def distinct_map_filter)
qed (auto simp: hm_insert_def hm_remove_def hm_keys_def hm_ok_def update_conv' delete_conv'
      dom_map_of_conv_image_fst distinct_update distinct_delete)

lemmas hm_get_simps [simp] = hm.get_insert hm.get_remove hm.keys_dom
lemmas hm_ok_intros [intro] = hm.ok_empty hm.ok_insert hm.ok_or_insert hm.ok_remove hm.ok_retain

lemma hm_ok_Nil [simp]: "hm_ok []"
  by (rule hm.ok_empty)

lemma hm_contains_key_iff [simp]: "hm_contains_key k m \<longleftrightarrow> k \<in> dom (hm_get m)"
  by (auto simp: hm_contains_key_def)

lemma hm_entry_iff: "hm_ok m \<Longrightarrow> (k, v) \<in> set m \<longleftrightarrow> hm_get m k = Some v"
  by (simp add: hm_ok_def)

end
