(* ===== verification/Xet_Core.thy ===== *)
theory Xet_Core
  imports Prelude
begin

text \<open>
  The interface to the vendored \<open>xet-core\<close> fork, which \<open>crates/xet-core\<close> re-exports. The fork is
  a git submodule and none of its code is part of the repository, so its functions are parameters of
  the model: the record \<open>fork\<close> holds those that the sources call, and the predicates below state
  the documented behaviour that a theorem may rely on. Panics of the fork are possible values.
\<close>

text \<open>\<open>cas_object::Chunk\<close>: the bytes of one content-defined chunk and their BLAKE3 hash.\<close>

record chunk =
  ck_hash :: hash
  ck_data :: bytes

text \<open>The fields of \<open>XorbObjectInfoV1\<close> (the footer of a serialized xorb) that the sources read.\<close>

record xorb_info =
  xi_num_chunks :: u32
  xi_chunk_hashes :: "hash list"
  xi_chunk_boundary_offsets :: "u32 list"
  xi_unpacked_chunk_offsets :: "u32 list"

record fork =
  from_hex :: "string \<Rightarrow> hash option"
  hex :: "hash \<Rightarrow> string"
  compute_data_hash :: "bytes \<Rightarrow> hash"
  validate_xorb_object :: "bytes \<Rightarrow> hash \<Rightarrow> xorb_info option res"
  next_block :: "bytes \<Rightarrow> chunk list"
  file_hash :: "(hash \<times> u64) list \<Rightarrow> hash"
  from_xorb :: "chunk list \<Rightarrow> (hash \<times> bytes) res"
  deserialize_chunk :: "bytes \<Rightarrow> (bytes \<times> bytes) res"

section \<open>Documented behaviour\<close>

abbreviation hex_digits :: "char set" where
  "hex_digits \<equiv> set ''0123456789abcdef''"

text \<open>The hash string: 64 lower-case hexadecimal digits that parse back to the hash.\<close>

definition hex_ok :: "fork \<Rightarrow> bool" where
  "hex_ok F \<longleftrightarrow> (\<forall>h. from_hex F (hex F h) = Some h \<and> length (hex F h) = 64 \<and> set (hex F h) \<subseteq> hex_digits)"

text \<open>Byte position in the serialized xorb where chunk \<open>i\<close> starts.\<close>

definition chunk_start :: "u32 list \<Rightarrow> nat \<Rightarrow> nat" where
  "chunk_start bs i = (if i = 0 then 0 else unat (bs ! (i - 1)))"

text \<open>
  A well-formed footer of an object of \<open>n\<close> bytes: one boundary and one unpacked offset per chunk,
  boundaries strictly increasing within the object (every chunk carries a header), unpacked offsets
  increasing.
\<close>

definition info_wf :: "xorb_info \<Rightarrow> nat \<Rightarrow> bool" where
  "info_wf info n \<longleftrightarrow>
     unat (xi_num_chunks info) = length (xi_chunk_hashes info) \<and>
     length (xi_chunk_boundary_offsets info) = length (xi_chunk_hashes info) \<and>
     length (xi_unpacked_chunk_offsets info) = length (xi_chunk_hashes info) \<and>
     (\<forall>i < length (xi_chunk_boundary_offsets info).
        chunk_start (xi_chunk_boundary_offsets info) i < unat (xi_chunk_boundary_offsets info ! i) \<and>
        unat (xi_chunk_boundary_offsets info ! i) \<le> n) \<and>
     sorted (xi_unpacked_chunk_offsets info)"

definition validate_wf :: "fork \<Rightarrow> bool" where
  "validate_wf F \<longleftrightarrow>
     (\<forall>b h. validate_xorb_object F b h \<noteq> Panic) \<and>
     (\<forall>b h info. validate_xorb_object F b h = Ok (Some info) \<longrightarrow> info_wf info (length b))"

text \<open>An object that the integrity gate accepts under the name \<open>h\<close>.\<close>

definition valid_xorb :: "fork \<Rightarrow> hash \<Rightarrow> bytes \<Rightarrow> bool" where
  "valid_xorb F h b \<longleftrightarrow> (\<exists>info. validate_xorb_object F b h = Ok (Some info))"

lemma hex_okD:
  assumes "hex_ok F"
  shows hex_roundtrip: "from_hex F (hex F h) = Some h"
    and hex_length: "length (hex F h) = 64"
    and hex_chars: "set (hex F h) \<subseteq> hex_digits"
  using assms by (auto simp: hex_ok_def)

lemma hex_inj: "hex_ok F \<Longrightarrow> hex F h = hex F k \<longleftrightarrow> h = k"
  by (metis hex_roundtrip option.inject)

lemma hex_no_char: "hex_ok F \<Longrightarrow> c \<notin> hex_digits \<Longrightarrow> c \<notin> set (hex F h)"
  using hex_chars by blast

lemma info_wf_lengths:
  assumes "info_wf info n"
  shows "length (xi_chunk_boundary_offsets info) = length (xi_chunk_hashes info)"
    and "length (xi_unpacked_chunk_offsets info) = length (xi_chunk_hashes info)"
    and "unat (xi_num_chunks info) = length (xi_chunk_hashes info)"
  using assms by (auto simp: info_wf_def)

lemma valid_xorb_info_wf:
  "validate_wf F \<Longrightarrow> validate_xorb_object F b h = Ok (Some info) \<Longrightarrow> info_wf info (length b)"
  by (simp add: validate_wf_def)

end
