(* ===== verification/Blob.thy ===== *)
theory Blob
  imports Prelude Xet_Core
begin

text \<open>
  \<open>crates/xetd/src/blob.rs\<close>: the \<open>BlobStore\<close> trait, and its local-filesystem implementation over a
  model of the file system. The trait is a record of operations (the method table behind
  \<open>Arc<dyn BlobStore>\<close>) over the state of the backend; its contract is the locale \<open>blob_store\<close>,
  which the handlers' theorems rely on and which is interpreted here on \<open>LocalFsBlobStore\<close>.
\<close>

section \<open>The trait\<close>

record object_meta =
  om_len :: u64

record 'b blob_ops =
  bs_put :: "hash \<Rightarrow> bytes \<Rightarrow> 'b \<Rightarrow> bool res \<times> 'b"
  bs_head :: "hash \<Rightarrow> 'b \<Rightarrow> object_meta option res \<times> 'b"
  bs_get_range :: "hash \<Rightarrow> u64 \<Rightarrow> u64 \<Rightarrow> 'b \<Rightarrow> bytes res \<times> 'b"
  bs_presign_get :: "hash \<Rightarrow> u64 \<Rightarrow> 'b \<Rightarrow> string res \<times> 'b"
  bs_delete :: "hash \<Rightarrow> 'b \<Rightarrow> unit res \<times> 'b"

text \<open>The bytes of an inclusive HTTP range, cut off at the end of the object.\<close>

definition byte_range :: "bytes \<Rightarrow> u64 \<Rightarrow> u64 \<Rightarrow> bytes" where
  "byte_range b i j = take (Suc (unat j) - unat i) (drop (unat i) b)"

section \<open>The file system under the local store\<close>

text \<open>
  Regular files and directories by path, and an environment that decides for each call, in order,
  whether the operating system performs it, refuses it, or (for a write) stores only a prefix of the
  data before it fails. Any pattern of I/O failures is an environment.
\<close>

type_synonym path = "string list"

datatype io_event = IoOk | IoErr string | IoPartial nat string

record fs =
  fs_files :: "path \<Rightarrow> bytes option"
  fs_dirs :: "path set"
  fs_clock :: nat
  fs_env :: "nat \<Rightarrow> io_event"

datatype 'a fs_res = FsOk 'a | FsNotFound | FsErr string

definition fs_tick :: "fs \<Rightarrow> fs" where
  "fs_tick f = f\<lparr>fs_clock := Suc (fs_clock f)\<rparr>"

definition fs_event :: "fs \<Rightarrow> io_event" where
  "fs_event f = fs_env f (fs_clock f)"

fun fs_msg :: "'a fs_res \<Rightarrow> string" where
  "fs_msg (FsOk _) = ''''"
| "fs_msg FsNotFound = ''No such file or directory (os error 2)''"
| "fs_msg (FsErr e) = e"

text \<open>Perform a call unless the environment refuses it.\<close>

definition fs_call :: "(fs \<Rightarrow> 'a fs_res \<times> fs) \<Rightarrow> fs \<Rightarrow> 'a fs_res \<times> fs" where
  "fs_call act f =
     (case fs_event f of
        IoOk \<Rightarrow> act (fs_tick f)
      | IoErr e \<Rightarrow> (FsErr e, fs_tick f)
      | IoPartial _ e \<Rightarrow> (FsErr e, fs_tick f))"

definition fs_try_exists :: "path \<Rightarrow> fs \<Rightarrow> bool fs_res \<times> fs" where
  "fs_try_exists p = fs_call (\<lambda>f. (FsOk (fs_files f p \<noteq> None), f))"

definition fs_create_dir_all :: "path \<Rightarrow> fs \<Rightarrow> unit fs_res \<times> fs" where
  "fs_create_dir_all p = fs_call (\<lambda>f. (FsOk (), f\<lparr>fs_dirs := fs_dirs f \<union> set (map (\<lambda>n. take n p) [0..<Suc (length p)])\<rparr>))"

text \<open>\<open>tokio::fs::write\<close>: create or truncate the file, then write all the data.\<close>

definition fs_write :: "path \<Rightarrow> bytes \<Rightarrow> fs \<Rightarrow> unit fs_res \<times> fs" where
  "fs_write p b f =
     (case fs_event f of
        IoOk \<Rightarrow> if butlast p \<in> fs_dirs f
                then (FsOk (), fs_tick (f\<lparr>fs_files := (fs_files f)(p \<mapsto> b)\<rparr>))
                else (FsNotFound, fs_tick f)
      | IoErr e \<Rightarrow> (FsErr e, fs_tick f)
      | IoPartial n e \<Rightarrow> if butlast p \<in> fs_dirs f
                then (FsErr e, fs_tick (f\<lparr>fs_files := (fs_files f)(p \<mapsto> take n b)\<rparr>))
                else (FsNotFound, fs_tick f))"

text \<open>\<open>tokio::fs::rename\<close> within one directory: atomic, replaces an existing target.\<close>

definition fs_rename :: "path \<Rightarrow> path \<Rightarrow> fs \<Rightarrow> unit fs_res \<times> fs" where
  "fs_rename p q = fs_call (\<lambda>f.
     (case fs_files f p of
        None \<Rightarrow> (FsNotFound, f)
      | Some b \<Rightarrow> (FsOk (), f\<lparr>fs_files := ((fs_files f)(p := None))(q \<mapsto> b)\<rparr>)))"

definition fs_metadata :: "path \<Rightarrow> fs \<Rightarrow> u64 fs_res \<times> fs" where
  "fs_metadata p = fs_call (\<lambda>f.
     (case fs_files f p of None \<Rightarrow> (FsNotFound, f) | Some b \<Rightarrow> (FsOk (of_nat (length b)), f)))"

definition fs_read :: "path \<Rightarrow> fs \<Rightarrow> bytes fs_res \<times> fs" where
  "fs_read p = fs_call (\<lambda>f. (case fs_files f p of None \<Rightarrow> (FsNotFound, f) | Some b \<Rightarrow> (FsOk b, f)))"

definition fs_remove_file :: "path \<Rightarrow> fs \<Rightarrow> unit fs_res \<times> fs" where
  "fs_remove_file p = fs_call (\<lambda>f.
     (case fs_files f p of
        None \<Rightarrow> (FsNotFound, f)
      | Some _ \<Rightarrow> (FsOk (), f\<lparr>fs_files := (fs_files f)(p := None)\<rparr>)))"

section \<open>The local-filesystem store\<close>

record local_fs_blob_store =
  lf_root :: path
  lf_public_base :: string

definition local_fs_new :: "path \<Rightarrow> string \<Rightarrow> local_fs_blob_store" where
  "local_fs_new root public_base = \<lparr>lf_root = root, lf_public_base = public_base\<rparr>"

text \<open>A string slice \<open>&h[a..b]\<close> panics out of range.\<close>

definition str_slice :: "string \<Rightarrow> nat \<Rightarrow> nat \<Rightarrow> string res" where
  "str_slice s a b = (if a \<le> b \<and> b \<le> length s then Ok (take (b - a) (drop a s)) else Panic)"

text \<open>The key path \<open><root>/<h0h1>/<h2h3>/<hash>\<close>.\<close>

definition path_for :: "fork \<Rightarrow> local_fs_blob_store \<Rightarrow> hash \<Rightarrow> path res" where
  "path_for F c key =
     (let h = hex F key in
      bind_res (str_slice h 0 2) (\<lambda>a.
      bind_res (str_slice h 2 4) (\<lambda>b.
      Ok (lf_root c @ [a, b, h]))))"

text \<open>The operations start by computing the path of the key.\<close>

fun at_path :: "path res \<Rightarrow> (path \<Rightarrow> 'b \<Rightarrow> 'a res \<times> 'b) \<Rightarrow> 'b \<Rightarrow> 'a res \<times> 'b" where
  "at_path (Ok p) f s = f p s"
| "at_path (Err e) f s = (Err e, s)"
| "at_path Panic f s = (Panic, s)"

definition local_fs_put :: "fork \<Rightarrow> local_fs_blob_store \<Rightarrow> hash \<Rightarrow> bytes \<Rightarrow> fs \<Rightarrow> bool res \<times> fs" where
  "local_fs_put F c key b = at_path (path_for F c key) (\<lambda>path f.
     (case fs_try_exists path f of (there, f0) \<Rightarrow>
      if there = FsOk True then (Ok False, f0)
      else let dir = butlast path in
       (case fs_create_dir_all dir f0 of
          (FsOk _, f1) \<Rightarrow>
           (let tmp = dir @ [''.'' @ hex F key @ ''.tmp''] in
            (case fs_write tmp b f1 of
               (FsOk _, f2) \<Rightarrow>
                (case fs_rename tmp path f2 of
                   (FsOk _, f3) \<Rightarrow> (Ok True, f3)
                 | (e, f3) \<Rightarrow>
                    (case fs_try_exists path f3 of (there', f4) \<Rightarrow>
                     if there' = FsOk True then (Ok False, snd (fs_remove_file tmp f4))
                     else (Err (fs_msg e), f4)))
             | (e, f2) \<Rightarrow> (Err (fs_msg e), f2)))
        | (e, f1) \<Rightarrow> (Err (fs_msg e), f1))))"

definition local_fs_head :: "fork \<Rightarrow> local_fs_blob_store \<Rightarrow> hash \<Rightarrow> fs \<Rightarrow> object_meta option res \<times> fs" where
  "local_fs_head F c key = at_path (path_for F c key) (\<lambda>path f.
     (case fs_metadata path f of
        (FsOk n, f1) \<Rightarrow> (Ok (Some \<lparr>om_len = n\<rparr>), f1)
      | (FsNotFound, f1) \<Rightarrow> (Ok None, f1)
      | (FsErr e, f1) \<Rightarrow> (Err e, f1)))"

definition local_fs_get_range ::
  "bool \<Rightarrow> fork \<Rightarrow> local_fs_blob_store \<Rightarrow> hash \<Rightarrow> u64 \<Rightarrow> u64 \<Rightarrow> fs \<Rightarrow> bytes res \<times> fs" where
  "local_fs_get_range ovf F c key start stop = at_path (path_for F c key) (\<lambda>path f.
     (case fs_read path f of
        (FsOk data, f1) \<Rightarrow>
          (bind_res (add_res ovf stop 1) (\<lambda>stop1.
             let lo = min (unat start) (length data);
                 hi = min (unat stop1) (length data)
             in Ok (take (max hi lo - lo) (drop lo data))), f1)
      | (e, f1) \<Rightarrow> (Err (fs_msg e), f1)))"

definition local_fs_presign_get ::
  "fork \<Rightarrow> local_fs_blob_store \<Rightarrow> hash \<Rightarrow> u64 \<Rightarrow> fs \<Rightarrow> string res \<times> fs" where
  "local_fs_presign_get F c key ttl f = (Ok (lf_public_base c @ ''/api/v1/xorb-data/'' @ hex F key), f)"

definition local_fs_delete :: "fork \<Rightarrow> local_fs_blob_store \<Rightarrow> hash \<Rightarrow> fs \<Rightarrow> unit res \<times> fs" where
  "local_fs_delete F c key = at_path (path_for F c key) (\<lambda>path f.
     (case fs_remove_file path f of
        (FsOk _, f1) \<Rightarrow> (Ok (), f1)
      | (FsNotFound, f1) \<Rightarrow> (Ok (), f1)
      | (FsErr e, f1) \<Rightarrow> (Err e, f1)))"

definition local_fs_ops :: "bool \<Rightarrow> fork \<Rightarrow> local_fs_blob_store \<Rightarrow> fs blob_ops" where
  "local_fs_ops ovf F c =
     \<lparr>bs_put = local_fs_put F c, bs_head = local_fs_head F c,
      bs_get_range = local_fs_get_range ovf F c, bs_presign_get = local_fs_presign_get F c,
      bs_delete = local_fs_delete F c\<rparr>"

section \<open>The contract of a blob store\<close>

text \<open>
  \<open>contents\<close> is what the store holds under each key; \<open>healthy\<close> says that the environment lets every
  further call succeed. The laws without \<open>healthy\<close> hold under any pattern of failures: a put leaves
  the old contents or adds exactly the given object, reads change nothing and never invent data, a
  delete removes at most that key. Objects are shorter than \<open>2 ^ 63\<close> bytes, as every Rust
  allocation is.
\<close>

abbreviation blob_len_ok :: "bytes \<Rightarrow> bool" where
  "blob_len_ok b \<equiv> length b < 2 ^ 63"

locale blob_store =
  fixes B :: "'b blob_ops"
    and contents :: "'b \<Rightarrow> hash \<Rightarrow> bytes option"
    and invar healthy :: "'b \<Rightarrow> bool"
  assumes put_law: "\<lbrakk>invar s; blob_len_ok b; bs_put B k b s = (r, s')\<rbrakk> \<Longrightarrow>
        invar s' \<and> r \<noteq> Panic \<and> contents s' \<in> {contents s, (contents s)(k \<mapsto> b)} \<and>
        (r = Ok True \<longrightarrow> contents s' = (contents s)(k \<mapsto> b)) \<and>
        (r = Ok False \<longrightarrow> contents s' = contents s \<and> contents s k \<noteq> None)"
    and put_healthy_law: "\<lbrakk>invar s; healthy s; blob_len_ok b; bs_put B k b s = (r, s')\<rbrakk> \<Longrightarrow>
        healthy s' \<and> r = Ok (contents s k = None)"
    and head_law: "\<lbrakk>invar s; bs_head B k s = (rh, s')\<rbrakk> \<Longrightarrow>
        invar s' \<and> rh \<noteq> Panic \<and> contents s' = contents s \<and>
        (\<forall>m. rh = Ok m \<longrightarrow> m = map_option (\<lambda>b. \<lparr>om_len = of_nat (length b)\<rparr>) (contents s k))"
    and head_healthy_law: "\<lbrakk>invar s; healthy s; bs_head B k s = (rh, s')\<rbrakk> \<Longrightarrow>
        healthy s' \<and> (\<exists>m. rh = Ok m)"
    and get_law: "\<lbrakk>invar s; i \<le> j; j < - 1; bs_get_range B k i j s = (rg, s')\<rbrakk> \<Longrightarrow>
        invar s' \<and> rg \<noteq> Panic \<and> contents s' = contents s \<and>
        (\<forall>d. rg = Ok d \<longrightarrow> (\<exists>b. contents s k = Some b \<and> d = byte_range b i j))"
    and get_healthy_law: "\<lbrakk>invar s; healthy s; bs_get_range B k i j s = (rg, s')\<rbrakk> \<Longrightarrow>
        healthy s' \<and> (\<forall>b. contents s k = Some b \<and> unat i < length b \<and> i \<le> j \<and> j < - 1 \<longrightarrow> (\<exists>d. rg = Ok d))"
    and presign_law: "\<lbrakk>invar s; bs_presign_get B k ttl s = (ru, s')\<rbrakk> \<Longrightarrow>
        invar s' \<and> ru \<noteq> Panic \<and> contents s' = contents s"
    and presign_healthy_law: "\<lbrakk>invar s; healthy s; ttl \<le> 604800; bs_presign_get B k ttl s = (ru, s')\<rbrakk> \<Longrightarrow>
        healthy s' \<and> (\<exists>u. ru = Ok u)"
    and delete_law: "\<lbrakk>invar s; bs_delete B k s = (rd, s')\<rbrakk> \<Longrightarrow>
        invar s' \<and> rd \<noteq> Panic \<and> contents s' \<in> {contents s, (contents s)(k := None)} \<and>
        (rd = Ok () \<longrightarrow> contents s' = (contents s)(k := None))"
    and delete_healthy_law: "\<lbrakk>invar s; healthy s; bs_delete B k s = (rd, s')\<rbrakk> \<Longrightarrow>
        healthy s' \<and> rd = Ok ()"
    and contents_len: "\<lbrakk>invar s; contents s k = Some b\<rbrakk> \<Longrightarrow> blob_len_ok b"
begin

lemma put_contents_cases:
  assumes "invar s" "blob_len_ok b" "bs_put B k b s = (r, s')" "contents s' k' = Some d"
  shows "contents s k' = Some d \<or> k' = k \<and> d = b"
  using put_law [OF assms(1-3)] assms(4) by (auto split: if_splits)

lemma put_keeps:
  assumes "invar s" "blob_len_ok b" "bs_put B k b s = (r, s')" "contents s k' \<noteq> None"
  shows "contents s' k' \<noteq> None"
  using put_law [OF assms(1-3)] assms(4) by auto

lemma put_healthy_contents:
  assumes "invar s" "healthy s" "blob_len_ok b" "bs_put B k b s = (r, s')"
  shows "contents s' = (if contents s k = None then (contents s)(k \<mapsto> b) else contents s)"
  using put_law [OF assms(1,3,4)] put_healthy_law [OF assms] by auto

lemma put_twice:
  assumes "invar s" "healthy s" "blob_len_ok b" "bs_put B k b s = (r, s1)" "bs_put B k b' s1 = (r', s2)"
    "blob_len_ok b'"
  shows "r' = Ok False \<and> contents s2 = contents s1"
proof -
  have s1: "invar s1" "healthy s1" "contents s1 k \<noteq> None"
    using put_law [OF assms(1,3,4)] put_healthy_law [OF assms(1-4)] put_healthy_contents [OF assms(1-4)]
    by auto
  show ?thesis
    using put_healthy_law [OF s1(1,2) assms(6,5)] put_healthy_contents [OF s1(1,2) assms(6,5)] s1(3)
    by auto
qed

lemma delete_contents_cases:
  assumes "invar s" "bs_delete B k s = (r, s')" "contents s' k' = Some d"
  shows "contents s k' = Some d"
  using delete_law [OF assms(1,2)] assms(3) by (auto split: if_splits)

lemma delete_other:
  assumes "invar s" "bs_delete B k s = (r, s')" "k' \<noteq> k"
  shows "contents s' k' = contents s k'"
  using delete_law [OF assms(1,2)] assms(3) by auto

lemma delete_healthy_contents:
  assumes "invar s" "healthy s" "bs_delete B k s = (r, s')"
  shows "contents s' = (contents s)(k := None)"
  using delete_law [OF assms(1,3)] delete_healthy_law [OF assms] by auto

lemma get_healthy_value:
  assumes "invar s" "healthy s" "contents s k = Some b" "unat i < length b" "i \<le> j" "j < - 1"
    "bs_get_range B k i j s = (r, s')"
  shows "r = Ok (byte_range b i j)"
  using get_law [OF assms(1,5-7)] get_healthy_law [OF assms(1,2,7)] assms(3-6) by auto

text \<open>Reading back what was just stored, on a store that is not failing.\<close>

lemma put_then_get:
  assumes "invar s" "healthy s" "blob_len_ok b" "contents s k = None"
    and "bs_put B k b s = (r, s1)" "bs_get_range B k i j s1 = (r', s2)"
    and "unat i < length b" "i \<le> j" "j < - 1"
  shows "r = Ok True \<and> r' = Ok (byte_range b i j)"
proof -
  have "invar s1" "healthy s1" "r = Ok True" "contents s1 k = Some b"
    using put_law [OF assms(1,3,5)] put_healthy_law [OF assms(1-3,5)] assms(4) by auto
  then show ?thesis using get_healthy_value [OF _ _ _ assms(7-9,6)] by blast
qed

end

section \<open>The local store fulfils it\<close>

definition local_fs_contents :: "fork \<Rightarrow> local_fs_blob_store \<Rightarrow> fs \<Rightarrow> hash \<Rightarrow> bytes option" where
  "local_fs_contents F c f k = (case path_for F c k of Ok p \<Rightarrow> fs_files f p | _ \<Rightarrow> None)"

definition local_fs_inv :: "fork \<Rightarrow> local_fs_blob_store \<Rightarrow> fs \<Rightarrow> bool" where
  "local_fs_inv F c f \<longleftrightarrow> hex_ok F \<and> (\<forall>p b. fs_files f p = Some b \<longrightarrow> blob_len_ok b)"

definition local_fs_healthy :: "fs \<Rightarrow> bool" where
  "local_fs_healthy f \<longleftrightarrow> (\<forall>n \<ge> fs_clock f. fs_env f n = IoOk)"

definition key_path :: "fork \<Rightarrow> local_fs_blob_store \<Rightarrow> hash \<Rightarrow> path" where
  "key_path F c k = lf_root c @ [take 2 (hex F k), take 2 (drop 2 (hex F k)), hex F k]"

lemma path_for_Ok [simp]: "hex_ok F \<Longrightarrow> path_for F c k = Ok (key_path F c k)"
  using hex_length [of F k] by (simp add: path_for_def str_slice_def key_path_def Let_def)

lemma key_path_inj [simp]: "hex_ok F \<Longrightarrow> key_path F c k = key_path F c k' \<longleftrightarrow> k = k'"
  by (auto simp: key_path_def hex_inj)

definition tmp_path :: "fork \<Rightarrow> local_fs_blob_store \<Rightarrow> hash \<Rightarrow> path" where
  "tmp_path F c k = butlast (key_path F c k) @ [''.'' @ hex F k @ ''.tmp'']"

text \<open>A temporary file never has the name of an object: object names are hexadecimal.\<close>

lemma tmp_path_not_key [simp]: "hex_ok F \<Longrightarrow> tmp_path F c k \<noteq> key_path F c k'"
proof
  assume F: "hex_ok F" and eq: "tmp_path F c k = key_path F c k'"
  have "last (tmp_path F c k) = last (key_path F c k')" using eq by simp
  then have "''.'' @ hex F k @ ''.tmp'' = hex F k'" by (simp add: tmp_path_def key_path_def)
  then have "CHR ''.'' \<in> set (hex F k')" by (metis append_Cons list.set_intros(1))
  then show False using hex_no_char [OF F, of "CHR ''.''" k'] by simp
qed

lemma butlast_tmp_path [simp]: "butlast (tmp_path F c k) = butlast (key_path F c k)"
  by (simp add: tmp_path_def)

lemma local_fs_contents_key [simp]: "hex_ok F \<Longrightarrow> local_fs_contents F c f k = fs_files f (key_path F c k)"
  by (simp add: local_fs_contents_def)

lemma fs_tick_simps [simp]:
  "fs_files (fs_tick f) = fs_files f" "fs_dirs (fs_tick f) = fs_dirs f"
  "fs_env (fs_tick f) = fs_env f" "fs_clock (fs_tick f) = Suc (fs_clock f)"
  by (simp_all add: fs_tick_def)

lemma healthy_event: "local_fs_healthy f \<Longrightarrow> fs_event f = IoOk"
  by (simp add: local_fs_healthy_def fs_event_def)

lemma healthy_tick [simp]: "local_fs_healthy f \<Longrightarrow> local_fs_healthy (fs_tick f)"
  by (simp add: local_fs_healthy_def)

lemma healthy_update_files [simp]:
  "local_fs_healthy (f\<lparr>fs_files := x\<rparr>) = local_fs_healthy f" "local_fs_healthy (f\<lparr>fs_dirs := y\<rparr>) = local_fs_healthy f"
  by (simp_all add: local_fs_healthy_def)

lemmas fs_defs = fs_call_def fs_try_exists_def fs_create_dir_all_def fs_rename_def fs_metadata_def
  fs_read_def fs_remove_file_def fs_write_def


lemma fs_try_exists_res:
  "fs_try_exists p f = (r, f') \<Longrightarrow> fs_files f' = fs_files f \<and> (\<forall>v. r = FsOk v \<longrightarrow> v = (fs_files f p \<noteq> None))"
  by (auto simp: fs_try_exists_def fs_call_def split: io_event.splits)

lemma fs_create_dir_all_res: "fs_create_dir_all p f = (r, f') \<Longrightarrow> fs_files f' = fs_files f"
  by (auto simp: fs_create_dir_all_def fs_call_def split: io_event.splits)

lemma fs_write_res:
  "fs_write p b f = (r, f') \<Longrightarrow>
     (r = FsOk () \<longrightarrow> fs_files f' = (fs_files f)(p \<mapsto> b)) \<and>
     (fs_files f' = fs_files f \<or> (\<exists>n. fs_files f' = (fs_files f)(p \<mapsto> take n b)))"
  by (auto simp: fs_write_def split: io_event.splits if_splits intro: exI [of _ "length b"])

lemma fs_rename_res:
  "fs_rename p q f = (r, f') \<Longrightarrow>
     (r = FsOk () \<longrightarrow> (\<exists>b. fs_files f p = Some b \<and> fs_files f' = ((fs_files f)(p := None))(q \<mapsto> b))) \<and>
     (r \<noteq> FsOk () \<longrightarrow> fs_files f' = fs_files f)"
  by (auto simp: fs_rename_def fs_call_def split: io_event.splits option.splits)

lemma fs_remove_file_res:
  "fs_remove_file p f = (r, f') \<Longrightarrow>
     fs_files f' \<in> {fs_files f, (fs_files f)(p := None)} \<and>
     (r \<in> {FsOk (), FsNotFound} \<longrightarrow> fs_files f' = (fs_files f)(p := None))"
  by (auto simp: fs_remove_file_def fs_call_def split: io_event.splits option.splits)

text \<open>What a put can leave behind, with its result.\<close>

lemma local_fs_put_cases:
  assumes F: "hex_ok F" and put: "local_fs_put F c k b f = (r, f')"
  obtains (inserted) "r = Ok True" "fs_files f' = ((fs_files f)(tmp_path F c k := None))(key_path F c k \<mapsto> b)"
    | (existed) t where "r = Ok False" "fs_files f (key_path F c k) \<noteq> None"
        "fs_files f' = (fs_files f)(tmp_path F c k := t)" "t \<in> {fs_files f (tmp_path F c k), None, Some b}"
    | (failed) e t where "r = Err e" "fs_files f' = (fs_files f)(tmp_path F c k := t)"
        "t = fs_files f (tmp_path F c k) \<or> (\<exists>n. t = Some (take n b))"
proof -
  let ?p = "key_path F c k" and ?t = "tmp_path F c k"
  have ne: "?t \<noteq> ?p" using tmp_path_not_key [OF F] .
  obtain x f0 where e0: "fs_try_exists ?p f = (x, f0)" by fastforce
  obtain y f1 where e1: "fs_create_dir_all (butlast ?p) f0 = (y, f1)" by fastforce
  obtain z f2 where e2: "fs_write ?t b f1 = (z, f2)" by fastforce
  obtain w f3 where e3: "fs_rename ?t ?p f2 = (w, f3)" by fastforce
  obtain v f4 where e4: "fs_try_exists ?p f3 = (v, f4)" by fastforce
  obtain u f5 where e5: "fs_remove_file ?t f4 = (u, f5)" by fastforce
  note put' = put [unfolded local_fs_put_def path_for_Ok [OF F] at_path.simps Let_def tmp_path_def [symmetric]]
  note s0 = fs_try_exists_res [OF e0] and s1 = fs_create_dir_all_res [OF e1]
    and s2 = fs_write_res [OF e2] and s3 = fs_rename_res [OF e3] and s4 = fs_try_exists_res [OF e4]
    and s5 = fs_remove_file_res [OF e5]
  consider "x = FsOk True" | "x \<noteq> FsOk True" "y \<noteq> FsOk ()" | "x \<noteq> FsOk True" "y = FsOk ()" "z \<noteq> FsOk ()"
    | "x \<noteq> FsOk True" "y = FsOk ()" "z = FsOk ()" "w = FsOk ()"
    | "x \<noteq> FsOk True" "y = FsOk ()" "z = FsOk ()" "w \<noteq> FsOk ()" by blast
  then show thesis
  proof cases
    case 1
    then show thesis using put' e0 s0 by (intro existed [of "fs_files f ?t"]) auto
  next
    case 2
    then show thesis using put' e0 e1 s0 s1
      by (intro failed [of "fs_msg y" "fs_files f ?t"]) (cases y; auto)+
  next
    case 3
    then have r: "r = Err (fs_msg z)" "f' = f2" using put' e0 e1 e2 by (cases z; auto)+
    then show thesis
      using s0 s1 s2 by (intro failed [of "fs_msg z" "fs_files f' ?t"]) auto
  next
    case 4
    then have r: "r = Ok True" "f' = f3" using put' e0 e1 e2 e3 by auto
    with 4 s0 s1 s2 s3 ne show thesis by (intro inserted) auto
  next
    case 5
    then have f3: "fs_files f3 = (fs_files f)(?t \<mapsto> b)" using s0 s1 s2 s3 by auto
    show thesis
    proof (cases "v = FsOk True")
      case True
      then have r: "r = Ok False" "f' = f5" using put' 5 e0 e1 e2 e3 e4 e5 by (cases w; auto)+
      then show thesis using True f3 s4 s5 ne
        by (intro existed [of "fs_files f' ?t"]) auto
    next
      case False
      then have r: "r = Err (fs_msg w)" "f' = f4" using put' 5 e0 e1 e2 e3 e4 by (cases w; auto)+
      then show thesis using f3 s4
        by (intro failed [of "fs_msg w" "Some b"]) (auto intro: exI [of _ "length b"])
    qed
  qed
qed

lemma local_fs_put_healthy:
  assumes F: "hex_ok F" and H: "local_fs_healthy f" and put: "local_fs_put F c k b f = (r, f')"
  shows "local_fs_healthy f' \<and> r = Ok (fs_files f (key_path F c k) = None)"
proof -
  let ?d = "butlast (key_path F c k)"
  have "?d \<in> set (map (\<lambda>n. take n ?d) [0..<Suc (length ?d)])"
    by (force simp del: upt_Suc)
  then show ?thesis
  using put H
  unfolding local_fs_put_def fs_defs path_for_Ok [OF F] at_path.simps Let_def tmp_path_def [symmetric]
  by (auto simp: healthy_event simp del: upt_Suc set_map split: if_splits option.splits)
qed


lemma local_fs_inv_hex: "local_fs_inv F c f \<Longrightarrow> hex_ok F"
  by (simp add: local_fs_inv_def)

lemma local_fs_contents_fun: "hex_ok F \<Longrightarrow> local_fs_contents F c f = (\<lambda>k. fs_files f (key_path F c k))"
  by (simp add: fun_eq_iff)

lemma key_path_fun_upd:
  "hex_ok F \<Longrightarrow> (\<lambda>k'. (m(key_path F c k := v)) (key_path F c k')) = (\<lambda>k'. m (key_path F c k'))(k := v)"
  by auto

lemma local_fs_put_contract:
  assumes inv: "local_fs_inv F c f" and len: "blob_len_ok b" and put: "local_fs_put F c k b f = (r, f')"
  shows "local_fs_inv F c f' \<and> r \<noteq> Panic \<and>
     local_fs_contents F c f' \<in> {local_fs_contents F c f, (local_fs_contents F c f)(k \<mapsto> b)} \<and>
     (r = Ok True \<longrightarrow> local_fs_contents F c f' = (local_fs_contents F c f)(k \<mapsto> b)) \<and>
     (r = Ok False \<longrightarrow> local_fs_contents F c f' = local_fs_contents F c f \<and> local_fs_contents F c f k \<noteq> None)"
proof -
  note F = local_fs_inv_hex [OF inv]
  note eqs = local_fs_inv_def local_fs_contents_fun [OF F] fun_eq_iff F tmp_path_not_key [OF F, symmetric]
  show ?thesis
  proof (cases rule: local_fs_put_cases [OF F put])
    case 1
    then show ?thesis using inv len by (auto simp: eqs)
  next
    case (2 t)
    then show ?thesis using inv len by (auto simp: eqs split: if_splits)
  next
    case (3 e t)
    have "blob_len_ok (take n b)" for n using len by simp
    with 3 show ?thesis using inv by (auto simp: eqs split: if_splits)
  qed
qed

lemma local_fs_delete_contract:
  assumes inv: "local_fs_inv F c f" and del: "local_fs_delete F c k f = (r, f')"
  shows "local_fs_inv F c f' \<and> r \<noteq> Panic \<and>
     local_fs_contents F c f' \<in> {local_fs_contents F c f, (local_fs_contents F c f)(k := None)} \<and>
     (r = Ok () \<longrightarrow> local_fs_contents F c f' = (local_fs_contents F c f)(k := None))"
proof -
  note F = local_fs_inv_hex [OF inv]
  obtain x f1 where rm: "fs_remove_file (key_path F c k) f = (x, f1)" by fastforce
  with del F have r: "f' = f1" "r \<noteq> Panic" "r = Ok () \<longrightarrow> x \<in> {FsOk (), FsNotFound}"
    by (auto simp: local_fs_delete_def split: fs_res.splits)
  have "fs_files f1 \<in> {fs_files f, (fs_files f)(key_path F c k := None)}"
    and del: "r = Ok () \<longrightarrow> fs_files f1 = (fs_files f)(key_path F c k := None)"
    using fs_remove_file_res [OF rm] r by auto
  then show ?thesis
    using r inv by (auto simp: local_fs_inv_def local_fs_contents_fun [OF F] key_path_fun_upd [OF F] split: if_splits)
qed

lemma byte_range_alt:
  "j < (- 1 :: u64) \<Longrightarrow>
   take (max (min (unat (j + 1)) (length b)) (min (unat i) (length b)) - min (unat i) (length b))
     (drop (min (unat i) (length b)) b) = byte_range b i j"
  by (auto simp: unat_succ_below_max byte_range_def max_def min_def)

lemma byte_range_full: "blob_len_ok b \<Longrightarrow> byte_range b 0 (saturating_sub (of_nat (length b)) 1) = b"
proof -
  assume b: "blob_len_ok b"
  then have n: "unat (of_nat (length b) :: u64) = length b"
    by (simp add: unsigned_of_nat take_bit_nat_eq_self)
  show ?thesis
  proof (cases "b = []")
    case False
    then have "(1 :: u64) \<le> of_nat (length b)" by (simp add: word_le_nat_alt n Suc_le_eq)
    then have "unat (saturating_sub (of_nat (length b)) 1 :: u64) = length b - 1"
      by (simp add: saturating_sub_def unat_sub n)
    then show ?thesis using False by (simp add: byte_range_def)
  qed (simp add: byte_range_def)
qed

lemma local_fs_get_contract:
  assumes inv: "local_fs_inv F c f" and j: "j < - 1" and get: "local_fs_get_range ovf F c k i j f = (r, f')"
  shows "local_fs_inv F c f' \<and> r \<noteq> Panic \<and> local_fs_contents F c f' = local_fs_contents F c f \<and>
     (\<forall>d. r = Ok d \<longrightarrow> (\<exists>b. local_fs_contents F c f k = Some b \<and> d = byte_range b i j))"
proof -
  note F = local_fs_inv_hex [OF inv]
  show ?thesis
    using get inv j byte_range_alt [OF j, of _ i]
    by (auto simp: local_fs_get_range_def fs_read_def fs_call_def F Let_def local_fs_inv_def
        local_fs_contents_fun [OF F] split: io_event.splits option.splits)
qed

interpretation lfs: blob_store "local_fs_ops ovf F c" "local_fs_contents F c" "local_fs_inv F c" local_fs_healthy
  for ovf F c
proof unfold_locales
  fix s b k r s'
  assume inv: "local_fs_inv F c s" and len: "blob_len_ok b" and put: "bs_put (local_fs_ops ovf F c) k b s = (r, s')"
  show "local_fs_inv F c s' \<and> r \<noteq> Panic \<and>
     local_fs_contents F c s' \<in> {local_fs_contents F c s, (local_fs_contents F c s)(k \<mapsto> b)} \<and>
     (r = Ok True \<longrightarrow> local_fs_contents F c s' = (local_fs_contents F c s)(k \<mapsto> b)) \<and>
     (r = Ok False \<longrightarrow> local_fs_contents F c s' = local_fs_contents F c s \<and> local_fs_contents F c s k \<noteq> None)"
    using local_fs_put_contract [OF inv len] put by (simp add: local_fs_ops_def)
next
  fix s k r s'
  assume inv: "local_fs_inv F c s" and del: "bs_delete (local_fs_ops ovf F c) k s = (r, s')"
  show "local_fs_inv F c s' \<and> r \<noteq> Panic \<and>
     local_fs_contents F c s' \<in> {local_fs_contents F c s, (local_fs_contents F c s)(k := None)} \<and>
     (r = Ok () \<longrightarrow> local_fs_contents F c s' = (local_fs_contents F c s)(k := None))"
    using local_fs_delete_contract [OF inv] del by (simp add: local_fs_ops_def)
next
  fix s i j k r s'
  assume inv: "local_fs_inv F c s" and "i \<le> j" and j: "j < - 1" and get: "bs_get_range (local_fs_ops ovf F c) k i j s = (r, s')"
  show "local_fs_inv F c s' \<and> r \<noteq> Panic \<and> local_fs_contents F c s' = local_fs_contents F c s \<and>
     (\<forall>d. r = Ok d \<longrightarrow> (\<exists>b. local_fs_contents F c s k = Some b \<and> d = byte_range b i j))"
    using local_fs_get_contract [OF inv j] get by (simp add: local_fs_ops_def)
qed (auto simp: local_fs_ops_def local_fs_inv_def local_fs_put_healthy local_fs_head_def local_fs_presign_get_def
      local_fs_delete_def local_fs_get_range_def local_fs_contents_fun fs_metadata_def fs_read_def fs_remove_file_def
      fs_call_def healthy_event Let_def split: io_event.splits option.splits)

end
