(* ===== verification/Server_State.thy ===== *)
theory Server_State
  imports Prelude Hash_Map Xet_Core Blob
begin

text \<open>
  \<open>crates/xetd/src/state.rs\<close>: the counters, the in-memory index (xorb catalog, registered files, VFS
  catalog, global chunk index) with its two operations, and the state the handlers share. The index
  sits behind a \<open>std::sync::Mutex\<close>; a panic while it is locked poisons it, and from then on
  every \<open>lock().unwrap()\<close> panics.
\<close>

section \<open>Counters\<close>

record metrics =
  xorb_puts :: u64
  novel_bytes :: u64
  chunk_query_hit :: u64
  chunk_query_miss :: u64

definition metrics_default :: metrics where
  "metrics_default = \<lparr>xorb_puts = 0, novel_bytes = 0, chunk_query_hit = 0, chunk_query_miss = 0\<rparr>"

definition metrics_get :: "metrics \<Rightarrow> string \<Rightarrow> u64" where
  "metrics_get m name =
     (if name = ''xorb_puts'' then xorb_puts m
      else if name = ''novel_bytes'' then novel_bytes m
      else if name = ''chunk_query_hit'' then chunk_query_hit m
      else if name = ''chunk_query_miss'' then chunk_query_miss m
      else 0)"

section \<open>The index\<close>

record xorb_meta =
  xm_num_chunks :: u32
  xm_boundary_offsets :: "u32 list"
  xm_unpacked_offsets :: "u32 list"

definition from_info :: "xorb_info \<Rightarrow> xorb_meta" where
  "from_info info =
     \<lparr>xm_num_chunks = xi_num_chunks info,
      xm_boundary_offsets = xi_chunk_boundary_offsets info,
      xm_unpacked_offsets = xi_unpacked_chunk_offsets info\<rparr>"

text \<open>A reconstruction term: the chunks \<open>[start, end)\<close> of one xorb.\<close>

record file_term =
  ft_xorb :: hash
  ft_start :: u32
  ft_end :: u32
  ft_unpacked_length :: u64

record file_record =
  fr_total_size :: u64
  fr_terms :: "file_term list"

record chunk_loc =
  cl_xorb :: hash
  cl_index :: u32
  cl_unpacked_len :: u32

record index_store =
  ix_xorbs :: "(hash, xorb_meta) hashmap"
  ix_files :: "(hash, file_record) hashmap"
  ix_catalog :: "(string \<times> string, hash) hashmap"
  ix_chunk_index :: "(hash, chunk_loc) hashmap"

definition index_default :: index_store where
  "index_default = \<lparr>ix_xorbs = [], ix_files = [], ix_catalog = [], ix_chunk_index = []\<rparr>"

definition index_put_xorb :: "hash \<Rightarrow> xorb_info \<Rightarrow> index_store \<Rightarrow> index_store" where
  "index_put_xorb h info ix = ix\<lparr>ix_xorbs := hm_or_insert h (from_info info) (ix_xorbs ix)\<rparr>"

text \<open>
  The loop of \<open>Index::index_chunks\<close> over the enumerated chunk hashes; a panic leaves the entries
  made so far.
\<close>

fun index_chunks_loop ::
  "bool \<Rightarrow> hash \<Rightarrow> u32 list \<Rightarrow> nat \<Rightarrow> u32 \<Rightarrow> hash list \<Rightarrow> (hash, chunk_loc) hashmap
     \<Rightarrow> unit res \<times> (hash, chunk_loc) hashmap" where
  "index_chunks_loop ovf xorb offs i prev_end [] m = (Ok (), m)"
| "index_chunks_loop ovf xorb offs i prev_end (h # hs) m =
     (case bind_res (nth_res offs i) (\<lambda>e. bind_res (sub_res ovf e prev_end) (\<lambda>len. Ok (e, len))) of
        Ok (e, len) \<Rightarrow>
          index_chunks_loop ovf xorb offs (Suc i) e hs
            (hm_or_insert h \<lparr>cl_xorb = xorb, cl_index = of_nat i, cl_unpacked_len = len\<rparr> m)
      | Err msg \<Rightarrow> (Err msg, m)
      | Panic \<Rightarrow> (Panic, m))"

definition index_chunks :: "bool \<Rightarrow> hash \<Rightarrow> xorb_info \<Rightarrow> index_store \<Rightarrow> unit res \<times> index_store" where
  "index_chunks ovf xorb info ix =
     (case index_chunks_loop ovf xorb (xi_unpacked_chunk_offsets info) 0 0 (xi_chunk_hashes info)
             (ix_chunk_index ix) of
        (r, m) \<Rightarrow> (r, ix\<lparr>ix_chunk_index := m\<rparr>))"

section \<open>The shared state\<close>

datatype auth_mode = Loopback | Tokens

record 'b app_state =
  as_blob :: 'b
  as_index :: index_store
  as_poisoned :: bool
  as_metrics :: metrics
  as_auth :: auth_mode
  as_read_token :: string
  as_write_token :: string

definition app_state_new :: "'b \<Rightarrow> auth_mode \<Rightarrow> string \<Rightarrow> string \<Rightarrow> 'b app_state" where
  "app_state_new blob auth rt wt =
     \<lparr>as_blob = blob, as_index = index_default, as_poisoned = False, as_metrics = metrics_default,
      as_auth = auth, as_read_token = rt, as_write_token = wt\<rparr>"

lemma app_state_new_simps [simp]:
  "as_blob (app_state_new blob auth rt wt) = blob" "as_index (app_state_new blob auth rt wt) = index_default"
  "as_poisoned (app_state_new blob auth rt wt) = False" "as_metrics (app_state_new blob auth rt wt) = metrics_default"
  by (simp_all add: app_state_new_def)

section \<open>Well-formedness of the index\<close>

definition index_ok :: "index_store \<Rightarrow> bool" where
  "index_ok ix \<longleftrightarrow> hm_ok (ix_xorbs ix) \<and> hm_ok (ix_files ix) \<and> hm_ok (ix_catalog ix) \<and> hm_ok (ix_chunk_index ix)"

text \<open>The xorbs that some registered file refers to.\<close>

definition referenced :: "index_store \<Rightarrow> hash set" where
  "referenced ix = {ft_xorb t |fh f t. hm_get (ix_files ix) fh = Some f \<and> t \<in> set (fr_terms f)}"

text \<open>
  Referential integrity: terms name indexed xorbs, catalog entries name registered files, and chunk
  locations name an indexed xorb.
\<close>

definition refs_ok :: "index_store \<Rightarrow> bool" where
  "refs_ok ix \<longleftrightarrow>
     referenced ix \<subseteq> dom (hm_get (ix_xorbs ix)) \<and>
     ran (hm_get (ix_catalog ix)) \<subseteq> dom (hm_get (ix_files ix)) \<and>
     (\<forall>h l. hm_get (ix_chunk_index ix) h = Some l \<longrightarrow> cl_xorb l \<in> dom (hm_get (ix_xorbs ix)))"

abbreviation index_inv :: "index_store \<Rightarrow> bool" where
  "index_inv ix \<equiv> index_ok ix \<and> refs_ok ix"

lemma index_default_inv: "index_inv index_default"
  by (simp add: index_ok_def refs_ok_def referenced_def index_default_def)

lemma referencedI: "hm_get (ix_files ix) fh = Some f \<Longrightarrow> t \<in> set (fr_terms f) \<Longrightarrow> ft_xorb t \<in> referenced ix"
  unfolding referenced_def by blast

lemma referenced_cong: "ix_files ix' = ix_files ix \<Longrightarrow> referenced ix' = referenced ix"
  by (simp add: referenced_def)

lemma index_put_xorb_simps [simp]:
  "ix_files (index_put_xorb h info ix) = ix_files ix"
  "ix_catalog (index_put_xorb h info ix) = ix_catalog ix"
  "ix_chunk_index (index_put_xorb h info ix) = ix_chunk_index ix"
  "referenced (index_put_xorb h info ix) = referenced ix"
  by (simp_all add: index_put_xorb_def referenced_def)

lemma index_put_xorb_get:
  "hm_get (ix_xorbs (index_put_xorb h info ix)) =
     (if hm_get (ix_xorbs ix) h = None then (hm_get (ix_xorbs ix))(h \<mapsto> from_info info) else hm_get (ix_xorbs ix))"
  by (simp add: index_put_xorb_def hm.get_or_insert)

lemma index_put_xorb_mono:
  "hm_get (ix_xorbs ix) k = Some m \<Longrightarrow> hm_get (ix_xorbs (index_put_xorb h info ix)) k = Some m"
  by (auto simp: index_put_xorb_get)

text \<open>Referential integrity survives new xorbs and new chunk locations in indexed xorbs.\<close>

lemma refs_ok_extend:
  assumes "refs_ok ix" "ix_files ix' = ix_files ix" "ix_catalog ix' = ix_catalog ix"
    and mono: "\<And>k m. hm_get (ix_xorbs ix) k = Some m \<Longrightarrow> hm_get (ix_xorbs ix') k = Some m"
    and locs: "\<And>h l. hm_get (ix_chunk_index ix') h = Some l \<Longrightarrow> hm_get (ix_chunk_index ix) h = Some l \<or>
        cl_xorb l \<in> dom (hm_get (ix_xorbs ix'))"
  shows "refs_ok ix'"
proof -
  have "referenced ix' = referenced ix" using assms(2) by (simp add: referenced_def)
  moreover have "dom (hm_get (ix_xorbs ix)) \<subseteq> dom (hm_get (ix_xorbs ix'))" using mono by blast
  ultimately show ?thesis
    using assms(1-3) locs unfolding refs_ok_def by (auto simp: subset_iff) blast
qed

lemma index_put_xorb_inv:
  assumes "index_inv ix"
  shows "index_inv (index_put_xorb h info ix)"
proof
  show "refs_ok (index_put_xorb h info ix)"
    by (rule refs_ok_extend [of ix]) (use assms in \<open>simp_all add: index_put_xorb_mono\<close>)
  show "index_ok (index_put_xorb h info ix)"
    using assms by (auto simp: index_ok_def index_put_xorb_def intro: hm.ok_or_insert)
qed

lemma index_chunks_loop_mono:
  "index_chunks_loop ovf x offs i p hs m = (r, m') \<Longrightarrow> hm_get m k = Some l \<Longrightarrow> hm_get m' k = Some l"
proof (induction hs arbitrary: i p m)
  case (Cons h hs)
  then show ?case
    by (auto split: res.splits prod.splits intro: hm.get_or_insert_mono)
qed simp

lemma index_chunks_loop_ok: "index_chunks_loop ovf x offs i p hs m = (r, m') \<Longrightarrow> hm_ok m \<Longrightarrow> hm_ok m'"
  by (induction hs arbitrary: i p m) (auto split: res.splits prod.splits intro: hm.ok_or_insert)

text \<open>Every location the loop adds is the position of that hash in the list it walks.\<close>

lemma index_chunks_loop_new:
  "index_chunks_loop ovf x offs i p hs m = (r, m') \<Longrightarrow> hm_get m' h = Some l \<Longrightarrow> hm_get m h = None \<Longrightarrow>
     \<exists>j < length hs. hs ! j = h \<and> (\<forall>j' < j. hs ! j' \<noteq> h) \<and> cl_xorb l = x \<and> cl_index l = of_nat (i + j) \<and>
        i + j < length offs \<and> cl_unpacked_len l = offs ! (i + j) - (if j = 0 then p else offs ! (i + j - 1))"
proof (induction hs arbitrary: i p m)
  case Nil
  then show ?case by simp
next
  case (Cons a hs)
  from Cons.prems obtain e len where step: "i < length offs" "e = offs ! i" "len = e - p"
    and rest: "index_chunks_loop ovf x offs (Suc i) e hs
        (hm_or_insert a \<lparr>cl_xorb = x, cl_index = of_nat i, cl_unpacked_len = len\<rparr> m) = (r, m')"
    by (auto simp: nth_res_def sub_res_def split: if_splits)
  show ?case
  proof (cases "a = h")
    case True
    then have "hm_get (hm_or_insert a \<lparr>cl_xorb = x, cl_index = of_nat i, cl_unpacked_len = len\<rparr> m) h =
        Some \<lparr>cl_xorb = x, cl_index = of_nat i, cl_unpacked_len = len\<rparr>"
      using Cons.prems(3) by (simp add: hm.get_or_insert)
    then have "l = \<lparr>cl_xorb = x, cl_index = of_nat i, cl_unpacked_len = len\<rparr>"
      using index_chunks_loop_mono [OF rest] Cons.prems(2) by fastforce
    with True step show ?thesis by (intro exI [of _ 0]) simp
  next
    case False
    then have "hm_get (hm_or_insert a \<lparr>cl_xorb = x, cl_index = of_nat i, cl_unpacked_len = len\<rparr> m) h = None"
      using Cons.prems(3) by (simp add: hm.get_or_insert)
    from Cons.IH [OF rest Cons.prems(2) this] obtain j where
      "j < length hs" "hs ! j = h" "\<forall>j' < j. hs ! j' \<noteq> h" "cl_xorb l = x" "cl_index l = of_nat (Suc i + j)"
      "Suc i + j < length offs"
      "cl_unpacked_len l = offs ! (Suc i + j) - (if j = 0 then e else offs ! (Suc i + j - 1))"
      by blast
    with False step show ?thesis
      by (intro exI [of _ "Suc j"]) (auto simp: less_Suc_eq_0_disj)
  qed
qed

text \<open>With one unpacked offset per chunk, in increasing order, the loop finishes and covers every hash.\<close>

lemma index_chunks_loop_total:
  assumes "sorted offs" "i + length hs \<le> length offs" "i = 0 \<and> p = 0 \<or> 0 < i \<and> p = offs ! (i - 1)"
  shows "\<exists>m'. index_chunks_loop ovf x offs i p hs m = (Ok (), m') \<and> set hs \<subseteq> dom (hm_get m')"
  using assms
proof (induction hs arbitrary: i p m)
  case Nil
  then show ?case by simp
next
  case (Cons h hs)
  have i: "i < length offs" and "p \<le> offs ! i"
    using Cons.prems by (auto intro: sorted_nth_mono)
  then have eq: "index_chunks_loop ovf x offs i p (h # hs) m =
      index_chunks_loop ovf x offs (Suc i) (offs ! i) hs
        (hm_or_insert h \<lparr>cl_xorb = x, cl_index = of_nat i, cl_unpacked_len = offs ! i - p\<rparr> m)"
    by simp
  obtain m' where m': "index_chunks_loop ovf x offs (Suc i) (offs ! i) hs
        (hm_or_insert h \<lparr>cl_xorb = x, cl_index = of_nat i, cl_unpacked_len = offs ! i - p\<rparr> m) = (Ok (), m')"
      "set hs \<subseteq> dom (hm_get m')"
    using Cons.IH [of "Suc i" "offs ! i"] Cons.prems by fastforce
  have "h \<in> dom (hm_get (hm_or_insert h \<lparr>cl_xorb = x, cl_index = of_nat i, cl_unpacked_len = offs ! i - p\<rparr> m))"
    by (simp add: hm.dom_or_insert)
  then have "h \<in> dom (hm_get m')"
    using index_chunks_loop_mono [OF m'(1)] by blast
  with m' eq show ?case by auto
qed

lemma index_chunks_frame:
  assumes "index_chunks ovf x info ix = (r, ix')"
  shows "ix_xorbs ix' = ix_xorbs ix" "ix_files ix' = ix_files ix" "ix_catalog ix' = ix_catalog ix"
  using assms by (auto simp: index_chunks_def split: prod.splits)

text \<open>
  Indexing a xorb whose footer is well formed succeeds in every build and keeps the invariant.
\<close>

lemma index_chunks_inv:
  assumes inv: "index_inv ix" and wf: "info_wf info n" and x: "x \<in> dom (hm_get (ix_xorbs ix))"
    and run: "index_chunks ovf x info ix = (r, ix')"
  shows "r = Ok () \<and> index_inv ix'"
proof -
  obtain c where c: "index_chunks_loop ovf x (xi_unpacked_chunk_offsets info) 0 0 (xi_chunk_hashes info)
      (ix_chunk_index ix) = (r, c)" "ix' = ix\<lparr>ix_chunk_index := c\<rparr>"
    using run by (auto simp: index_chunks_def split: prod.splits)
  have r: "r = Ok ()"
    using index_chunks_loop_total [of "xi_unpacked_chunk_offsets info" 0 "xi_chunk_hashes info" 0 ovf x
        "ix_chunk_index ix"] wf c by (auto simp: info_wf_def)
  have "refs_ok ix'"
  proof (rule refs_ok_extend)
    fix h l assume l: "hm_get (ix_chunk_index ix') h = Some l"
    show "hm_get (ix_chunk_index ix) h = Some l \<or> cl_xorb l \<in> dom (hm_get (ix_xorbs ix'))"
    proof (cases "hm_get (ix_chunk_index ix) h")
      case None
      with index_chunks_loop_new [OF c(1)] l c(2) have "cl_xorb l = x" by auto
      with x c(2) show ?thesis by auto
    next
      case (Some l')
      with index_chunks_loop_mono [OF c(1)] l c(2) show ?thesis by fastforce
    qed
  qed (use inv c in auto)
  moreover have "index_ok ix'"
    using inv c index_chunks_loop_ok [OF c(1)] by (auto simp: index_ok_def)
  ultimately show ?thesis using r by blast
qed

end
