(* ===== verification/Server.thy ===== *)
theory Server
  imports Server_State Range
begin

text \<open>
  The request handlers of \<open>crates/xetd/src/main.rs\<close>, run one at a time. A handler takes the
  arguments its extractors give it and the shared state, and returns the response with the new state; \<open>Panic\<close>
  is a handler that unwinds (the client sees the connection drop). A panic under the index lock sets
  the poison flag. The parameters are the fork \<open>F\<close>, the blob store \<open>B\<close> and the build flag \<open>ovf\<close>.
\<close>

section \<open>Responses\<close>

datatype body = NoBody | Text string | Raw bytes | Json json

record response =
  rs_status :: nat
  rs_headers :: "(string \<times> string) list"
  rs_body :: body

definition status_only :: "nat \<Rightarrow> response" where
  "status_only code = \<lparr>rs_status = code, rs_headers = [], rs_body = NoBody\<rparr>"

definition with_text :: "nat \<Rightarrow> string \<Rightarrow> response" where
  "with_text code msg = \<lparr>rs_status = code, rs_headers = [], rs_body = Text msg\<rparr>"

definition ok_json :: "json \<Rightarrow> response" where
  "ok_json j = \<lparr>rs_status = 200, rs_headers = [], rs_body = Json j\<rparr>"

lemma response_simps [simp]:
  "rs_status (status_only c) = c" "rs_status (with_text c t) = c" "rs_status (ok_json j) = 200"
  "rs_body (ok_json j) = Json j" "rs_body (with_text c t) = Text t"
  by (simp_all add: status_only_def with_text_def ok_json_def)

section \<open>Wire types\<close>

record chunk_range =
  cr_start :: u32
  cr_end :: u32

record byte_span =
  br_start :: u64
  br_end :: u64

record recon_term =
  rt_hash :: string
  rt_unpacked_length :: u64
  rt_range :: chunk_range

record fetch_info =
  fi_range :: chunk_range
  fi_url :: string
  fi_url_range :: byte_span

record recon_response =
  rr_offset_into_first_range :: u64
  rr_terms :: "recon_term list"
  rr_fetch_info :: "(string, fetch_info list) hashmap"

definition json_of_chunk_range :: "chunk_range \<Rightarrow> json" where
  "json_of_chunk_range r = JObj [(''start'', JNum (ucast (cr_start r))), (''end'', JNum (ucast (cr_end r)))]"

definition json_of_byte_span :: "byte_span \<Rightarrow> json" where
  "json_of_byte_span r = JObj [(''start'', JNum (br_start r)), (''end'', JNum (br_end r))]"

definition json_of_recon_term :: "recon_term \<Rightarrow> json" where
  "json_of_recon_term t =
     JObj [(''hash'', JStr (rt_hash t)), (''unpacked_length'', JNum (rt_unpacked_length t)),
           (''range'', json_of_chunk_range (rt_range t))]"

definition json_of_fetch_info :: "fetch_info \<Rightarrow> json" where
  "json_of_fetch_info e =
     JObj [(''range'', json_of_chunk_range (fi_range e)), (''url'', JStr (fi_url e)),
           (''url_range'', json_of_byte_span (fi_url_range e))]"

definition json_of_recon_response :: "recon_response \<Rightarrow> json" where
  "json_of_recon_response r =
     JObj [(''offset_into_first_range'', JNum (rr_offset_into_first_range r)),
           (''terms'', JArr (map json_of_recon_term (rr_terms r))),
           (''fetch_info'', JObj (map (\<lambda>(k, es). (k, JArr (map json_of_fetch_info es))) (rr_fetch_info r)))]"

record register_term =
  rg_xorb :: string
  rg_start :: u32
  rg_end :: u32
  rg_unpacked_length :: u64

record register_file_req =
  rf_file_hash :: string
  rf_total_size :: u64
  rf_terms :: "register_term list"
  rf_volume :: "string option"
  rf_path :: "string option"

section \<open>\<open>GET /reconstructions\<close>\<close>

record resolved =
  rv_xorb :: hash
  rv_start :: u32
  rv_end :: u32
  rv_unpacked :: u64
  rv_byte_start :: u64
  rv_byte_end :: u64

text \<open>The byte range of the chunks \<open>[start, end)\<close>, from the stored end offsets.\<close>

definition term_bytes :: "bool \<Rightarrow> u32 list \<Rightarrow> u32 \<Rightarrow> u32 \<Rightarrow> (u64 \<times> u64) res" where
  "term_bytes ovf offs start stop =
     bind_res (if start = 0 then Ok 0
               else bind_res (sub_res ovf start 1) (\<lambda>i. bind_res (nth_res offs (unat i)) (\<lambda>v. Ok (ucast v)))) (\<lambda>bs.
     bind_res (bind_res (sub_res ovf stop 1) (\<lambda>i. bind_res (nth_res offs (unat i)) (\<lambda>v. sub_res ovf (ucast v) 1)))
       (\<lambda>be. Ok (bs, be)))"

text \<open>The loop under the index lock: \<open>Inl\<close> is the status code that the loop breaks with.\<close>

fun resolve_terms :: "bool \<Rightarrow> (hash, xorb_meta) hashmap \<Rightarrow> file_term list \<Rightarrow> (nat + resolved list) res" where
  "resolve_terms ovf xorbs [] = Ok (Inr [])"
| "resolve_terms ovf xorbs (t # ts) =
     (case hm_get xorbs (ft_xorb t) of
        None \<Rightarrow> Ok (Inl 500)
      | Some meta \<Rightarrow>
          bind_res (term_bytes ovf (xm_boundary_offsets meta) (ft_start t) (ft_end t)) (\<lambda>(bs, be).
          bind_res (resolve_terms ovf xorbs ts) (\<lambda>r.
            (case r of
               Inl code \<Rightarrow> Ok (Inl code)
             | Inr v \<Rightarrow>
                 Ok (Inr (\<lparr>rv_xorb = ft_xorb t, rv_start = ft_start t, rv_end = ft_end t,
                           rv_unpacked = ft_unpacked_length t, rv_byte_start = bs, rv_byte_end = be\<rparr> # v))))))"

definition push_fetch_info ::
  "string \<Rightarrow> fetch_info \<Rightarrow> (string, fetch_info list) hashmap \<Rightarrow> (string, fetch_info list) hashmap" where
  "push_fetch_info k e m = hm_insert k ((case hm_get m k of None \<Rightarrow> [] | Some es \<Rightarrow> es) @ [e]) m"

fun presign_terms ::
  "fork \<Rightarrow> 'b blob_ops \<Rightarrow> resolved list \<Rightarrow> recon_term list \<Rightarrow> (string, fetch_info list) hashmap \<Rightarrow> 'b
     \<Rightarrow> (recon_term list \<times> (string, fetch_info list) hashmap) res \<times> 'b" where
  "presign_terms F B [] terms fi s = (Ok (terms, fi), s)"
| "presign_terms F B (t # ts) terms fi s =
     (case bs_presign_get B (rv_xorb t) 900 s of
        (Ok url, s1) \<Rightarrow>
          (let xorb_hex = hex F (rv_xorb t);
               range = \<lparr>cr_start = rv_start t, cr_end = rv_end t\<rparr>
           in presign_terms F B ts
                (terms @ [\<lparr>rt_hash = xorb_hex, rt_unpacked_length = rv_unpacked t, rt_range = range\<rparr>])
                (push_fetch_info xorb_hex
                   \<lparr>fi_range = range, fi_url = url,
                    fi_url_range = \<lparr>br_start = rv_byte_start t, br_end = rv_byte_end t\<rparr>\<rparr> fi) s1)
      | (Err e, s1) \<Rightarrow> (Err e, s1)
      | (Panic, s1) \<Rightarrow> (Panic, s1))"

definition reconstruct ::
  "bool \<Rightarrow> fork \<Rightarrow> 'b blob_ops \<Rightarrow> string \<Rightarrow> 'b app_state \<Rightarrow> response res \<times> 'b app_state" where
  "reconstruct ovf F B file_hash_hex st =
     (case from_hex F file_hash_hex of
        None \<Rightarrow> (Ok (with_text 400 ''malformed file hash''), st)
      | Some fh \<Rightarrow>
          if as_poisoned st then (Panic, st)
          else (case hm_get (ix_files (as_index st)) fh of
             None \<Rightarrow> (Ok (status_only 404), st)
           | Some file \<Rightarrow>
               (case resolve_terms ovf (ix_xorbs (as_index st)) (fr_terms file) of
                  Ok (Inl code) \<Rightarrow> (Ok (status_only code), st)
                | Ok (Inr collected) \<Rightarrow>
                    (case presign_terms F B collected [] [] (as_blob st) of
                       (Ok (terms, fi), s1) \<Rightarrow>
                         (Ok (ok_json (json_of_recon_response
                            \<lparr>rr_offset_into_first_range = 0, rr_terms = terms, rr_fetch_info = fi\<rparr>)),
                          st\<lparr>as_blob := s1\<rparr>)
                     | (Err e, s1) \<Rightarrow> (Ok (with_text 500 (''presign: '' @ e)), st\<lparr>as_blob := s1\<rparr>)
                     | (Panic, s1) \<Rightarrow> (Panic, st\<lparr>as_blob := s1\<rparr>))
                | _ \<Rightarrow> (Panic, st\<lparr>as_poisoned := True\<rparr>))))"

section \<open>\<open>POST /files\<close>\<close>

fun register_terms ::
  "fork \<Rightarrow> (hash, xorb_meta) hashmap \<Rightarrow> register_term list \<Rightarrow> string + file_term list" where
  "register_terms F xorbs [] = Inr []"
| "register_terms F xorbs (t # ts) =
     (case from_hex F (rg_xorb t) of
        None \<Rightarrow> Inl ''malformed xorb hash''
      | Some xorb \<Rightarrow>
          if \<not> hm_contains_key xorb xorbs then Inl ''term references an xorb that was not uploaded''
          else (case register_terms F xorbs ts of
                  Inl e \<Rightarrow> Inl e
                | Inr terms \<Rightarrow>
                    Inr (\<lparr>ft_xorb = xorb, ft_start = rg_start t, ft_end = rg_end t,
                          ft_unpacked_length = rg_unpacked_length t\<rparr> # terms)))"

definition register_file ::
  "fork \<Rightarrow> register_file_req \<Rightarrow> 'b app_state \<Rightarrow> response res \<times> 'b app_state" where
  "register_file F req st =
     (case from_hex F (rf_file_hash req) of
        None \<Rightarrow> (Ok (with_text 400 ''malformed file hash''), st)
      | Some fh \<Rightarrow>
          if as_poisoned st then (Panic, st)
          else (case register_terms F (ix_xorbs (as_index st)) (rf_terms req) of
             Inl e \<Rightarrow> (Ok (with_text 400 e), st)
           | Inr terms \<Rightarrow>
               (let ix = as_index st;
                    existed = hm_contains_key fh (ix_files ix);
                    ix1 = ix\<lparr>ix_files := hm_insert fh \<lparr>fr_total_size = rf_total_size req, fr_terms = terms\<rparr> (ix_files ix)\<rparr>;
                    ix2 = (case (rf_volume req, rf_path req) of
                             (Some v, Some p) \<Rightarrow> ix1\<lparr>ix_catalog := hm_insert (v, p) fh (ix_catalog ix1)\<rparr>
                           | _ \<Rightarrow> ix1)
                in (Ok (ok_json (JObj [(''result'', JNum (if existed then 0 else 1))])), st\<lparr>as_index := ix2\<rparr>))))"

section \<open>\<open>GET /volumes/{volume}/entries\<close>\<close>

definition entry_json :: "fork \<Rightarrow> index_store \<Rightarrow> string \<Rightarrow> hash \<Rightarrow> json" where
  "entry_json F ix path fh =
     JObj [(''path'', JStr path), (''file_hash'', JStr (hex F fh)),
           (''size'', JNum (case hm_get (ix_files ix) fh of None \<Rightarrow> 0 | Some f \<Rightarrow> fr_total_size f))]"

definition list_entries :: "fork \<Rightarrow> string \<Rightarrow> 'b app_state \<Rightarrow> response res \<times> 'b app_state" where
  "list_entries F volume st =
     (if as_poisoned st then (Panic, st)
      else (Ok (ok_json (JArr (map (\<lambda>((vol, path), fh). entry_json F (as_index st) path fh)
              (filter (\<lambda>((vol, path), fh). vol = volume) (ix_catalog (as_index st)))))), st))"

section \<open>\<open>POST /xorbs\<close>\<close>

text \<open>The index update of an accepted upload, under the lock.\<close>

definition index_upload :: "bool \<Rightarrow> hash \<Rightarrow> xorb_info \<Rightarrow> index_store \<Rightarrow> unit res \<times> index_store" where
  "index_upload ovf h info ix = index_chunks ovf h info (index_put_xorb h info ix)"

definition put_xorb ::
  "bool \<Rightarrow> fork \<Rightarrow> 'b blob_ops \<Rightarrow> string \<Rightarrow> bytes \<Rightarrow> 'b app_state \<Rightarrow> response res \<times> 'b app_state" where
  "put_xorb ovf F B hash_hex body st =
     (case from_hex F hash_hex of
        None \<Rightarrow> (Ok (with_text 400 ''malformed xorb hash''), st)
      | Some h \<Rightarrow>
          (case validate_xorb_object F body h of
             Ok None \<Rightarrow> (Ok (with_text 400 ''xorb failed integrity check (hash mismatch or malformed)''), st)
           | Err _ \<Rightarrow> (Ok (with_text 400 ''could not parse xorb''), st)
           | Panic \<Rightarrow> (Panic, st)
           | Ok (Some info) \<Rightarrow>
               (case bs_put B h body (as_blob st) of
                  (Err e, s1) \<Rightarrow> (Ok (with_text 500 (''blob store: '' @ e)), st\<lparr>as_blob := s1\<rparr>)
                | (Panic, s1) \<Rightarrow> (Panic, st\<lparr>as_blob := s1\<rparr>)
                | (Ok inserted, s1) \<Rightarrow>
                    (let st1 = st\<lparr>as_blob := s1\<rparr>;
                         done = ok_json (JObj [(''was_inserted'', JBool inserted)])
                     in if \<not> inserted then (Ok done, st1)
                        else if as_poisoned st1 then (Panic, st1)
                        else (case index_upload ovf h info (as_index st1) of
                           (Ok _, ix) \<Rightarrow>
                             (Ok done,
                              st1\<lparr>as_index := ix,
                                  as_metrics := (as_metrics st1)
                                    \<lparr>xorb_puts := xorb_puts (as_metrics st1) + 1,
                                     novel_bytes := novel_bytes (as_metrics st1) + of_nat (length body)\<rparr>\<rparr>)
                         | (_, ix) \<Rightarrow> (Panic, st1\<lparr>as_index := ix, as_poisoned := True\<rparr>))))))"

section \<open>\<open>GET /xorb-data\<close>\<close>

definition xorb_data ::
  "(string \<Rightarrow> string option) \<Rightarrow> fork \<Rightarrow> 'b blob_ops \<Rightarrow> string \<Rightarrow> string option \<Rightarrow> 'b app_state
     \<Rightarrow> response res \<times> 'b app_state" where
  "xorb_data to_str F B hash_hex range_header st =
     (case from_hex F hash_hex of
        None \<Rightarrow> (Ok (with_text 400 ''malformed xorb hash''), st)
      | Some h \<Rightarrow>
          (case bs_head B h (as_blob st) of
             (Panic, s1) \<Rightarrow> (Panic, st\<lparr>as_blob := s1\<rparr>)
           | (Ok (Some meta), s1) \<Rightarrow>
               (case parse_range to_str range_header (om_len meta) of
                  None \<Rightarrow> (Ok (status_only 416), st\<lparr>as_blob := s1\<rparr>)
                | Some (start, stop) \<Rightarrow>
                    (case bs_get_range B h start stop s1 of
                       (Err e, s2) \<Rightarrow> (Ok (with_text 500 (''read: '' @ e)), st\<lparr>as_blob := s2\<rparr>)
                     | (Panic, s2) \<Rightarrow> (Panic, st\<lparr>as_blob := s2\<rparr>)
                     | (Ok bs, s2) \<Rightarrow>
                         (Ok \<lparr>rs_status = 206,
                              rs_headers =
                                [(''Content-Range'', ''bytes '' @ show_u64 start @ ''-'' @ show_u64 stop @ ''/'' @ show_u64 (om_len meta)),
                                 (''Accept-Ranges'', ''bytes''),
                                 (''ETag'', ''\"'' @ hash_hex @ ''\"''),
                                 (''Cache-Control'', ''public, immutable, max-age=300'')],
                              rs_body = Raw bs\<rparr>, st\<lparr>as_blob := s2\<rparr>)))
           | (_, s1) \<Rightarrow> (Ok (status_only 404), st\<lparr>as_blob := s1\<rparr>)))"

section \<open>\<open>GET /chunks\<close> and \<open>POST /shards\<close>\<close>

definition global_dedup :: "fork \<Rightarrow> string \<Rightarrow> 'b app_state \<Rightarrow> response res \<times> 'b app_state" where
  "global_dedup F chunk_hex st =
     (case from_hex F chunk_hex of
        None \<Rightarrow> (Ok (with_text 400 ''malformed chunk hash''), st)
      | Some ch \<Rightarrow>
          if as_poisoned st then (Panic, st)
          else (case hm_get (ix_chunk_index (as_index st)) ch of
             Some loc \<Rightarrow>
               (Ok (ok_json (JObj [(''xorb'', JStr (hex F (cl_xorb loc))),
                                   (''chunk_index'', JNum (ucast (cl_index loc))),
                                   (''unpacked_length'', JNum (ucast (cl_unpacked_len loc)))])),
                st\<lparr>as_metrics := (as_metrics st)\<lparr>chunk_query_hit := chunk_query_hit (as_metrics st) + 1\<rparr>\<rparr>)
           | None \<Rightarrow>
               (Ok (status_only 404),
                st\<lparr>as_metrics := (as_metrics st)\<lparr>chunk_query_miss := chunk_query_miss (as_metrics st) + 1\<rparr>\<rparr>)))"

definition put_shard :: "'b app_state \<Rightarrow> response res \<times> 'b app_state" where
  "put_shard st = (Ok (status_only 501), st)"

section \<open>The test-hook endpoints\<close>

definition test_metric :: "string \<Rightarrow> 'b app_state \<Rightarrow> response res \<times> 'b app_state" where
  "test_metric name st = (Ok (ok_json (JNum (metrics_get (as_metrics st) name))), st)"

definition test_noop :: "'b app_state \<Rightarrow> response res \<times> 'b app_state" where
  "test_noop st = (Ok (ok_json (JObj [(''ok'', JBool True)])), st)"

text \<open>Mark: every xorb that a registered file refers to.\<close>

definition gc_referenced :: "index_store \<Rightarrow> hash set" where
  "gc_referenced ix = set (map ft_xorb (concat (map fr_terms (hm_values (ix_files ix)))))"

text \<open>Removing one swept xorb from the index, under the lock.\<close>

definition index_evict :: "hash \<Rightarrow> index_store \<Rightarrow> index_store" where
  "index_evict x ix =
     ix\<lparr>ix_xorbs := hm_remove x (ix_xorbs ix),
        ix_chunk_index := hm_retain (\<lambda>_ loc. cl_xorb loc \<noteq> x) (ix_chunk_index ix)\<rparr>"

text \<open>Sweep: the blob first (its error is ignored), then the index entry.\<close>

fun gc_sweep ::
  "'b blob_ops \<Rightarrow> hash set \<Rightarrow> hash list \<Rightarrow> u64 \<Rightarrow> 'b app_state \<Rightarrow> u64 res \<times> 'b app_state" where
  "gc_sweep B refd [] swept st = (Ok swept, st)"
| "gc_sweep B refd (x # xs) swept st =
     (if x \<notin> refd then
        (case bs_delete B x (as_blob st) of
           (Panic, s1) \<Rightarrow> (Panic, st\<lparr>as_blob := s1\<rparr>)
         | (_, s1) \<Rightarrow>
             if as_poisoned st then (Panic, st\<lparr>as_blob := s1\<rparr>)
             else gc_sweep B refd xs (swept + 1)
                    (st\<lparr>as_blob := s1, as_index := index_evict x (as_index st)\<rparr>))
      else gc_sweep B refd xs swept st)"

definition test_gc :: "'b blob_ops \<Rightarrow> 'b app_state \<Rightarrow> response res \<times> 'b app_state" where
  "test_gc B st =
     (if as_poisoned st then (Panic, st)
      else (case gc_sweep B (gc_referenced (as_index st)) (hm_keys (ix_xorbs (as_index st))) 0 st of
         (Ok swept, st1) \<Rightarrow> (Ok (ok_json (JObj [(''swept'', JNum swept)])), st1)
       | (Err e, st1) \<Rightarrow> (Err e, st1)
       | (Panic, st1) \<Rightarrow> (Panic, st1)))"

text \<open>One iteration of the scrub loop: whether this xorb is counted as quarantined.\<close>

definition scrub_one :: "fork \<Rightarrow> 'b blob_ops \<Rightarrow> hash \<Rightarrow> 'b \<Rightarrow> bool res \<times> 'b" where
  "scrub_one F B x s =
     (case bs_head B x s of
        (Panic, s1) \<Rightarrow> (Panic, s1)
      | (Ok (Some m), s1) \<Rightarrow>
          (case bs_get_range B x 0 (saturating_sub (om_len m) 1) s1 of
             (Panic, s2) \<Rightarrow> (Panic, s2)
           | (Err _, s2) \<Rightarrow> (Ok True, s2)
           | (Ok bs, s2) \<Rightarrow>
               (case validate_xorb_object F bs x of
                  Ok (Some _) \<Rightarrow> (Ok False, s2)
                | Panic \<Rightarrow> (Panic, s2)
                | _ \<Rightarrow> (Ok True, s2)))
      | (_, s1) \<Rightarrow> (Ok True, s1))"

fun scrub_loop ::
  "fork \<Rightarrow> 'b blob_ops \<Rightarrow> hash list \<Rightarrow> u64 \<Rightarrow> u64 \<Rightarrow> 'b \<Rightarrow> (u64 \<times> u64) res \<times> 'b" where
  "scrub_loop F B [] checked quarantined s = (Ok (checked, quarantined), s)"
| "scrub_loop F B (x # xs) checked quarantined s =
     (case scrub_one F B x s of
        (Ok bad, s1) \<Rightarrow> scrub_loop F B xs (checked + 1) (if bad then quarantined + 1 else quarantined) s1
      | (Err e, s1) \<Rightarrow> (Err e, s1)
      | (Panic, s1) \<Rightarrow> (Panic, s1))"

definition test_scrub :: "fork \<Rightarrow> 'b blob_ops \<Rightarrow> 'b app_state \<Rightarrow> response res \<times> 'b app_state" where
  "test_scrub F B st =
     (if as_poisoned st then (Panic, st)
      else (case scrub_loop F B (hm_keys (ix_xorbs (as_index st))) 0 0 (as_blob st) of
         (Ok (checked, quarantined), s1) \<Rightarrow>
           (Ok (ok_json (JObj [(''checked'', JNum checked), (''quarantined'', JNum quarantined)])), st\<lparr>as_blob := s1\<rparr>)
       | (Err e, s1) \<Rightarrow> (Err e, st\<lparr>as_blob := s1\<rparr>)
       | (Panic, s1) \<Rightarrow> (Panic, st\<lparr>as_blob := s1\<rparr>)))"

definition test_mint_token :: "json \<Rightarrow> 'b app_state \<Rightarrow> response res \<times> 'b app_state" where
  "test_mint_token body st =
     (let scope = (case as_str (jget body ''scope'') of None \<Rightarrow> ''read'' | Some s \<Rightarrow> s);
          token = (if scope = ''write'' then as_write_token st else as_read_token st)
      in (Ok (ok_json (JObj [(''token'', JStr token)])), st))"

section \<open>The request surface\<close>

text \<open>
  A call is a request after routing and extraction. Bodies longer than the limit of the
  \<open>DefaultBodyLimit\<close> layer never reach a handler.
\<close>

datatype call =
    CReconstruct string
  | CGlobalDedup string
  | CPutXorb string bytes
  | CPutShard
  | CRegisterFile register_file_req
  | CListEntries string
  | CXorbData string "string option"
  | CMetric string
  | CMintToken json
  | CNoop
  | CGc
  | CScrub

definition MAX_BODY_BYTES :: nat where
  "MAX_BODY_BYTES = 128 * 1024 * 1024"

fun admitted :: "call \<Rightarrow> bool" where
  "admitted (CPutXorb _ body) \<longleftrightarrow> length body \<le> MAX_BODY_BYTES"
| "admitted _ \<longleftrightarrow> True"

fun handle ::
  "(string \<Rightarrow> string option) \<Rightarrow> bool \<Rightarrow> fork \<Rightarrow> 'b blob_ops \<Rightarrow> call \<Rightarrow> 'b app_state \<Rightarrow> response res \<times> 'b app_state" where
  "handle to_str ovf F B (CReconstruct h) st = reconstruct ovf F B h st"
| "handle to_str ovf F B (CGlobalDedup h) st = global_dedup F h st"
| "handle to_str ovf F B (CPutXorb h body) st = put_xorb ovf F B h body st"
| "handle to_str ovf F B CPutShard st = put_shard st"
| "handle to_str ovf F B (CRegisterFile req) st = register_file F req st"
| "handle to_str ovf F B (CListEntries v) st = list_entries F v st"
| "handle to_str ovf F B (CXorbData h rng) st = xorb_data to_str F B h rng st"
| "handle to_str ovf F B (CMetric name) st = test_metric name st"
| "handle to_str ovf F B (CMintToken j) st = test_mint_token j st"
| "handle to_str ovf F B CNoop st = test_noop st"
| "handle to_str ovf F B CGc st = test_gc B st"
| "handle to_str ovf F B CScrub st = test_scrub F B st"

text \<open>The states the server can be in after any sequence of requests.\<close>

inductive reachable ::
  "(string \<Rightarrow> string option) \<Rightarrow> bool \<Rightarrow> fork \<Rightarrow> 'b blob_ops \<Rightarrow> 'b app_state \<Rightarrow> 'b app_state \<Rightarrow> bool"
  for to_str ovf F B st0 where
  init: "reachable to_str ovf F B st0 st0"
| step: "reachable to_str ovf F B st0 st \<Longrightarrow> admitted c \<Longrightarrow> handle to_str ovf F B c st = (r, st')
           \<Longrightarrow> reachable to_str ovf F B st0 st'"

end
