(* ===== verification/Sample_Fork.thy ===== *)
theory Sample_Fork
  imports Xet_Core
begin

text \<open>
  A small executable fork that has the documented behaviour stated in \<open>Xet_Core\<close>. It models no
  code of the repository: it is the concrete parameter at which theorems with hypotheses about the fork
  are applied, to show that those hypotheses can hold together. Hashes print as 64 hexadecimal
  digits; a serialized xorb is the concatenation of its chunks, each one length byte followed by that many
  data bytes; the hash of a chunk reads its bytes as a number in base 257.
\<close>

section \<open>Hash strings\<close>

definition hex_char :: "nat \<Rightarrow> char" where
  "hex_char d = ''0123456789abcdef'' ! d"

fun to_hex :: "nat \<Rightarrow> nat \<Rightarrow> string" where
  "to_hex 0 n = []"
| "to_hex (Suc k) n = to_hex k (n div 16) @ [hex_char (n mod 16)]"

definition hex_val :: "char \<Rightarrow> nat" where
  "hex_val c = (let n = of_char c :: nat in if n < 58 then n - 48 else n - 87)"

definition of_hex :: "string \<Rightarrow> nat" where
  "of_hex s = foldl (\<lambda>acc c. acc * 16 + hex_val c) 0 s"

definition sample_from_hex :: "string \<Rightarrow> hash option" where
  "sample_from_hex s =
     (if length s = 64 \<and> set s \<subseteq> hex_digits then Some (of_nat (of_hex s)) else None)"

lemma hex_val_char: "d < 16 \<Longrightarrow> hex_val (hex_char d) = d"
proof -
  have "\<forall>d \<in> {..<16}. hex_val (hex_char d) = d"
    by (simp add: hex_val_def hex_char_def lessThan_nat_numeral lessThan_Suc)
  then show "d < 16 \<Longrightarrow> ?thesis" by blast
qed

lemma hex_char_digit: "d < 16 \<Longrightarrow> hex_char d \<in> hex_digits"
  unfolding hex_char_def by (rule nth_mem) simp

lemma length_to_hex [simp]: "length (to_hex k n) = k"
  by (induction k arbitrary: n) auto

lemma to_hex_digits: "set (to_hex k n) \<subseteq> hex_digits"
proof (induction k arbitrary: n)
  case (Suc k)
  have "hex_char (n mod 16) \<in> hex_digits" by (rule hex_char_digit) simp
  with Suc show ?case by simp
qed simp

lemma of_hex_to_hex: "of_hex (to_hex k n) = n mod 16 ^ k"
proof (induction k arbitrary: n)
  case 0
  then show ?case by (simp add: of_hex_def)
next
  case (Suc k)
  have "of_hex (to_hex (Suc k) n) = of_hex (to_hex k (n div 16)) * 16 + n mod 16"
    by (simp add: of_hex_def hex_val_char)
  also have "\<dots> = n mod 16 ^ Suc k"
    by (simp add: Suc.IH mod_mult2_eq mult.commute)
  finally show ?case .
qed

lemma sample_from_to_hex: "sample_from_hex (to_hex 64 (unat (h :: hash))) = Some h"
proof -
  have "unat h < 16 ^ 64" using unsigned_less [of h] by simp
  then show ?thesis
    using to_hex_digits [of 64 "unat h"] by (simp add: sample_from_hex_def of_hex_to_hex)
qed

section \<open>Serialized xorbs\<close>

definition enc_bytes :: "bytes \<Rightarrow> nat" where
  "enc_bytes d = foldr (\<lambda>b acc. Suc (unat b) + 257 * acc) d 0"

definition sample_data_hash :: "bytes \<Rightarrow> hash" where
  "sample_data_hash d = of_nat (enc_bytes d)"

fun sample_deserialize :: "bytes \<Rightarrow> (bytes \<times> bytes) res" where
  "sample_deserialize [] = Err ''unexpected end of chunk''"
| "sample_deserialize (n # rest) =
     (if unat n \<le> length rest then Ok (take (unat n) rest, drop (unat n) rest)
      else Err ''unexpected end of chunk'')"

text \<open>All chunks of an object, or \<open>None\<close> when it does not parse.\<close>

fun parse_chunks :: "bytes \<Rightarrow> bytes list option" where
  "parse_chunks [] = Some []"
| "parse_chunks (n # rest) =
     (if unat n \<le> length rest
      then map_option (\<lambda>ds. take (unat n) rest # ds) (parse_chunks (drop (unat n) rest))
      else None)"

definition xorb_root :: "hash list \<Rightarrow> hash" where
  "xorb_root hs = foldl (\<lambda>acc h. acc * 65537 + h + 1) 0 hs"

text \<open>Cumulative end offsets of consecutive segments.\<close>

fun ends_from :: "nat \<Rightarrow> nat list \<Rightarrow> nat list" where
  "ends_from a [] = []"
| "ends_from a (n # ns) = (a + n) # ends_from (a + n) ns"

definition sample_info :: "bytes list \<Rightarrow> xorb_info" where
  "sample_info ds =
     \<lparr>xi_num_chunks = of_nat (length ds),
      xi_chunk_hashes = map sample_data_hash ds,
      xi_chunk_boundary_offsets = map of_nat (ends_from 0 (map (\<lambda>d. Suc (length d)) ds)),
      xi_unpacked_chunk_offsets = map of_nat (ends_from 0 (map length ds))\<rparr>"

definition sample_validate :: "bytes \<Rightarrow> hash \<Rightarrow> xorb_info option res" where
  "sample_validate b h =
     (if b = [] \<or> 2 ^ 32 \<le> length b then Err ''empty or too large''
      else case parse_chunks b of
        None \<Rightarrow> Err ''malformed xorb''
      | Some ds \<Rightarrow> if xorb_root (map sample_data_hash ds) = h then Ok (Some (sample_info ds)) else Ok None)"

definition sample_from_xorb :: "chunk list \<Rightarrow> (hash \<times> bytes) res" where
  "sample_from_xorb cs =
     (let body = concat (map (\<lambda>c. of_nat (length (ck_data c)) # ck_data c) cs)
      in if 2 ^ 32 \<le> length body \<or> (\<exists>c \<in> set cs. 2 ^ 8 \<le> length (ck_data c)) then Err ''too large''
         else Ok (xorb_root (map ck_hash cs), body))"

text \<open>Fixed-size chunking: two bytes at a time.\<close>

fun sample_next_block :: "bytes \<Rightarrow> chunk list" where
  "sample_next_block [] = []"
| "sample_next_block [a] = [\<lparr>ck_hash = sample_data_hash [a], ck_data = [a]\<rparr>]"
| "sample_next_block (a # b # cs) =
     \<lparr>ck_hash = sample_data_hash [a, b], ck_data = [a, b]\<rparr> # sample_next_block cs"

definition sample_file_hash :: "(hash \<times> u64) list \<Rightarrow> hash" where
  "sample_file_hash ps = foldl (\<lambda>acc (h, n). acc * 65599 + h + 7) 1 ps"

definition sample_fork :: fork where
  "sample_fork =
     \<lparr>from_hex = sample_from_hex, hex = (\<lambda>h. to_hex 64 (unat h)),
      compute_data_hash = sample_data_hash, validate_xorb_object = sample_validate,
      next_block = sample_next_block, file_hash = sample_file_hash, from_xorb = sample_from_xorb,
      deserialize_chunk = sample_deserialize\<rparr>"

section \<open>It behaves as documented\<close>

lemma sample_fork_simps [simp]:
  "from_hex sample_fork = sample_from_hex" "hex sample_fork h = to_hex 64 (unat h)"
  "compute_data_hash sample_fork = sample_data_hash" "validate_xorb_object sample_fork = sample_validate"
  "next_block sample_fork = sample_next_block" "file_hash sample_fork = sample_file_hash"
  "from_xorb sample_fork = sample_from_xorb" "deserialize_chunk sample_fork = sample_deserialize"
  by (simp_all add: sample_fork_def)

lemma sample_empty_invalid: "\<not> valid_xorb sample_fork x []"
  by (simp add: valid_xorb_def sample_validate_def)

lemma sample_hex_ok: "hex_ok sample_fork"
  using to_hex_digits [of 64] by (simp add: hex_ok_def sample_fork_def sample_from_to_hex)

lemma length_ends_from [simp]: "length (ends_from a ns) = length ns"
  by (induction ns arbitrary: a) auto

lemma nth_ends_from: "i < length ns \<Longrightarrow> ends_from a ns ! i = a + sum_list (take (Suc i) ns)"
  by (induction ns arbitrary: a i) (auto simp: nth_Cons split: nat.splits)

lemma sum_list_take_le: "sum_list (take i ns) \<le> sum_list (ns :: nat list)"
  by (metis append_take_drop_id le_add1 sum_list_append)

lemma parse_chunks_length:
  "parse_chunks b = Some ds \<Longrightarrow> length b = sum_list (map (\<lambda>d. Suc (length d)) ds)"
proof (induction b arbitrary: ds rule: parse_chunks.induct)
  case (2 n rest)
  then show ?case by (auto split: if_splits)
qed simp

lemma sorted_ends: "sorted (ends_from a ns)"
proof (induction ns arbitrary: a)
  case (Cons n ns)
  have "\<forall>x \<in> set (ends_from (a + n) ns). a + n \<le> x"
    by (auto simp: in_set_conv_nth nth_ends_from)
  with Cons show ?case by simp
qed simp

lemma ends_from_bound: "x \<in> set (ends_from 0 ns) \<Longrightarrow> x \<le> sum_list ns"
  by (auto simp: in_set_conv_nth nth_ends_from sum_list_take_le)

lemma sum_list_Suc_length: "sum_list (map (\<lambda>d. Suc (length d)) ds) = sum_list (map length ds) + length ds"
  by (induction ds) auto

lemma sample_info_wf:
  assumes n: "n = sum_list (map (\<lambda>d. Suc (length d)) ds)" and small: "n < 2 ^ 32"
  shows "info_wf (sample_info ds) n"
proof -
  let ?ns = "map (\<lambda>d. Suc (length d)) ds"
  have le: "sum_list (take i ?ns) \<le> n" for i
    using sum_list_take_le [of i ?ns] n by simp
  have b: "unat (map of_nat (ends_from 0 ?ns) ! i :: u32) = sum_list (take (Suc i) ?ns)" if "i < length ds" for i
    using that le [of "Suc i"] small by (simp add: nth_ends_from unat_of_nat_u32)
  have c: "chunk_start (map of_nat (ends_from 0 ?ns)) i = sum_list (take i ?ns)" if "i < length ds" for i
    using that b [of "i - 1"] by (cases i) (simp_all add: chunk_start_def)
  have step: "sum_list (take i ?ns) < sum_list (take (Suc i) ?ns)" if "i < length ds" for i
    using that by (simp add: take_Suc_conv_app_nth)
  have u: "\<forall>x \<in> set (ends_from 0 (map length ds)). x < 2 ^ 32"
    using ends_from_bound [of _ "map length ds"] n small sum_list_Suc_length [of ds] by fastforce
  have "length ds \<le> n" using n sum_list_Suc_length [of ds] by simp
  then show ?thesis
    using sorted_map_of_nat_u32 [OF sorted_ends u] b c step le small
    by (simp add: info_wf_def sample_info_def unat_of_nat_u32)
qed

lemma sample_validate_wf: "validate_wf sample_fork"
  unfolding validate_wf_def sample_fork_def
  by (auto simp: sample_validate_def parse_chunks_length intro!: sample_info_wf split: if_splits option.splits)

end
