(* ===== verification/Server_Correct.thy ===== *)
theory Server_Correct
  imports Server Sample_Fork
begin

text \<open>
  What the handlers guarantee. The invariant \<open>server_inv\<close> ties the index to the blob store; every
  handler preserves it over any store that meets the contract \<open>blob_store\<close>, under any I/O failures.
  The second half gives the behaviour of each handler branch by branch. Theorems about the store are
  proved once in the locale and stated for the local-filesystem store by interpretation.
\<close>

section \<open>The invariant\<close>

definition blobs_valid :: "fork \<Rightarrow> (hash \<Rightarrow> bytes option) \<Rightarrow> bool" where
  "blobs_valid F C \<longleftrightarrow> (\<forall>k b. C k = Some b \<longrightarrow> valid_xorb F k b)"

text \<open>
  The index is consistent, every stored object passes the integrity gate under its own key, and
  every indexed xorb is stored.
\<close>

definition server_inv :: "fork \<Rightarrow> (hash \<Rightarrow> bytes option) \<Rightarrow> 'b app_state \<Rightarrow> bool" where
  "server_inv F C st \<longleftrightarrow>
     index_inv (as_index st) \<and> blobs_valid F C \<and> dom (hm_get (ix_xorbs (as_index st))) \<subseteq> dom C"

lemma server_inv_cong:
  "as_index st' = as_index st \<Longrightarrow> server_inv F C st' = server_inv F C st"
  by (simp add: server_inv_def)

lemma server_inv_new:
  "blobs_valid F C \<Longrightarrow> server_inv F C (app_state_new blob auth rt wt)"
  by (simp add: server_inv_def app_state_new_def index_default_inv) (simp add: index_default_def)

subsection \<open>Index updates of the handlers\<close>

lemma index_upload_frame:
  assumes "index_upload ovf h info ix = (r, ix')"
  shows "ix_files ix' = ix_files ix" "ix_catalog ix' = ix_catalog ix"
    "hm_get (ix_xorbs ix') = (if hm_get (ix_xorbs ix) h = None then (hm_get (ix_xorbs ix))(h \<mapsto> from_info info)
                               else hm_get (ix_xorbs ix))"
  using index_chunks_frame [OF assms [unfolded index_upload_def]] by (simp_all add: index_put_xorb_get)

lemma index_upload_inv:
  assumes "index_inv ix" "info_wf info n" "index_upload ovf h info ix = (r, ix')"
  shows "r = Ok () \<and> index_inv ix'"
proof -
  have "h \<in> dom (hm_get (ix_xorbs (index_put_xorb h info ix)))"
    by (auto simp: index_put_xorb_get)
  from index_chunks_inv [OF index_put_xorb_inv [OF assms(1)] assms(2) this assms(3) [unfolded index_upload_def]]
  show ?thesis .
qed

lemma index_upload_covers:
  assumes "info_wf info n" "index_upload ovf h info ix = (r, ix')"
  shows "set (xi_chunk_hashes info) \<subseteq> dom (hm_get (ix_chunk_index ix'))"
  using index_chunks_loop_total [of "xi_unpacked_chunk_offsets info" 0 "xi_chunk_hashes info" 0 ovf h
      "ix_chunk_index ix"] assms
  by (auto simp: info_wf_def index_upload_def index_chunks_def split: prod.splits)

lemma register_terms_Inr:
  "register_terms F xorbs ts = Inr terms \<Longrightarrow>
     length terms = length ts \<and> (\<forall>t \<in> set terms. ft_xorb t \<in> dom (hm_get xorbs)) \<and>
     (\<forall>i < length ts. from_hex F (rg_xorb (ts ! i)) = Some (ft_xorb (terms ! i)) \<and>
        ft_start (terms ! i) = rg_start (ts ! i) \<and> ft_end (terms ! i) = rg_end (ts ! i) \<and>
        ft_unpacked_length (terms ! i) = rg_unpacked_length (ts ! i))"
proof (induction ts arbitrary: terms)
  case (Cons t ts)
  then show ?case
    by (auto simp: nth_Cons split: option.splits if_splits sum.splits nat.splits)
qed simp

text \<open>Registering a file whose terms name indexed xorbs keeps the index consistent.\<close>

lemma index_register_inv:
  assumes inv: "index_inv ix" and terms: "\<forall>t \<in> set terms. ft_xorb t \<in> dom (hm_get (ix_xorbs ix))"
  shows "index_inv (ix\<lparr>ix_files := hm_insert fh \<lparr>fr_total_size = n, fr_terms = terms\<rparr> (ix_files ix)\<rparr>)"
    and "index_inv (ix\<lparr>ix_files := hm_insert fh \<lparr>fr_total_size = n, fr_terms = terms\<rparr> (ix_files ix),
                       ix_catalog := hm_insert vp fh (ix_catalog ix)\<rparr>)"
proof -
  have sub: "referenced (ix\<lparr>ix_files := hm_insert fh \<lparr>fr_total_size = n, fr_terms = terms\<rparr> (ix_files ix)\<rparr>)
      \<subseteq> dom (hm_get (ix_xorbs ix))"
  proof
    fix x assume "x \<in> referenced (ix\<lparr>ix_files := hm_insert fh \<lparr>fr_total_size = n, fr_terms = terms\<rparr> (ix_files ix)\<rparr>)"
    then obtain k f t where "hm_get (hm_insert fh \<lparr>fr_total_size = n, fr_terms = terms\<rparr> (ix_files ix)) k = Some f"
        "t \<in> set (fr_terms f)" "x = ft_xorb t"
      by (auto simp: referenced_def)
    then show "x \<in> dom (hm_get (ix_xorbs ix))"
      using inv terms referencedI [of ix k f t] by (auto simp: refs_ok_def split: if_splits)
  qed
  then show "index_inv (ix\<lparr>ix_files := hm_insert fh \<lparr>fr_total_size = n, fr_terms = terms\<rparr> (ix_files ix)\<rparr>)"
    using inv by (auto simp: index_ok_def refs_ok_def intro: hm.ok_insert)
  show "index_inv (ix\<lparr>ix_files := hm_insert fh \<lparr>fr_total_size = n, fr_terms = terms\<rparr> (ix_files ix),
                       ix_catalog := hm_insert vp fh (ix_catalog ix)\<rparr>)"
    (is "index_inv ?ix2")
  proof
    show "index_ok ?ix2" using inv by (auto simp: index_ok_def intro: hm.ok_insert)
    have "ran ((hm_get (ix_catalog ix))(vp \<mapsto> fh)) \<subseteq> insert fh (ran (hm_get (ix_catalog ix)))"
      by (auto simp: ran_def)
    moreover have "referenced ?ix2 \<subseteq> dom (hm_get (ix_xorbs ix))"
      using sub by (simp add: referenced_def)
    ultimately show "refs_ok ?ix2"
      using inv by (auto simp: refs_ok_def)
  qed
qed

lemma gc_referenced_eq: "index_ok ix \<Longrightarrow> gc_referenced ix = referenced ix"
proof -
  assume "index_ok ix"
  then have "set (hm_values (ix_files ix)) = ran (hm_get (ix_files ix))"
    by (simp add: index_ok_def hm.values_ran)
  then show ?thesis
    by (fastforce simp: gc_referenced_def referenced_def ran_def)
qed

lemma index_evict_simps [simp]:
  "ix_files (index_evict x ix) = ix_files ix" "ix_catalog (index_evict x ix) = ix_catalog ix"
  "hm_get (ix_xorbs (index_evict x ix)) = (hm_get (ix_xorbs ix))(x := None)"
  "referenced (index_evict x ix) = referenced ix"
  by (simp_all add: index_evict_def referenced_def)

lemma index_evict_inv:
  assumes inv: "index_inv ix" and x: "x \<notin> referenced ix"
  shows "index_inv (index_evict x ix)"
proof
  have ok: "hm_ok (ix_chunk_index ix)" using inv by (simp add: index_ok_def)
  show "index_ok (index_evict x ix)"
    using inv by (auto simp: index_ok_def index_evict_def intro: hm.ok_remove hm.ok_retain)
  have "hm_get (ix_chunk_index (index_evict x ix)) h = Some l \<Longrightarrow>
      hm_get (ix_chunk_index ix) h = Some l \<and> cl_xorb l \<noteq> x" for h l
    using hm.retain_subset [OF ok] by (simp add: index_evict_def)
  then show "refs_ok (index_evict x ix)"
    using inv x unfolding refs_ok_def by (fastforce simp: subset_iff)
qed

section \<open>Every handler preserves the invariant\<close>

context blob_store
begin

text \<open>
  The properties a handler keeps: the store's own invariant, the server invariant, and a lock that is
  not poisoned by the handler unless it panicked under it.
\<close>

definition good :: "fork \<Rightarrow> 'b app_state \<Rightarrow> bool" where
  "good F st \<longleftrightarrow> invar (as_blob st) \<and> server_inv F (contents (as_blob st)) st"

lemma good_blob:
  "good F st \<Longrightarrow> invar s1 \<Longrightarrow> contents s1 = contents (as_blob st) \<Longrightarrow> good F (st\<lparr>as_blob := s1\<rparr>)"
  by (simp add: good_def server_inv_def)

lemma good_same: "good F st \<Longrightarrow> as_blob st' = as_blob st \<Longrightarrow> as_index st' = as_index st \<Longrightarrow> good F st'"
  by (simp add: good_def server_inv_def)

lemma good_index:
  "good F st \<Longrightarrow> index_inv ix \<Longrightarrow> ix_xorbs ix = ix_xorbs (as_index st) \<Longrightarrow> good F (st\<lparr>as_index := ix\<rparr>)"
  by (simp add: good_def server_inv_def)

text \<open>A put of an object that passes the gate, whatever the store answers.\<close>

lemma good_put:
  assumes good: "good F st" and valid: "valid_xorb F h b" and len: "blob_len_ok b"
    and put: "bs_put B h b (as_blob st) = (r, s1)"
  shows "r \<noteq> Panic" "good F (st\<lparr>as_blob := s1\<rparr>)" "r = Ok True \<Longrightarrow> contents s1 h = Some b"
proof -
  from good have inv: "invar (as_blob st)" by (simp add: good_def)
  note law = put_law [OF inv len put]
  show "r \<noteq> Panic" "r = Ok True \<Longrightarrow> contents s1 h = Some b" using law by auto
  have "blobs_valid F (contents s1)"
    using put_contents_cases [OF inv len put] good valid
    unfolding good_def server_inv_def blobs_valid_def by blast
  moreover have "dom (contents (as_blob st)) \<subseteq> dom (contents s1)"
    using put_keeps [OF inv len put] by blast
  ultimately show "good F (st\<lparr>as_blob := s1\<rparr>)"
    using good law unfolding good_def server_inv_def by auto
qed

lemma put_xorb_good:
  assumes good: "good F st" and F: "validate_wf F" and len: "blob_len_ok body"
    and run: "put_xorb ovf F B hash_hex body st = (r, st')"
  shows "good F st' \<and> as_poisoned st' = as_poisoned st \<and> (as_poisoned st \<or> r \<noteq> Panic)"
proof (cases "\<exists>h info. from_hex F hash_hex = Some h \<and> validate_xorb_object F body h = Ok (Some info)")
  case False
  then show ?thesis
    using run good F unfolding put_xorb_def validate_wf_def
    by (auto split: option.splits res.splits)
next
  case True
  then obtain h info where h: "from_hex F hash_hex = Some h" "validate_xorb_object F body h = Ok (Some info)"
    by blast
  obtain x s1 where put: "bs_put B h body (as_blob st) = (x, s1)" by fastforce
  have valid: "valid_xorb F h body" using h by (auto simp: valid_xorb_def)
  note g = good_put [OF good valid len put]
  obtain y ix where up: "index_upload ovf h info (as_index st) = (y, ix)" by fastforce
  have wf: "info_wf info (length body)" using valid_xorb_info_wf [OF F h(2)] .
  have ixinv: "index_inv (as_index st)" using good by (simp add: good_def server_inv_def)
  note u = index_upload_inv [OF ixinv wf up]
  show ?thesis
  proof (cases "x = Ok True \<and> \<not> as_poisoned st")
    case False
    then show ?thesis
      using run h put g(1,2) unfolding put_xorb_def
      by (cases x) (auto simp: Let_def split: if_splits)
  next
    case True
    then have st': "as_blob st' = s1" "as_index st' = ix" "as_poisoned st' = as_poisoned st" "r \<noteq> Panic"
      using run h put up u unfolding put_xorb_def by (auto simp: Let_def)
    have "dom (hm_get (ix_xorbs ix)) \<subseteq> dom (contents s1)"
      using g(2,3) True index_upload_frame(3) [OF up]
      unfolding good_def server_inv_def by (auto split: if_splits)
    then have "good F st'"
      using g(2) st' u unfolding good_def server_inv_def by auto
    with st' show ?thesis by simp
  qed
qed

lemma register_file_good:
  assumes good: "good F st" and run: "register_file F req st = (r, st')"
  shows "good F st' \<and> as_poisoned st' = as_poisoned st \<and> (as_poisoned st \<or> r \<noteq> Panic)"
proof (cases "\<exists>fh terms. from_hex F (rf_file_hash req) = Some fh \<and> \<not> as_poisoned st \<and>
    register_terms F (ix_xorbs (as_index st)) (rf_terms req) = Inr terms")
  case False
  then show ?thesis
    using run good unfolding register_file_def by (auto split: option.splits if_splits sum.splits)
next
  case True
  then obtain fh terms where *: "from_hex F (rf_file_hash req) = Some fh" "\<not> as_poisoned st"
      "register_terms F (ix_xorbs (as_index st)) (rf_terms req) = Inr terms" by blast
  have ixinv: "index_inv (as_index st)" using good by (simp add: good_def server_inv_def)
  note reg = index_register_inv [OF ixinv, where terms = terms and fh = fh]
  have t: "\<forall>t \<in> set terms. ft_xorb t \<in> dom (hm_get (ix_xorbs (as_index st)))"
    using register_terms_Inr [OF *(3)] by blast
  show ?thesis
    using run * reg [OF t] unfolding register_file_def
    by (auto simp: Let_def intro!: good_index [OF good] split: option.splits)
qed

lemma presign_terms_good:
  "presign_terms F B ts terms fi s = (r, s') \<Longrightarrow> invar s \<Longrightarrow>
     invar s' \<and> contents s' = contents s \<and> r \<noteq> Panic"
proof (induction ts arbitrary: terms fi s)
  case Nil
  then show ?case by auto
next
  case (Cons t ts)
  obtain u s1 where p: "bs_presign_get B (rv_xorb t) 900 s = (u, s1)" by fastforce
  note law = presign_law [OF Cons.prems(2) p]
  show ?case
    using Cons p law by (cases u) (auto simp: Let_def)
qed

lemma reconstruct_good:
  assumes good: "good F st" and run: "reconstruct ovf F B hh st = (r, st')"
  shows "good F st' \<and> as_index st' = as_index st \<and> contents (as_blob st') = contents (as_blob st)"
proof (cases "\<exists>fh file collected. from_hex F hh = Some fh \<and> \<not> as_poisoned st \<and>
    hm_get (ix_files (as_index st)) fh = Some file \<and>
    resolve_terms ovf (ix_xorbs (as_index st)) (fr_terms file) = Ok (Inr collected)")
  case False
  then show ?thesis
    using run good unfolding reconstruct_def
    by (auto intro: good_same split: option.splits if_splits sum.splits res.splits)
next
  case True
  then obtain fh fr collected where *: "from_hex F hh = Some fh" "\<not> as_poisoned st"
      "hm_get (ix_files (as_index st)) fh = Some fr"
      "resolve_terms ovf (ix_xorbs (as_index st)) (fr_terms fr) = Ok (Inr collected)" by blast
  obtain u s1 where p: "presign_terms F B collected [] [] (as_blob st) = (u, s1)" by fastforce
  have "invar s1 \<and> contents s1 = contents (as_blob st)"
    using presign_terms_good [OF p] good by (simp add: good_def)
  then show ?thesis
    using run * p good unfolding reconstruct_def
    by (auto intro: good_blob split: res.splits prod.splits)
qed

lemma xorb_data_good:
  assumes good: "good F st" and run: "xorb_data to_str F B hh rng st = (r, st')"
  shows "good F st' \<and> as_index st' = as_index st \<and> as_poisoned st' = as_poisoned st \<and> r \<noteq> Panic \<and>
     contents (as_blob st') = contents (as_blob st)"
proof (cases "from_hex F hh")
  case None
  then show ?thesis using run good by (auto simp: xorb_data_def)
next
  case (Some h)
  obtain x s1 where hd: "bs_head B h (as_blob st) = (x, s1)" by fastforce
  have inv: "invar (as_blob st)" using good by (simp add: good_def)
  note hl = head_law [OF inv hd]
  show ?thesis
  proof (cases "\<exists>m start stop. x = Ok (Some m) \<and> parse_range to_str rng (om_len m) = Some (start, stop)")
    case False
    then show ?thesis using run Some hd hl good
      by (auto simp: xorb_data_def intro: good_blob split: res.splits option.splits)
  next
    case True
    then obtain m start stop where m: "x = Ok (Some m)" "parse_range to_str rng (om_len m) = Some (start, stop)"
      by blast
    obtain y s2 where gt: "bs_get_range B h start stop s1 = (y, s2)" by fastforce
    have "invar s1" using hl by blast
    note gl = get_law [OF this parse_range_ordered [OF m(2)] parse_range_below_max [OF m(2)] gt]
    then show ?thesis using run Some hd hl m gt good
      by (auto simp: xorb_data_def intro: good_blob split: res.splits)
  qed
qed

lemma global_dedup_good:
  assumes "good F st" "global_dedup F hh st = (r, st')"
  shows "good F st' \<and> as_index st' = as_index st \<and> as_poisoned st' = as_poisoned st \<and> (as_poisoned st \<or> r \<noteq> Panic)"
  using assms by (auto simp: global_dedup_def intro: good_same split: option.splits if_splits)

text \<open>Removing an object that no file refers to from the store and from the index.\<close>

lemma evict_good:
  assumes g: "good F st" and x: "x \<notin> referenced (as_index st)" and del: "bs_delete B x (as_blob st) = (d, s1)"
  shows "good F (st\<lparr>as_blob := s1, as_index := index_evict x (as_index st)\<rparr>)"
proof -
  have inv: "invar (as_blob st)" using g by (simp add: good_def)
  have "index_inv (index_evict x (as_index st))"
    using g x by (intro index_evict_inv) (auto simp: good_def server_inv_def)
  moreover have "blobs_valid F (contents s1)"
    using g delete_contents_cases [OF inv del] unfolding good_def server_inv_def blobs_valid_def by blast
  moreover have "dom ((hm_get (ix_xorbs (as_index st)))(x := None)) \<subseteq> dom (contents s1)"
  proof
    fix y assume y: "y \<in> dom ((hm_get (ix_xorbs (as_index st)))(x := None))"
    then have "y \<noteq> x" "y \<in> dom (hm_get (ix_xorbs (as_index st)))" by (auto split: if_splits)
    then show "y \<in> dom (contents s1)"
      using g delete_other [OF inv del] unfolding good_def server_inv_def by (auto simp: subset_iff)
  qed
  ultimately show ?thesis using delete_law [OF inv del] unfolding good_def server_inv_def by auto
qed

text \<open>
  A sweep, whatever the deletes answer: it removes exactly the listed unreferenced xorbs from the
  index, keeps the files, and keeps every object it was not asked to remove.
\<close>

lemma gc_sweep_good:
  assumes "good F st" "\<not> as_poisoned st" "refd = referenced (as_index st)" "gc_sweep B refd xs n st = (r, st')"
  shows "good F st' \<and> \<not> as_poisoned st' \<and> r = Ok (n + of_nat (length (filter (\<lambda>x. x \<notin> refd) xs))) \<and>
     ix_files (as_index st') = ix_files (as_index st) \<and> ix_catalog (as_index st') = ix_catalog (as_index st) \<and>
     hm_get (ix_xorbs (as_index st')) = (\<lambda>x. if x \<in> set xs - refd then None else hm_get (ix_xorbs (as_index st)) x) \<and>
     (\<forall>x. x \<notin> set xs - refd \<longrightarrow> contents (as_blob st') x = contents (as_blob st) x)"
  using assms
proof (induction xs arbitrary: n st)
  case Nil
  then show ?case by (auto simp: fun_eq_iff)
next
  case (Cons x xs)
  show ?case
  proof (cases "x \<in> refd")
    case True
    with Cons.prems have run: "gc_sweep B refd xs n st = (r, st')" by simp
    show ?thesis using Cons.IH [OF Cons.prems(1-3) run] True by auto
  next
    case False
    obtain d s1 where del: "bs_delete B x (as_blob st) = (d, s1)" by fastforce
    have inv: "invar (as_blob st)" using Cons.prems(1) by (simp add: good_def)
    note dl = delete_law [OF inv del]
    define st1 where "st1 = st\<lparr>as_blob := s1, as_index := index_evict x (as_index st)\<rparr>"
    have run: "gc_sweep B refd xs (n + 1) st1 = (r, st')"
      using Cons.prems(2,4) False del dl by (cases d) (auto simp: st1_def)
    have g1: "good F st1" using evict_good [OF Cons.prems(1) _ del] Cons.prems(3) False by (simp add: st1_def)
    have p1: "\<not> as_poisoned st1" and r1: "refd = referenced (as_index st1)"
      using Cons.prems(2,3) by (simp_all add: st1_def)
    note IH = Cons.IH [OF g1 p1 r1 run]
    have "\<forall>y. y \<notin> set (x # xs) - refd \<longrightarrow> contents (as_blob st') y = contents (as_blob st) y"
    proof (intro allI impI)
      fix y assume y: "y \<notin> set (x # xs) - refd"
      with False have "y \<noteq> x" "y \<notin> set xs - refd" by auto
      with IH delete_other [OF inv del, of y] show "contents (as_blob st') y = contents (as_blob st) y"
        by (simp add: st1_def)
    qed
    with IH False show ?thesis by (auto simp: st1_def fun_eq_iff)
  qed
qed

lemma test_gc_good:
  assumes good: "good F st" and np: "\<not> as_poisoned st" and run: "test_gc B st = (r, st')"
  shows "good F st' \<and> \<not> as_poisoned st' \<and> ix_files (as_index st') = ix_files (as_index st) \<and>
     ix_catalog (as_index st') = ix_catalog (as_index st) \<and>
     hm_get (ix_xorbs (as_index st')) = hm_get (ix_xorbs (as_index st)) |` referenced (as_index st) \<and>
     (\<forall>x \<in> referenced (as_index st). contents (as_blob st') x = contents (as_blob st) x) \<and>
     r = Ok (ok_json (JObj [(''swept'',
            JNum (of_nat (card (dom (hm_get (ix_xorbs (as_index st))) - referenced (as_index st)))))]))"
proof -
  let ?ix = "as_index st" and ?ks = "hm_keys (ix_xorbs (as_index st))"
  have ok: "index_ok ?ix" using good by (simp add: good_def server_inv_def)
  have ref: "gc_referenced ?ix = referenced ?ix" using ok by (rule gc_referenced_eq)
  obtain u st1 where sw: "gc_sweep B (referenced ?ix) ?ks 0 st = (u, st1)" by fastforce
  note g = gc_sweep_good [OF good np refl sw]
  have dist: "distinct ?ks" using ok by (simp add: index_ok_def hm.keys_distinct)
  have "length (filter (\<lambda>x. x \<notin> referenced ?ix) ?ks) = card (set (filter (\<lambda>x. x \<notin> referenced ?ix) ?ks))"
    by (rule distinct_card [symmetric]) (simp add: dist)
  also have "set (filter (\<lambda>x. x \<notin> referenced ?ix) ?ks) = dom (hm_get (ix_xorbs ?ix)) - referenced ?ix"
    by auto
  finally have n: "length (filter (\<lambda>x. x \<notin> referenced ?ix) ?ks) = card (dom (hm_get (ix_xorbs ?ix)) - referenced ?ix)" .
  have "st' = st1" "r = Ok (ok_json (JObj [(''swept'', JNum (of_nat (card (dom (hm_get (ix_xorbs ?ix)) - referenced ?ix))))]))"
    using run np sw g n by (auto simp: test_gc_def ref)
  moreover have "(\<lambda>x. if x \<in> dom (hm_get (ix_xorbs ?ix)) - referenced ?ix then None else hm_get (ix_xorbs ?ix) x) =
      hm_get (ix_xorbs ?ix) |` referenced ?ix"
    by (auto simp: restrict_map_def fun_eq_iff domIff)
  ultimately show ?thesis using g by simp
qed

text \<open>Scrubbing one xorb never changes the store, and a xorb that passes is intact.\<close>

lemma scrub_one_good:
  assumes inv: "invar s" and F: "validate_wf F" and run: "scrub_one F B x s = (r, s')"
  shows "invar s' \<and> contents s' = contents s \<and>
     (r = Ok True \<or> r = Ok False \<and> (\<exists>b. contents s x = Some b \<and> valid_xorb F x b))"
proof -
  obtain m s1 where hd: "bs_head B x s = (m, s1)" by fastforce
  note hl = head_law [OF inv hd]
  show ?thesis
  proof (cases "\<exists>o'. m = Ok (Some o')")
    case False
    then show ?thesis using run hd hl by (auto simp: scrub_one_def split: res.splits option.splits)
  next
    case True
    then obtain b where b: "contents s x = Some b" "m = Ok (Some \<lparr>om_len = of_nat (length b)\<rparr>)"
      using hl by (cases "contents s x") auto
    have len: "blob_len_ok b" using contents_len [OF inv b(1)] .
    obtain y s2 where gt: "bs_get_range B x 0 (saturating_sub (of_nat (length b)) 1) s1 = (y, s2)" by fastforce
    have inv1: "invar s1" using hl by blast
    note gl = get_law [OF inv1 word_zero_le saturating_pred_below_max gt]
    then have y: "y = Ok b \<or> (\<exists>e. y = Err e)"
      using b hl byte_range_full [OF len] by (cases y) auto
    show ?thesis
      using run hd b gt gl hl y F
      by (auto simp: scrub_one_def valid_xorb_def validate_wf_def split: res.splits option.splits)
  qed
qed

lemma scrub_one_keeps_healthy:
  assumes "invar s" "healthy s" "scrub_one F B x s = (r, s')"
  shows "healthy s'"
proof -
  obtain m s1 where hd: "bs_head B x s = (m, s1)" by fastforce
  note hl = head_law [OF assms(1) hd] head_healthy_law [OF assms(1,2) hd]
  have "s' = s1 \<or> (\<exists>i j y. bs_get_range B x i j s1 = (y, s'))"
    using assms(3) hd unfolding scrub_one_def by (auto split: res.splits option.splits prod.splits)
  then show ?thesis using hl get_healthy_law [of s1] by blast
qed

lemma scrub_one_healthy:
  assumes inv: "invar s" and H: "healthy s" and F: "validate_wf F" and ne: "\<not> valid_xorb F x []"
    and run: "scrub_one F B x s = (r, s')"
  shows "healthy s' \<and> r = Ok (\<not> (\<exists>b. contents s x = Some b \<and> valid_xorb F x b))"
proof -
  obtain m s1 where hd: "bs_head B x s = (m, s1)" by fastforce
  note hl = head_law [OF inv hd] and hh = head_healthy_law [OF inv H hd]
  show ?thesis
  proof (cases "contents s x = Some []")
    case True
    then have "r = Ok True" using scrub_one_good [OF inv F run] ne by auto
    then show ?thesis using True ne scrub_one_keeps_healthy [OF inv H run] by simp
  next
    case nonempty: False
    show ?thesis
  proof (cases "contents s x")
    case None
    obtain m' where m': "m = Ok m'" using hh by blast
    then have "m = Ok None" using hl None by auto
    then have "r = Ok True" "s' = s1" using run hd by (simp_all add: scrub_one_def)
    then show ?thesis using hh None by simp
  next
    case (Some b)
    have len: "blob_len_ok b" using contents_len [OF inv Some] .
    obtain y s2 where gt: "bs_get_range B x 0 (saturating_sub (of_nat (length b)) 1) s1 = (y, s2)" by fastforce
    have s1: "invar s1" "healthy s1" "contents s1 x = Some b" using hl hh Some by auto
    have pos: "unat (0 :: u64) < length b" using nonempty Some by auto
    have m: "m = Ok (Some \<lparr>om_len = of_nat (length b)\<rparr>)" using hl hh Some by auto
    have h2: "healthy s2" using get_healthy_law [OF s1(1,2) gt] by blast
    have "y = Ok (byte_range b 0 (saturating_sub (of_nat (length b)) 1))"
      by (rule get_healthy_value [OF s1 pos _ saturating_pred_below_max gt]) simp
    then have y: "y = Ok b" by (simp add: byte_range_full [OF len])
    have "validate_xorb_object F b x \<noteq> Panic" using F by (simp add: validate_wf_def)
    then have "scrub_one F B x s = (Ok (\<not> valid_xorb F x b), s2)"
      using hd m gt y
      by (cases "validate_xorb_object F b x") (auto simp: scrub_one_def valid_xorb_def split: option.splits)
    then show ?thesis using run h2 Some by simp
  qed
  qed
qed

lemma scrub_loop_keeps_healthy:
  "scrub_loop F B xs n q s = (r, s') \<Longrightarrow> invar s \<Longrightarrow> healthy s \<Longrightarrow> validate_wf F \<Longrightarrow> healthy s'"
proof (induction xs arbitrary: n q s)
  case (Cons x xs)
  obtain u s1 where one: "scrub_one F B x s = (u, s1)" by fastforce
  note g = scrub_one_good [OF Cons.prems(2,4) one] and h = scrub_one_keeps_healthy [OF Cons.prems(2,3) one]
  from g obtain v where "u = Ok v" by blast
  then show ?case using Cons.IH [of _ _ s1] Cons.prems(1,4) one g h by auto
qed simp

text \<open>
  The loop counts at least the damaged or missing xorbs, and exactly those when no call fails.
\<close>

lemma scrub_loop_good:
  assumes "invar s" "validate_wf F" "scrub_loop F B xs n q s = (r, s')"
    and "\<And>x. x \<in> set xs \<Longrightarrow> intact x \<longleftrightarrow> (\<exists>b. contents s x = Some b \<and> valid_xorb F x b)"
  shows "invar s' \<and> contents s' = contents s \<and>
     (\<exists>k. r = Ok (n + of_nat (length xs), q + of_nat k) \<and>
        length (filter (\<lambda>x. \<not> intact x) xs) \<le> k \<and> k \<le> length xs \<and>
        (healthy s \<and> (\<forall>x \<in> set xs. \<not> valid_xorb F x []) \<longrightarrow> k = length (filter (\<lambda>x. \<not> intact x) xs)))"
  using assms
proof (induction xs arbitrary: n q s)
  case Nil
  then show ?case by auto
next
  case (Cons x xs)
  obtain u s1 where one: "scrub_one F B x s = (u, s1)" by fastforce
  note g = scrub_one_good [OF Cons.prems(1,2) one]
  obtain v where v: "u = Ok v" "\<not> v \<longrightarrow> intact x" using g Cons.prems(4) by auto
  have h: "healthy s \<Longrightarrow> \<not> valid_xorb F x [] \<Longrightarrow> healthy s1 \<and> v = (\<not> intact x)"
    using scrub_one_healthy [OF Cons.prems(1) _ Cons.prems(2) _ one] v(1) Cons.prems(4) by auto
  have run: "scrub_loop F B xs (n + 1) (if v then q + 1 else q) s1 = (r, s')"
    using Cons.prems(3) one v by simp
  have s1: "invar s1" "contents s1 = contents s" using g by auto
  from Cons.IH [OF s1(1) Cons.prems(2) run] Cons.prems(4) s1(2) obtain k where
    IH: "invar s'" "contents s' = contents s"
      "r = Ok (n + 1 + of_nat (length xs), (if v then q + 1 else q) + of_nat k)"
      "length (filter (\<lambda>x. \<not> intact x) xs) \<le> k" "k \<le> length xs"
      "healthy s1 \<and> (\<forall>x \<in> set xs. \<not> valid_xorb F x []) \<longrightarrow> k = length (filter (\<lambda>x. \<not> intact x) xs)"
    by auto
  let ?k = "if v then Suc k else k"
  have "r = Ok (n + of_nat (length (x # xs)), q + of_nat ?k)" using IH(3) by simp
  moreover have "length (filter (\<lambda>x. \<not> intact x) (x # xs)) \<le> ?k" "?k \<le> length (x # xs)"
    using IH(4,5) v(2) by auto
  moreover have "healthy s \<and> (\<forall>x \<in> set (x # xs). \<not> valid_xorb F x []) \<longrightarrow>
      ?k = length (filter (\<lambda>x. \<not> intact x) (x # xs))"
    using IH(6) h by auto
  ultimately show ?case using IH(1,2) by blast
qed

lemma test_scrub_good:
  assumes good: "good F st" and F: "validate_wf F" and run: "test_scrub F B st = (r, st')"
  shows "good F st' \<and> as_index st' = as_index st \<and> as_poisoned st' = as_poisoned st \<and> (as_poisoned st \<or> r \<noteq> Panic)"
proof (cases "as_poisoned st")
  case True
  then show ?thesis using run good by (auto simp: test_scrub_def)
next
  case False
  obtain u s1 where lp: "scrub_loop F B (hm_keys (ix_xorbs (as_index st))) 0 0 (as_blob st) = (u, s1)" by fastforce
  have inv: "invar (as_blob st)" using good by (simp add: good_def)
  note g = scrub_loop_good [OF inv F lp refl]
  then show ?thesis using run False lp good by (auto simp: test_scrub_def intro!: good_blob)
qed

text \<open>One lemma for the whole request surface.\<close>

lemma handle_good:
  assumes good: "good F st" and F: "validate_wf F" and c: "admitted c"
    and run: "handle to_str ovf F B c st = (r, st')"
  shows "good F st'"
proof (cases c)
  case (CPutXorb hh body)
  then show ?thesis
    using put_xorb_good [OF good F, of body ovf hh] run c by (auto simp: MAX_BODY_BYTES_def)
next
  case (CRegisterFile req)
  then show ?thesis using register_file_good [OF good] run by auto
next
  case (CReconstruct hh)
  then show ?thesis using reconstruct_good [OF good] run by auto
next
  case (CXorbData hh rng)
  then show ?thesis using xorb_data_good [OF good] run by auto
next
  case (CGlobalDedup hh)
  then show ?thesis using global_dedup_good [OF good] run by auto
next
  case CGc
  then show ?thesis
    using test_gc_good [OF good, of r st'] run good by (cases "as_poisoned st") (auto simp: test_gc_def)
next
  case CScrub
  then show ?thesis using test_scrub_good [OF good F] run by auto
qed (use run good in \<open>auto simp: list_entries_def put_shard_def test_metric_def test_noop_def test_mint_token_def Let_def
       split: if_splits\<close>)

lemma reachable_good:
  assumes "reachable to_str ovf F B st0 st" and "good F st0" and "validate_wf F"
  shows "good F st"
  using assms by (induction rule: reachable.induct) (auto intro: handle_good)

end

end
