(* ===== verification/Server_Sync.thy ===== *)
theory Server_Sync
  imports Server_Correct
begin

text \<open>
  The stronger invariant of a server whose store does not fail: the index describes exactly the
  stored objects. Every indexed xorb has the footer of its stored object, every chunk location
  names the position of that chunk in its xorb, and every stored object is indexed.
\<close>

section \<open>Agreement of the index with the store\<close>

text \<open>The unpacked size of chunk \<open>i\<close>, from the cumulative end offsets.\<close>

definition unpacked_size :: "u32 list \<Rightarrow> nat \<Rightarrow> u32" where
  "unpacked_size offs i = offs ! i - (if i = 0 then 0 else offs ! (i - 1))"

definition xorb_agrees :: "fork \<Rightarrow> (hash \<Rightarrow> bytes option) \<Rightarrow> hash \<Rightarrow> xorb_meta \<Rightarrow> bool" where
  "xorb_agrees F C x m \<longleftrightarrow>
     (\<exists>b info. C x = Some b \<and> validate_xorb_object F b x = Ok (Some info) \<and> m = from_info info)"

definition loc_agrees :: "fork \<Rightarrow> (hash \<Rightarrow> bytes option) \<Rightarrow> hash \<Rightarrow> chunk_loc \<Rightarrow> bool" where
  "loc_agrees F C h l \<longleftrightarrow>
     (\<exists>b info. C (cl_xorb l) = Some b \<and> validate_xorb_object F b (cl_xorb l) = Ok (Some info) \<and>
        unat (cl_index l) < length (xi_chunk_hashes info) \<and>
        xi_chunk_hashes info ! unat (cl_index l) = h \<and>
        cl_unpacked_len l = unpacked_size (xi_unpacked_chunk_offsets info) (unat (cl_index l)))"

definition index_agrees :: "fork \<Rightarrow> (hash \<Rightarrow> bytes option) \<Rightarrow> index_store \<Rightarrow> bool" where
  "index_agrees F C ix \<longleftrightarrow>
     dom (hm_get (ix_xorbs ix)) = dom C \<and>
     (\<forall>x m. hm_get (ix_xorbs ix) x = Some m \<longrightarrow> xorb_agrees F C x m) \<and>
     (\<forall>h l. hm_get (ix_chunk_index ix) h = Some l \<longrightarrow> loc_agrees F C h l)"

lemma agrees_extend:
  "C h = None \<Longrightarrow> xorb_agrees F C x m \<Longrightarrow> xorb_agrees F (C(h \<mapsto> b)) x m"
  "C h = None \<Longrightarrow> loc_agrees F C k l \<Longrightarrow> loc_agrees F (C(h \<mapsto> b)) k l"
  by (force simp: xorb_agrees_def loc_agrees_def)+

lemma agrees_remove:
  "x \<noteq> h \<Longrightarrow> xorb_agrees F C x m \<Longrightarrow> xorb_agrees F (C(h := None)) x m"
  "cl_xorb l \<noteq> h \<Longrightarrow> loc_agrees F C k l \<Longrightarrow> loc_agrees F (C(h := None)) k l"
  by (auto simp: xorb_agrees_def loc_agrees_def)

lemma index_agrees_empty: "index_agrees F (\<lambda>_. None) index_default"
  by (simp add: index_agrees_def index_default_def)

text \<open>An accepted upload of a new object extends the agreement.\<close>

lemma index_upload_agrees:
  assumes agr: "index_agrees F C ix" and wf: "validate_wf F"
    and new: "C h = None" and gate: "validate_xorb_object F b h = Ok (Some info)"
    and up: "index_upload ovf h info ix = (r, ix')"
  shows "index_agrees F (C(h \<mapsto> b)) ix'"
proof -
  have iw: "info_wf info (length b)" using valid_xorb_info_wf [OF wf gate] .
  have none: "hm_get (ix_xorbs ix) h = None" using agr new by (auto simp: index_agrees_def)
  have xs: "hm_get (ix_xorbs ix') = (hm_get (ix_xorbs ix))(h \<mapsto> from_info info)"
    using index_upload_frame(3) [OF up] none by simp
  have lp: "index_chunks_loop ovf h (xi_unpacked_chunk_offsets info) 0 0 (xi_chunk_hashes info)
      (ix_chunk_index ix) = (r, ix_chunk_index ix')"
    using up by (auto simp: index_upload_def index_chunks_def split: prod.splits)
  have "loc_agrees F (C(h \<mapsto> b)) k l" if l: "hm_get (ix_chunk_index ix') k = Some l" for k l
  proof (cases "hm_get (ix_chunk_index ix) k")
    case (Some l')
    then have "l' = l" using index_chunks_loop_mono [OF lp Some] l by simp
    then show ?thesis using agr new Some by (auto simp: index_agrees_def intro: agrees_extend)
  next
    case None
    from index_chunks_loop_new [OF lp l None] obtain j where
      j: "j < length (xi_chunk_hashes info)" "xi_chunk_hashes info ! j = k" "cl_xorb l = h"
        "cl_index l = of_nat j"
        "cl_unpacked_len l = unpacked_size (xi_unpacked_chunk_offsets info) j"
      by (auto simp: unpacked_size_def)
    have "j < 2 ^ 32"
      using j(1) info_wf_lengths(3) [OF iw] unat_u32_less [of "xi_num_chunks info"] by simp
    then have "unat (cl_index l) = j" using j(4) by (simp add: unat_of_nat_u32)
    then show ?thesis using j gate by (auto simp: loc_agrees_def)
  qed
  moreover have "xorb_agrees F (C(h \<mapsto> b)) x m" if "hm_get (ix_xorbs ix') x = Some m" for x m
    using that xs agr new gate
    by (auto simp: index_agrees_def intro: agrees_extend split: if_splits) (auto simp: xorb_agrees_def)
  moreover have "dom (hm_get (ix_xorbs ix')) = dom (C(h \<mapsto> b))"
    using agr by (simp add: xs index_agrees_def)
  ultimately show ?thesis by (simp add: index_agrees_def)
qed

lemma index_evict_agrees:
  assumes "index_agrees F C ix" "index_ok ix"
  shows "index_agrees F (C(x := None)) (index_evict x ix)"
proof -
  have "hm_ok (ix_chunk_index ix)" using assms(2) by (simp add: index_ok_def)
  then have "hm_get (ix_chunk_index (index_evict x ix)) h = Some l \<Longrightarrow>
      hm_get (ix_chunk_index ix) h = Some l \<and> cl_xorb l \<noteq> x" for h l
    by (simp add: index_evict_def hm.retain_subset)
  then have "hm_get (ix_chunk_index (index_evict x ix)) h = Some l \<Longrightarrow> loc_agrees F (C(x := None)) h l" for h l
    using assms(1) agrees_remove(2) unfolding index_agrees_def by blast
  then show ?thesis
    using assms(1) by (auto simp: index_agrees_def intro: agrees_remove(1) split: if_splits)
qed

section \<open>Every handler keeps the agreement\<close>

context blob_store
begin

definition sync :: "fork \<Rightarrow> 'b app_state \<Rightarrow> bool" where
  "sync F st \<longleftrightarrow> good F st \<and> healthy (as_blob st) \<and> index_agrees F (contents (as_blob st)) (as_index st)"

lemma sync_good: "sync F st \<Longrightarrow> good F st"
  by (simp add: sync_def)

lemma sync_quiet:
  assumes "sync F st" "good F st'" "healthy (as_blob st')" "contents (as_blob st') = contents (as_blob st)"
    "ix_xorbs (as_index st') = ix_xorbs (as_index st)" "ix_chunk_index (as_index st') = ix_chunk_index (as_index st)"
  shows "sync F st'"
  using assms by (simp add: sync_def index_agrees_def)

text \<open>An upload that passes the gate: the answer and the new state.\<close>

lemma put_xorb_sync:
  assumes sync: "sync F st" and wf: "validate_wf F" and len: "blob_len_ok body" and np: "\<not> as_poisoned st"
    and h: "from_hex F hash_hex = Some h" and gate: "validate_xorb_object F body h = Ok (Some info)"
  shows "\<exists>st'. put_xorb ovf F B hash_hex body st =
        (Ok (ok_json (JObj [(''was_inserted'', JBool (contents (as_blob st) h = None))])), st') \<and>
      sync F st' \<and> \<not> as_poisoned st' \<and>
      contents (as_blob st') =
        (if contents (as_blob st) h = None then (contents (as_blob st))(h \<mapsto> body) else contents (as_blob st)) \<and>
      (contents (as_blob st) h \<noteq> None \<longrightarrow> as_index st' = as_index st \<and> as_metrics st' = as_metrics st)"
proof -
  have inv: "invar (as_blob st)" and hl: "healthy (as_blob st)" and good: "good F st"
    using sync by (simp_all add: sync_def good_def)
  obtain x s1 where put: "bs_put B h body (as_blob st) = (x, s1)" by fastforce
  note ph = put_healthy_law [OF inv hl len put] and pc = put_healthy_contents [OF inv hl len put]
  obtain r st' where run: "put_xorb ovf F B hash_hex body st = (r, st')" by fastforce
  note g = put_xorb_good [OF good wf len run]
  show ?thesis
  proof (cases "contents (as_blob st) h = None")
    case False
    then have "x = Ok False" using ph by simp
    then have "r = Ok (ok_json (JObj [(''was_inserted'', JBool False)]))" "st' = st\<lparr>as_blob := s1\<rparr>"
      using run h gate put by (simp_all add: put_xorb_def)
    moreover have "sync F st'"
      by (rule sync_quiet [OF sync]) (use g calculation ph pc False in simp_all)
    moreover obtain b0 where "contents (as_blob st) h = Some b0" using False by blast
    ultimately show ?thesis using run pc np by simp
  next
    case True
    obtain y ix where up: "index_upload ovf h info (as_index st) = (y, ix)" by fastforce
    have "y = Ok ()"
      using index_upload_inv [OF _ valid_xorb_info_wf [OF wf gate] up] good by (simp add: good_def server_inv_def)
    then have st': "r = Ok (ok_json (JObj [(''was_inserted'', JBool True)]))" "as_blob st' = s1" "as_index st' = ix"
      using run h gate put ph True up np by (auto simp: put_xorb_def Let_def)
    have "index_agrees F ((contents (as_blob st))(h \<mapsto> body)) ix"
      by (rule index_upload_agrees [of F "contents (as_blob st)" "as_index st", OF _ wf True gate up])
        (use sync in \<open>simp add: sync_def\<close>)
    then have "sync F st'" using g st' ph pc True by (simp add: sync_def)
    then show ?thesis using run st' True pc np g by simp
  qed
qed

lemma presign_terms_healthy:
  "presign_terms F B ts terms fi s = (r, s') \<Longrightarrow> invar s \<Longrightarrow> healthy s \<Longrightarrow> healthy s' \<and> (\<exists>v. r = Ok v)"
proof (induction ts arbitrary: terms fi s)
  case Nil
  then show ?case by auto
next
  case (Cons t ts)
  obtain u s1 where p: "bs_presign_get B (rv_xorb t) 900 s = (u, s1)" by fastforce
  note law = presign_law [OF Cons.prems(2) p] presign_healthy_law [OF Cons.prems(2,3) _ p]
  then obtain url where u: "u = Ok url" by auto
  show ?case
    using Cons.IH [of _ _ s1] Cons.prems(1) p u law by (simp add: Let_def)
qed

lemma reconstruct_sync:
  assumes sync: "sync F st" and run: "reconstruct ovf F B hh st = (r, st')"
  shows "sync F st'"
proof (rule sync_quiet [OF sync])
  have good: "good F st" and inv: "invar (as_blob st)" and hl: "healthy (as_blob st)"
    using sync by (simp_all add: sync_def good_def)
  show "good F st'" "ix_xorbs (as_index st') = ix_xorbs (as_index st)"
    "ix_chunk_index (as_index st') = ix_chunk_index (as_index st)"
    using reconstruct_good [OF good run] by simp_all
  have "as_blob st' = as_blob st \<or>
      (\<exists>ts u. presign_terms F B ts [] [] (as_blob st) = (u, as_blob st'))"
    using run unfolding reconstruct_def
    by (auto split: option.splits if_splits sum.splits res.splits prod.splits)
  then show "healthy (as_blob st')" "contents (as_blob st') = contents (as_blob st)"
    using hl inv by (auto dest: presign_terms_healthy presign_terms_good)
qed

lemma xorb_data_sync:
  assumes sync: "sync F st" and run: "xorb_data to_str F B hh rng st = (r, st')"
  shows "sync F st'"
proof (rule sync_quiet [OF sync])
  have good: "good F st" and inv: "invar (as_blob st)" and hl: "healthy (as_blob st)"
    using sync by (simp_all add: sync_def good_def)
  show "good F st'" "ix_xorbs (as_index st') = ix_xorbs (as_index st)"
    "ix_chunk_index (as_index st') = ix_chunk_index (as_index st)"
    using xorb_data_good [OF good run] by simp_all
  have "as_blob st' = as_blob st \<or> (\<exists>h x s1. bs_head B h (as_blob st) = (x, s1) \<and>
      (as_blob st' = s1 \<or> (\<exists>i j y len. parse_range to_str rng len = Some (i, j) \<and>
          bs_get_range B h i j s1 = (y, as_blob st'))))"
    using run unfolding xorb_data_def
    by (auto split: option.splits res.splits prod.splits) blast+
  then consider "as_blob st' = as_blob st"
    | h x s1 where "bs_head B h (as_blob st) = (x, s1)" "as_blob st' = s1"
    | h x s1 i j y len where "bs_head B h (as_blob st) = (x, s1)" "parse_range to_str rng len = Some (i, j)"
        "bs_get_range B h i j s1 = (y, as_blob st')" by blast
  then have "healthy (as_blob st') \<and> contents (as_blob st') = contents (as_blob st)"
  proof cases
    case 1
    then show ?thesis using hl by simp
  next
    case 2
    then show ?thesis using head_law [OF inv 2(1)] head_healthy_law [OF inv hl 2(1)] by simp
  next
    case 3
    have s1: "invar s1" "healthy s1" "contents s1 = contents (as_blob st)"
      using head_law [OF inv 3(1)] head_healthy_law [OF inv hl 3(1)] by auto
    show ?thesis
      using get_law [OF s1(1) parse_range_ordered [OF 3(2)] parse_range_below_max [OF 3(2)] 3(3)] get_healthy_law [OF s1(1,2) 3(3)] s1(3) by simp
  qed
  then show "healthy (as_blob st')" "contents (as_blob st') = contents (as_blob st)" by blast+
qed

lemma gc_sweep_sync:
  assumes "sync F st" "\<not> as_poisoned st" "refd = referenced (as_index st)" "gc_sweep B refd xs n st = (r, st')"
  shows "sync F st'"
  using assms
proof (induction xs arbitrary: n st)
  case Nil
  then show ?case by simp
next
  case (Cons x xs)
  show ?case
  proof (cases "x \<in> refd")
    case True
    with Cons show ?thesis by auto
  next
    case False
    obtain d s1 where del: "bs_delete B x (as_blob st) = (d, s1)" by fastforce
    have inv: "invar (as_blob st)" and hl: "healthy (as_blob st)" and good: "good F st"
      using Cons.prems(1) by (simp_all add: sync_def good_def)
    note dl = delete_law [OF inv del] and dh = delete_healthy_law [OF inv hl del]
    define st1 where "st1 = st\<lparr>as_blob := s1, as_index := index_evict x (as_index st)\<rparr>"
    have run: "gc_sweep B refd xs (n + 1) st1 = (r, st')"
      using Cons.prems(2,4) False del dh by (simp add: st1_def)
    have "gc_sweep B refd [x] n st = (Ok (n + 1), st1)"
      using Cons.prems(2) False del dh by (simp add: st1_def)
    from gc_sweep_good [OF good Cons.prems(2,3) this] have "good F st1" by blast
    moreover have "index_agrees F ((contents (as_blob st))(x := None)) (index_evict x (as_index st))"
      using Cons.prems(1) by (intro index_evict_agrees) (auto simp: sync_def good_def server_inv_def)
    ultimately have "sync F st1" using dl dh by (auto simp: sync_def st1_def)
    then show ?thesis
      using Cons.IH [OF _ _ _ run] Cons.prems(2,3) by (simp add: st1_def)
  qed
qed

lemma test_gc_sync:
  assumes sync: "sync F st" and np: "\<not> as_poisoned st" and run: "test_gc B st = (r, st')"
  shows "sync F st' \<and> contents (as_blob st') = contents (as_blob st) |` referenced (as_index st)"
proof -
  have good: "good F st" and ok: "index_ok (as_index st)"
    using sync by (simp_all add: sync_def good_def server_inv_def)
  obtain u st1 where sw: "gc_sweep B (referenced (as_index st)) (hm_keys (ix_xorbs (as_index st))) 0 st = (u, st1)"
    by fastforce
  have "st' = st1"
    using run np sw gc_sweep_good [OF good np refl sw] by (auto simp: test_gc_def gc_referenced_eq [OF ok])
  then have s: "sync F st'" using gc_sweep_sync [OF sync np refl sw] by simp
  note g = test_gc_good [OF good np run]
  let ?C = "contents (as_blob st)" and ?C' = "contents (as_blob st')" and ?R = "referenced (as_index st)"
  have "dom ?C' = dom (hm_get (ix_xorbs (as_index st)) |` ?R)"
    using s g unfolding sync_def index_agrees_def by simp
  then have "dom ?C' \<subseteq> ?R" by auto
  moreover have "\<forall>x \<in> ?R. ?C' x = ?C x" using g by blast
  ultimately have "?C' = ?C |` ?R" by (auto simp: restrict_map_def fun_eq_iff domIff)
  with s show ?thesis by blast
qed

lemma test_scrub_sync:
  assumes sync: "sync F st" and F: "validate_wf F" and run: "test_scrub F B st = (r, st')"
  shows "sync F st'"
proof (rule sync_quiet [OF sync])
  have good: "good F st" and inv: "invar (as_blob st)" and hl: "healthy (as_blob st)"
    using sync by (simp_all add: sync_def good_def)
  show "good F st'" "ix_xorbs (as_index st') = ix_xorbs (as_index st)"
    "ix_chunk_index (as_index st') = ix_chunk_index (as_index st)"
    using test_scrub_good [OF good F run] by simp_all
  obtain u s1 where lp: "scrub_loop F B (hm_keys (ix_xorbs (as_index st))) 0 0 (as_blob st) = (u, s1)" by fastforce
  have "contents s1 = contents (as_blob st)" using scrub_loop_good [OF inv F lp refl] by blast
  moreover have "healthy s1" using scrub_loop_keeps_healthy [OF lp inv hl F] .
  moreover have "as_blob st' \<in> {as_blob st, s1}"
    using run lp by (auto simp: test_scrub_def split: if_splits res.splits)
  ultimately show "healthy (as_blob st')" "contents (as_blob st') = contents (as_blob st)" using hl by auto
qed

lemma put_xorb_any_sync:
  assumes sync: "sync F st" and F: "validate_wf F" and len: "blob_len_ok body" and np: "\<not> as_poisoned st"
    and run: "put_xorb ovf F B hash_hex body st = (r, st')"
  shows "sync F st'"
proof (cases "\<exists>h info. from_hex F hash_hex = Some h \<and> validate_xorb_object F body h = Ok (Some info)")
  case True
  then obtain h info where "from_hex F hash_hex = Some h" "validate_xorb_object F body h = Ok (Some info)" by blast
  from put_xorb_sync [OF sync F len np this, of ovf] run show ?thesis by auto
next
  case False
  then have "st' = st" using run unfolding put_xorb_def by (auto split: option.splits res.splits)
  then show ?thesis using sync by simp
qed

lemma register_file_sync:
  assumes sync: "sync F st" and run: "register_file F req st = (r, st')"
  shows "sync F st'"
proof (rule sync_quiet [OF sync])
  show "good F st'" using register_file_good [OF sync_good [OF sync] run] by blast
  show "healthy (as_blob st')" "contents (as_blob st') = contents (as_blob st)"
    "ix_xorbs (as_index st') = ix_xorbs (as_index st)" "ix_chunk_index (as_index st') = ix_chunk_index (as_index st)"
    using run sync by (auto simp: register_file_def sync_def Let_def split: option.splits if_splits sum.splits)
qed

text \<open>While no handler has panicked, every request keeps the agreement.\<close>

lemma handle_sync:
  assumes sync: "sync F st" and F: "validate_wf F" and c: "admitted c" and np: "\<not> as_poisoned st"
    and run: "handle to_str ovf F B c st = (r, st')"
  shows "sync F st'"
proof -
  have good: "good F st" using sync by (rule sync_good)
  note g = handle_good [OF good F c run]
  show ?thesis
  proof (cases c)
    case (CPutXorb hh body)
    then show ?thesis using put_xorb_any_sync [OF sync F _ np, of body ovf hh] run c by (auto simp: MAX_BODY_BYTES_def)
  next
    case (CRegisterFile req)
    then show ?thesis using register_file_sync [OF sync] run by auto
  next
    case (CReconstruct hh)
    then show ?thesis using reconstruct_sync [OF sync] run by auto
  next
    case (CXorbData hh rng)
    then show ?thesis using xorb_data_sync [OF sync] run by auto
  next
    case CGc
    then show ?thesis using test_gc_sync [OF sync np] run by auto
  next
    case CScrub
    then show ?thesis using test_scrub_sync [OF sync F] run by auto
  next
    case (CGlobalDedup hh)
    have "sync F (st\<lparr>as_metrics := m\<rparr>)" for m
      by (rule sync_quiet [OF sync]) (use sync in \<open>auto simp: sync_def intro: good_same\<close>)
    then show ?thesis
      using CGlobalDedup run sync by (auto simp: global_dedup_def split: if_splits option.splits)
  qed (use run sync in \<open>auto simp: list_entries_def put_shard_def test_metric_def test_noop_def
         test_mint_token_def Let_def split: if_splits\<close>)
qed

end

end
