(* ===== verification/Blob_Props.thy ===== *)
theory Blob_Props
  imports Blob Sample_Fork
begin

text \<open>
  The properties of the local-filesystem store under I/O failures, with a small concrete store for the
  witnesses.
\<close>

definition sample_store :: local_fs_blob_store where
  "sample_store = \<lparr>lf_root = [''blobs''], lf_public_base = ''http://127.0.0.1:8080''\<rparr>"

definition sample_fs :: fs where
  "sample_fs = \<lparr>fs_files = (\<lambda>_. None), fs_dirs = {}, fs_clock = 0, fs_env = (\<lambda>_. IoOk)\<rparr>"

text \<open>The same file system, on which the third call is a write torn after three bytes.\<close>

definition torn_fs :: fs where
  "torn_fs = sample_fs\<lparr>fs_env := (\<lambda>n. if n = 2 then IoPartial 3 ''disk full'' else IoOk)\<rparr>"

lemma sample_fs_facts:
  "local_fs_inv sample_fork sample_store sample_fs" "local_fs_healthy sample_fs"
  "local_fs_contents sample_fork sample_store sample_fs k = None"
  using sample_hex_ok by (simp_all add: local_fs_inv_def local_fs_healthy_def sample_fs_def)

text \<open>
  C8. A put is all or nothing, whatever calls the file system refuses and wherever it tears a
  write: the object appears complete when the answer is true, an existing object is untouched when it
  is false, and on an error nothing changes under any key. No file outside the object's own path
  and its temporary file is touched.
\<close>

theorem local_fs_put_atomic:
  assumes "hex_ok F" and "local_fs_put F c k b f = (r, f')"
  defines "C \<equiv> local_fs_contents F c f" and "C' \<equiv> local_fs_contents F c f'"
  shows "(case r of
        Ok inserted \<Rightarrow> if inserted then C' = C(k \<mapsto> b) else C' = C \<and> C k \<noteq> None
      | Err _ \<Rightarrow> C' = C
      | Panic \<Rightarrow> False) \<and>
     (\<forall>p. p \<noteq> key_path F c k \<and> p \<noteq> tmp_path F c k \<longrightarrow> fs_files f' p = fs_files f p)"
proof -
  have ne: "key_path F c x \<noteq> tmp_path F c k" for x using tmp_path_not_key [OF assms(1)] by metis
  show ?thesis using assms(1,2)
  proof (cases rule: local_fs_put_cases)
    case inserted
    then show ?thesis using assms(1) ne by (simp add: C_def C'_def fun_eq_iff)
  next
    case (existed t)
    then show ?thesis using assms(1) ne by (simp add: C_def C'_def fun_eq_iff)
  next
    case (failed e t)
    then show ?thesis using assms(1) ne by (simp add: C_def C'_def fun_eq_iff)
  qed
qed

text \<open>The witness tears the write: the temporary file keeps three bytes, no object appears.\<close>

theorem local_fs_put_atomic_witness:
  "fst (local_fs_put sample_fork sample_store 5 [1, 2, 3, 4] torn_fs) = Err ''disk full'' \<and>
   local_fs_contents sample_fork sample_store (snd (local_fs_put sample_fork sample_store 5 [1, 2, 3, 4] torn_fs)) =
   local_fs_contents sample_fork sample_store torn_fs"
proof -
  have r: "fst (local_fs_put sample_fork sample_store 5 [1, 2, 3, 4] torn_fs) = Err ''disk full''"
    using sample_hex_ok
    by (simp add: local_fs_put_def fs_try_exists_def fs_create_dir_all_def fs_write_def fs_call_def fs_event_def
        torn_fs_def sample_fs_def Let_def key_path_def del: sample_fork_simps)
  obtain x f' where run: "local_fs_put sample_fork sample_store 5 [1, 2, 3, 4] torn_fs = (x, f')" by fastforce
  from local_fs_put_atomic [OF sample_hex_ok run] r run show ?thesis by simp
qed

text \<open>
  Round trip: on a store that does not fail, an object that was not there is stored by a put and read
  back by \<open>get_range\<close>, for every inclusive range that starts inside it, as exactly its bytes.
\<close>

theorem local_fs_put_get:
  assumes "local_fs_inv F c f" and "local_fs_healthy f" and "blob_len_ok b" and "local_fs_contents F c f k = None"
    and "local_fs_put F c k b f = (r, f1)" and "local_fs_get_range ovf F c k i j f1 = (r', f2)"
    and "unat i < length b" and "i \<le> j" and "j < - 1"
  shows "r = Ok True \<and> r' = Ok (byte_range b i j)"
proof -
  have ops: "bs_put (local_fs_ops ovf F c) k b f = (r, f1)" "bs_get_range (local_fs_ops ovf F c) k i j f1 = (r', f2)"
    using assms(5,6) by (simp_all add: local_fs_ops_def)
  show ?thesis by (rule lfs.put_then_get [OF assms(1-4) ops assms(7-9)])
qed

theorem local_fs_put_get_witness:
  "fst (local_fs_get_range True sample_fork sample_store 5 1 2 (snd (local_fs_put sample_fork sample_store 5 [7, 8, 9, 10] sample_fs))) =
     Ok [8, 9]"
proof -
  obtain r f1 where put: "local_fs_put sample_fork sample_store 5 [7, 8, 9, 10] sample_fs = (r, f1)" by fastforce
  obtain r' f2 where get: "local_fs_get_range True sample_fork sample_store 5 1 2 f1 = (r', f2)" by fastforce
  from local_fs_put_get [OF sample_fs_facts(1,2) _ sample_fs_facts(3) put get] put get show ?thesis
    by (simp add: byte_range_def word_less_nat_alt unsigned_minus_1_eq_mask mask_eq_exp_minus_1)
qed

end
