(* ===== verification/Server_Props.thy ===== *)
theory Server_Props
  imports Server_Sync Blob_Props
begin

text \<open>
  The properties of the server over the local-filesystem store. Uploads and the properties about failures are stated for every
  state in which the server and store invariants hold; those that need index and store to agree exactly, for the states of a server
  that was started on an empty store that does not fail (\<open>served\<close>) and has not panicked under its lock.
  The witnesses run the handlers on \<open>sample_fork\<close>.
\<close>

section \<open>States of a running server\<close>

lemma handle_poison_mono:
  "handle to_str ovf F B c st = (r, st') \<Longrightarrow> as_poisoned st \<Longrightarrow> as_poisoned st'"
proof (cases c)
  case (CPutXorb h body)
  then show "handle to_str ovf F B c st = (r, st') \<Longrightarrow> as_poisoned st \<Longrightarrow> ?thesis"
    by (auto simp: put_xorb_def Let_def split: option.splits res.splits prod.splits if_splits)
next
  case (CXorbData h rng)
  then show "handle to_str ovf F B c st = (r, st') \<Longrightarrow> as_poisoned st \<Longrightarrow> ?thesis"
    by (auto simp: xorb_data_def split: option.splits res.splits prod.splits)
qed (auto simp: reconstruct_def global_dedup_def put_shard_def register_file_def list_entries_def test_metric_def
      test_mint_token_def test_noop_def test_gc_def test_scrub_def Let_def split: option.splits if_splits)

definition served ::
  "(string \<Rightarrow> string option) \<Rightarrow> bool \<Rightarrow> fork \<Rightarrow> local_fs_blob_store \<Rightarrow> fs app_state \<Rightarrow> bool" where
  "served to_str ovf F c st \<longleftrightarrow>
     (\<exists>f auth rt wt. local_fs_inv F c f \<and> local_fs_healthy f \<and> (\<forall>k. local_fs_contents F c f k = None) \<and>
        reachable to_str ovf F (local_fs_ops ovf F c) (app_state_new f auth rt wt) st) \<and> \<not> as_poisoned st"

lemma served_np [simp]: "served to_str ovf F c st \<Longrightarrow> \<not> as_poisoned st"
  by (simp add: served_def)

lemma reachable_sync:
  "reachable to_str ovf F (local_fs_ops ovf F c) st0 st \<Longrightarrow> lfs.sync F c F st0 \<Longrightarrow> validate_wf F \<Longrightarrow>
     \<not> as_poisoned st \<Longrightarrow> lfs.sync F c F st"
proof (induction rule: reachable.induct)
  case (step st call r st')
  then have "\<not> as_poisoned st" using handle_poison_mono by blast
  with step show ?case by (blast intro: lfs.handle_sync)
qed

lemma served_sync:
  assumes "served to_str ovf F c st" "validate_wf F"
  shows "lfs.sync F c F st"
proof -
  from assms(1) obtain f auth rt wt where f: "local_fs_inv F c f" "local_fs_healthy f"
      "\<forall>k. local_fs_contents F c f k = None"
    and r: "reachable to_str ovf F (local_fs_ops ovf F c) (app_state_new f auth rt wt) st"
    by (auto simp: served_def)
  have C: "local_fs_contents F c f = (\<lambda>_. None)" using f(3) by (simp add: fun_eq_iff)
  have "lfs.sync F c F (app_state_new f auth rt wt)"
    using f C index_agrees_empty server_inv_new [of F "\<lambda>_. None" f auth rt wt]
    by (simp add: lfs.sync_def lfs.good_def blobs_valid_def)
  then show ?thesis using reachable_sync [OF r _ assms(2)] assms(1) by simp
qed

lemma served_facts:
  assumes "served to_str ovf F c st" "validate_wf F"
  shows "local_fs_inv F c (as_blob st)" "local_fs_healthy (as_blob st)"
    "server_inv F (local_fs_contents F c (as_blob st)) st"
    "index_agrees F (local_fs_contents F c (as_blob st)) (as_index st)" "hex_ok F"
  using served_sync [OF assms] by (auto simp: lfs.sync_def lfs.good_def local_fs_inv_def)

lemma served_step:
  assumes "served to_str ovf F c st" "admitted call"
    and "handle to_str ovf F (local_fs_ops ovf F c) call st = (r, st')" "\<not> as_poisoned st'"
  shows "served to_str ovf F c st'"
  using assms unfolding served_def by (blast intro: reachable.step)

subsection \<open>A server on the sample fork\<close>

abbreviation sample_ops :: "fs blob_ops" where
  "sample_ops \<equiv> local_fs_ops True sample_fork sample_store"

definition sample_st0 :: "fs app_state" where
  "sample_st0 = app_state_new sample_fs Loopback ''read-0'' ''write-0''"

text \<open>A xorb with the two chunks \<open>[97]\<close> and \<open>[98, 99]\<close>.\<close>

definition sample_body :: bytes where
  "sample_body = [1, 97, 2, 98, 99]"

definition sample_xorb :: hash where
  "sample_xorb = 6513963"

definition sample_xorb_info :: xorb_info where
  "sample_xorb_info =
     \<lparr>xi_num_chunks = 2, xi_chunk_hashes = [98, 25799], xi_chunk_boundary_offsets = [2, 5],
      xi_unpacked_chunk_offsets = [1, 3]\<rparr>"

definition sample_st1 :: "fs app_state" where
  "sample_st1 = snd (put_xorb True sample_fork sample_ops (hex sample_fork sample_xorb) sample_body sample_st0)"

lemma sample_hash_roundtrip: "from_hex sample_fork (hex sample_fork h) = Some h"
  using hex_roundtrip [OF sample_hex_ok] .

lemma sample_gate: "validate_xorb_object sample_fork sample_body sample_xorb = Ok (Some sample_xorb_info)"
  by (simp add: sample_validate_def sample_body_def sample_xorb_def xorb_root_def sample_data_hash_def enc_bytes_def
      sample_info_def sample_xorb_info_def)

lemma sample_served0: "served Some True sample_fork sample_store sample_st0"
proof -
  have "reachable Some True sample_fork sample_ops (app_state_new sample_fs Loopback ''read-0'' ''write-0'') sample_st0"
    unfolding sample_st0_def by (rule reachable.init)
  then show ?thesis
    using sample_fs_facts unfolding served_def by (auto simp: sample_st0_def)
qed

lemma sample_body_len: "length sample_body \<le> MAX_BODY_BYTES" "blob_len_ok sample_body"
  by (simp_all add: sample_body_def MAX_BODY_BYTES_def)

lemma sample_put:
  "put_xorb True sample_fork sample_ops (hex sample_fork sample_xorb) sample_body sample_st0 =
     (Ok (ok_json (JObj [(''was_inserted'', JBool True)])), sample_st1)"
  "\<not> as_poisoned sample_st1"
  "local_fs_contents sample_fork sample_store (as_blob sample_st1) = [sample_xorb \<mapsto> sample_body]"
proof -
  have C: "local_fs_contents sample_fork sample_store (as_blob sample_st0) = (\<lambda>_. None)"
    using sample_fs_facts(3) by (simp add: sample_st0_def fun_eq_iff)
  from lfs.put_xorb_sync [OF served_sync [OF sample_served0 sample_validate_wf] sample_validate_wf sample_body_len(2)
      served_np [OF sample_served0] sample_hash_roundtrip sample_gate, of True True]
  show "put_xorb True sample_fork sample_ops (hex sample_fork sample_xorb) sample_body sample_st0 =
     (Ok (ok_json (JObj [(''was_inserted'', JBool True)])), sample_st1)"
    "\<not> as_poisoned sample_st1"
    "local_fs_contents sample_fork sample_store (as_blob sample_st1) = [sample_xorb \<mapsto> sample_body]"
    unfolding C by (auto simp: sample_st1_def)
qed

lemma sample_st1_files: "ix_files (as_index sample_st1) = []" "ix_catalog (as_index sample_st1) = []"
proof -
  have "put_xorb True sample_fork B hh body st = (r, st') \<Longrightarrow>
      ix_files (as_index st') = ix_files (as_index st) \<and> ix_catalog (as_index st') = ix_catalog (as_index st)"
    for B :: "fs blob_ops" and hh body st r st'
    by (auto simp: put_xorb_def Let_def dest: index_upload_frame(1,2)
        split: option.splits res.splits prod.splits if_splits)
  from this [OF sample_put(1)] show "ix_files (as_index sample_st1) = []" "ix_catalog (as_index sample_st1) = []"
    by (simp_all add: sample_st0_def index_default_def)
qed

lemma sample_served1: "served Some True sample_fork sample_store sample_st1"
proof (rule served_step [OF sample_served0])
  show "admitted (CPutXorb (hex sample_fork sample_xorb) sample_body)" using sample_body_len by simp
  show "handle Some True sample_fork sample_ops (CPutXorb (hex sample_fork sample_xorb) sample_body) sample_st0 =
      (Ok (ok_json (JObj [(''was_inserted'', JBool True)])), sample_st1)"
    using sample_put(1) by simp
qed (rule sample_put(2))

section \<open>Integrity and referential integrity\<close>

text \<open>
  C1. Whatever requests arrive, in whatever order, and whatever the file system refuses or tears,
  starting from a store whose objects pass the gate: every stored object still passes the
  integrity gate under its own key, every indexed xorb is stored, every registered term names an
  indexed xorb, every catalog entry a registered file and every chunk location an indexed xorb.
\<close>

theorem reachable_server_inv:
  assumes "validate_wf F" and "local_fs_inv F c f" and "blobs_valid F (local_fs_contents F c f)"
    and "reachable to_str ovf F (local_fs_ops ovf F c) (app_state_new f auth rt wt) st"
  shows "server_inv F (local_fs_contents F c (as_blob st)) st"
proof -
  have "lfs.good F c F (app_state_new f auth rt wt)"
    using assms(2,3) server_inv_new [of F "local_fs_contents F c f" f auth rt wt] by (simp add: lfs.good_def)
  from lfs.reachable_good [OF assms(4) this assms(1)] show ?thesis by (simp add: lfs.good_def)
qed

text \<open>The witness runs an upload whose write is torn.\<close>

definition torn_st :: "fs app_state" where
  "torn_st = snd (put_xorb True sample_fork sample_ops (hex sample_fork sample_xorb) sample_body
     (app_state_new torn_fs Loopback ''r'' ''w''))"

theorem reachable_server_inv_witness:
  "server_inv sample_fork (local_fs_contents sample_fork sample_store (as_blob torn_st)) torn_st"
proof (rule reachable_server_inv [OF sample_validate_wf])
  show "local_fs_inv sample_fork sample_store torn_fs"
    using sample_hex_ok by (simp add: local_fs_inv_def torn_fs_def sample_fs_def)
  show "blobs_valid sample_fork (local_fs_contents sample_fork sample_store torn_fs)"
    using sample_hex_ok by (simp add: blobs_valid_def torn_fs_def sample_fs_def)
  show "reachable Some True sample_fork sample_ops (app_state_new torn_fs Loopback ''r'' ''w'') torn_st"
    by (rule reachable.step [OF reachable.init, of "CPutXorb (hex sample_fork sample_xorb) sample_body"])
      (simp_all add: torn_st_def sample_body_len prod_eq_iff)
qed

section \<open>Uploads\<close>

text \<open>
  C4. An upload on every branch, in any consistent state of a server and whatever the store's calls do. A malformed hash
  and a body that the gate refuses or cannot parse get 400 and change nothing. A body that passes the gate is either
  answered as new: it is in the store, its footer is in the index, every chunk of it has a location, old locations are kept,
  and both counters advance; or answered as known, and store, index and counters are as before; or answered 500 with
  the store's error, where index and counters are as before and the store has at most gained that object. On a store that does not fail
  there is no 500, and the answer says whether the object was missing before.
\<close>

theorem put_xorb_spec:
  assumes "validate_wf F" and "local_fs_inv F c (as_blob st)" and "server_inv F (local_fs_contents F c (as_blob st)) st"
    and "\<not> as_poisoned st" and "length body \<le> MAX_BODY_BYTES"
    and "put_xorb ovf F (local_fs_ops ovf F c) hh body st = (r, st')"
  defines "C \<equiv> local_fs_contents F c (as_blob st)" and "C' \<equiv> local_fs_contents F c (as_blob st')"
  shows "case from_hex F hh of
       None \<Rightarrow> st' = st \<and> r = Ok (with_text 400 ''malformed xorb hash'')
     | Some h \<Rightarrow>
        (case validate_xorb_object F body h of
           Ok (Some info) \<Rightarrow>
             (r = Ok (ok_json (JObj [(''was_inserted'', JBool True)])) \<and> C' = C(h \<mapsto> body) \<and>
              hm_get (ix_xorbs (as_index st')) =
                (if hm_get (ix_xorbs (as_index st)) h = None then (hm_get (ix_xorbs (as_index st)))(h \<mapsto> from_info info)
                 else hm_get (ix_xorbs (as_index st))) \<and>
              set (xi_chunk_hashes info) \<subseteq> dom (hm_get (ix_chunk_index (as_index st'))) \<and>
              hm_get (ix_chunk_index (as_index st)) \<subseteq>\<^sub>m hm_get (ix_chunk_index (as_index st')) \<and>
              ix_files (as_index st') = ix_files (as_index st) \<and> ix_catalog (as_index st') = ix_catalog (as_index st) \<and>
              as_metrics st' = (as_metrics st)\<lparr>xorb_puts := xorb_puts (as_metrics st) + 1,
                novel_bytes := novel_bytes (as_metrics st) + of_nat (length body)\<rparr> \<or>
              r = Ok (ok_json (JObj [(''was_inserted'', JBool False)])) \<and> C h \<noteq> None \<and> C' = C \<and>
              as_index st' = as_index st \<and> as_metrics st' = as_metrics st \<or>
              (\<exists>e. r = Ok (with_text 500 (''blob store: '' @ e))) \<and> C' \<in> {C, C(h \<mapsto> body)} \<and>
              as_index st' = as_index st \<and> as_metrics st' = as_metrics st) \<and>
             (local_fs_healthy (as_blob st) \<longrightarrow> r = Ok (ok_json (JObj [(''was_inserted'', JBool (C h = None))])))
         | _ \<Rightarrow> st' = st \<and> (\<exists>msg. r = Ok (with_text 400 msg)))"
proof (cases "\<exists>h info. from_hex F hh = Some h \<and> validate_xorb_object F body h = Ok (Some info)")
  case False
  then show ?thesis
    using assms(1,6) by (auto simp: put_xorb_def validate_wf_def split: res.splits option.splits)
next
  case True
  then obtain h info where h: "from_hex F hh = Some h" and gate: "validate_xorb_object F body h = Ok (Some info)" by blast
  have len: "blob_len_ok body" using assms(5) by (simp add: MAX_BODY_BYTES_def)
  obtain x s1 where put: "local_fs_put F c h body (as_blob st) = (x, s1)" by fastforce
  have put': "bs_put (local_fs_ops ovf F c) h body (as_blob st) = (x, s1)" using put by (simp add: local_fs_ops_def)
  note law = lfs.put_law [OF assms(2) len put', folded C_def]
  have healthy: "local_fs_healthy (as_blob st) \<longrightarrow> x = Ok (C h = None)"
    using lfs.put_healthy_law [OF assms(2) _ len put'] by (simp add: C_def)
  obtain y ix where up: "index_upload ovf h info (as_index st) = (y, ix)" by fastforce
  have iw: "info_wf info (length body)" using valid_xorb_info_wf [OF assms(1) gate] .
  have y: "y = Ok ()" using index_upload_inv [OF _ iw up] assms(3) by (simp add: server_inv_def)
  have "index_chunks_loop ovf h (xi_unpacked_chunk_offsets info) 0 0 (xi_chunk_hashes info) (ix_chunk_index (as_index st)) =
      (y, ix_chunk_index ix)"
    using up by (auto simp: index_upload_def index_chunks_def split: prod.splits)
  then have mono: "hm_get (ix_chunk_index (as_index st)) \<subseteq>\<^sub>m hm_get (ix_chunk_index ix)"
    unfolding map_le_def by (fastforce dest: index_chunks_loop_mono)
  note new = index_upload_frame [OF up] index_upload_covers [OF iw up] mono
  have st': "as_blob st' = s1" using assms(4,6) put h gate up y by (auto simp: put_xorb_def local_fs_ops_def Let_def split: res.splits if_splits)
  show ?thesis
  proof (cases x)
    case ok: (Ok inserted)
    show ?thesis
    proof (cases inserted)
      case True
      then have "r = Ok (ok_json (JObj [(''was_inserted'', JBool True)]))" "as_index st' = ix"
        "as_metrics st' = (as_metrics st)\<lparr>xorb_puts := xorb_puts (as_metrics st) + 1,
           novel_bytes := novel_bytes (as_metrics st) + of_nat (length body)\<rparr>"
        using assms(4,6) put h gate up y ok by (auto simp: put_xorb_def local_fs_ops_def Let_def)
      moreover have "C' = C(h \<mapsto> body)" using law ok True st' by (simp add: C'_def)
      moreover have "local_fs_healthy (as_blob st) \<longrightarrow> C h = None" using healthy ok True by simp
      ultimately show ?thesis using h gate new by simp
    next
      case False
      then have "r = Ok (ok_json (JObj [(''was_inserted'', JBool False)]))" "as_index st' = as_index st" "as_metrics st' = as_metrics st"
        using assms(6) put h gate ok by (auto simp: put_xorb_def local_fs_ops_def Let_def)
      moreover have "C' = C" "C h \<noteq> None" using law ok False st' by (simp_all add: C'_def)
      ultimately show ?thesis using h gate by auto
    qed
  next
    case (Err e)
    then have "r = Ok (with_text 500 (''blob store: '' @ e))" "as_index st' = as_index st" "as_metrics st' = as_metrics st"
      using assms(6) put h gate by (auto simp: put_xorb_def local_fs_ops_def)
    moreover have "C' \<in> {C, C(h \<mapsto> body)}" using law st' by (simp add: C'_def)
    moreover have "\<not> local_fs_healthy (as_blob st)" using healthy Err by auto
    ultimately show ?thesis unfolding h gate option.case res.case by blast
  next
    case Panic
    then show ?thesis using law by blast
  qed
qed

theorem put_xorb_spec_witness:
  "hm_get (ix_xorbs (as_index sample_st1)) sample_xorb = Some (from_info sample_xorb_info) \<and>
   xorb_puts (as_metrics sample_st1) = 1 \<and> novel_bytes (as_metrics sample_st1) = 5"
  using put_xorb_spec [OF sample_validate_wf served_facts(1,3) [OF sample_served0 sample_validate_wf] served_np [OF sample_served0]
      sample_body_len(1) sample_put(1)] sample_gate sample_fs_facts(3)
  by (simp add: sample_st0_def metrics_default_def sample_body_def sample_hash_roundtrip index_default_def ok_json_def with_text_def
      del: sample_fork_simps)

definition registrable :: "fork \<Rightarrow> index_store \<Rightarrow> register_term \<Rightarrow> bool" where
  "registrable F ix t \<longleftrightarrow> (\<exists>x. from_hex F (rg_xorb t) = Some x \<and> x \<in> dom (hm_get (ix_xorbs ix)))"

lemma register_terms_ok:
  "(\<forall>t \<in> set ts. registrable F ix t) \<longleftrightarrow> (\<exists>terms. register_terms F (ix_xorbs ix) ts = Inr terms)"
proof (induction ts)
  case (Cons t ts)
  then show ?case by (auto simp: registrable_def split: option.splits sum.splits)
qed simp

definition file_term_of :: "fork \<Rightarrow> register_term \<Rightarrow> file_term" where
  "file_term_of F t =
     \<lparr>ft_xorb = the (from_hex F (rg_xorb t)), ft_start = rg_start t, ft_end = rg_end t,
      ft_unpacked_length = rg_unpacked_length t\<rparr>"

lemma register_terms_value: "register_terms F xorbs ts = Inr terms \<Longrightarrow> terms = map (file_term_of F) ts"
  by (induction ts arbitrary: terms) (auto simp: file_term_of_def split: option.splits if_splits sum.splits)

text \<open>
  C5. Ordering of registrations: a file is registered exactly when its hash and the hashes of its terms
  parse and every xorb it names is indexed, and then its record (and its catalog entry, when a
  volume and a path are given) is exactly the request; otherwise the answer is 400 and nothing
  changes.
\<close>

theorem register_file_spec:
  assumes "\<not> as_poisoned st" and "register_file F req st = (r, st')"
  shows "if \<exists>fh. from_hex F (rf_file_hash req) = Some fh \<and> (\<forall>t \<in> set (rf_terms req). registrable F (as_index st) t)
     then \<exists>fh ix'. from_hex F (rf_file_hash req) = Some fh \<and> st' = st\<lparr>as_index := ix'\<rparr> \<and>
       r = Ok (ok_json (JObj [(''result'', JNum (if hm_get (ix_files (as_index st)) fh = None then 1 else 0))])) \<and>
       hm_get (ix_files ix') = (hm_get (ix_files (as_index st)))
         (fh \<mapsto> \<lparr>fr_total_size = rf_total_size req, fr_terms = map (file_term_of F) (rf_terms req)\<rparr>) \<and>
       hm_get (ix_catalog ix') = (case (rf_volume req, rf_path req) of
           (Some v, Some p) \<Rightarrow> (hm_get (ix_catalog (as_index st)))((v, p) \<mapsto> fh)
         | _ \<Rightarrow> hm_get (ix_catalog (as_index st))) \<and>
       ix_xorbs ix' = ix_xorbs (as_index st) \<and> ix_chunk_index ix' = ix_chunk_index (as_index st)
     else st' = st \<and> (\<exists>msg. r = Ok (with_text 400 msg))"
proof (cases "from_hex F (rf_file_hash req)")
  case None
  then show ?thesis using assms by (auto simp: register_file_def)
next
  case (Some fh)
  show ?thesis
  proof (cases "register_terms F (ix_xorbs (as_index st)) (rf_terms req)")
    case (Inl e)
    then have "\<not> (\<forall>t \<in> set (rf_terms req). registrable F (as_index st) t)" by (simp add: register_terms_ok)
    moreover have "st' = st \<and> r = Ok (with_text 400 e)" using assms Some Inl by (simp add: register_file_def)
    ultimately show ?thesis by auto
  next
    case (Inr terms)
    then have "\<forall>t \<in> set (rf_terms req). registrable F (as_index st) t" by (simp add: register_terms_ok)
    with assms Some Inr register_terms_value [OF Inr] show ?thesis
      by (auto simp: register_file_def Let_def domIff split: option.splits)
  qed
qed

definition sample_file :: register_file_req where
  "sample_file =
     \<lparr>rf_file_hash = hex sample_fork 7, rf_total_size = 3,
      rf_terms = [\<lparr>rg_xorb = hex sample_fork sample_xorb, rg_start = 0, rg_end = 2, rg_unpacked_length = 3\<rparr>],
      rf_volume = Some ''vol'', rf_path = Some ''/a''\<rparr>"

definition sample_st2 :: "fs app_state" where
  "sample_st2 = snd (register_file sample_fork sample_file sample_st1)"

definition sample_terms :: "file_term list" where
  "sample_terms = [\<lparr>ft_xorb = sample_xorb, ft_start = 0, ft_end = 2, ft_unpacked_length = 3\<rparr>]"

lemma sample_st1_index: "sample_xorb \<in> dom (hm_get (ix_xorbs (as_index sample_st1)))"
  using served_facts(4) [OF sample_served1 sample_validate_wf] sample_put(3) by (simp add: index_agrees_def)

theorem register_file_spec_witness:
  "hm_get (ix_files (as_index sample_st2)) 7 = Some \<lparr>fr_total_size = 3, fr_terms = sample_terms\<rparr> \<and>
   hm_get (ix_catalog (as_index sample_st2)) (''vol'', ''/a'') = Some 7"
  using register_file_spec [OF sample_put(2), of sample_fork sample_file "fst (register_file sample_fork sample_file sample_st1)"
      sample_st2] sample_hash_roundtrip sample_st1_index
  by (simp add: sample_st2_def sample_file_def registrable_def file_term_of_def sample_terms_def
      del: sample_fork_simps) auto

section \<open>Reconstructions\<close>

text \<open>A term whose chunk indices lie in the footer of its xorb.\<close>

definition term_in_range :: "(hash, xorb_meta) hashmap \<Rightarrow> file_term \<Rightarrow> bool" where
  "term_in_range xorbs t \<longleftrightarrow>
     (case hm_get xorbs (ft_xorb t) of
        None \<Rightarrow> False
      | Some m \<Rightarrow> unat (ft_start t) \<le> length (xm_boundary_offsets m) \<and> 0 < ft_end t \<and>
          unat (ft_end t) \<le> length (xm_boundary_offsets m))"

definition term_out :: "fork \<Rightarrow> file_term \<Rightarrow> recon_term" where
  "term_out F t =
     \<lparr>rt_hash = hex F (ft_xorb t), rt_unpacked_length = ft_unpacked_length t,
      rt_range = \<lparr>cr_start = ft_start t, cr_end = ft_end t\<rparr>\<rparr>"

definition term_span :: "(hash, xorb_meta) hashmap \<Rightarrow> file_term \<Rightarrow> byte_span" where
  "term_span xorbs t =
     (let offs = xm_boundary_offsets (the (hm_get xorbs (ft_xorb t)))
      in \<lparr>br_start = of_nat (chunk_start offs (unat (ft_start t))),
          br_end = of_nat (unat (offs ! (unat (ft_end t) - 1)) - 1)\<rparr>)"

definition fetch_out :: "fork \<Rightarrow> local_fs_blob_store \<Rightarrow> (hash, xorb_meta) hashmap \<Rightarrow> file_term \<Rightarrow> fetch_info" where
  "fetch_out F c xorbs t =
     \<lparr>fi_range = \<lparr>cr_start = ft_start t, cr_end = ft_end t\<rparr>,
      fi_url = lf_public_base c @ ''/api/v1/xorb-data/'' @ hex F (ft_xorb t),
      fi_url_range = term_span xorbs t\<rparr>"

definition resolved_out :: "(hash, xorb_meta) hashmap \<Rightarrow> file_term \<Rightarrow> resolved" where
  "resolved_out xorbs t =
     \<lparr>rv_xorb = ft_xorb t, rv_start = ft_start t, rv_end = ft_end t, rv_unpacked = ft_unpacked_length t,
      rv_byte_start = br_start (term_span xorbs t), rv_byte_end = br_end (term_span xorbs t)\<rparr>"

lemma term_bytes_cases:
  assumes pos: "\<forall>i < length offs. 0 < unat (offs ! i)" and few: "length offs < 2 ^ 32"
  shows "term_bytes ovf offs s e =
     (if unat s \<le> length offs \<and> 0 < e \<and> unat e \<le> length offs
      then Ok (of_nat (chunk_start offs (unat s)), of_nat (unat (offs ! (unat e - 1)) - 1))
      else Panic)"
proof -
  have one: "(1 :: u32) \<le> n \<longleftrightarrow> 0 < n" for n by (simp add: word_le_nat_alt word_less_nat_alt Suc_le_eq)
  have start: "bind_res (sub_res ovf s 1) (\<lambda>i. bind_res (nth_res offs (unat i)) (\<lambda>v. Ok (ucast v :: u64))) =
      (if unat s \<le> length offs then Ok (of_nat (chunk_start offs (unat s))) else Panic)" if "s \<noteq> 0"
    using that one [of s]
    by (auto simp: word_gt_0 unat_pred nth_res_def chunk_start_def unat_eq_zero)
      (metis Suc_pred unat_gt_0 less_eq_Suc_le)
  have stop: "bind_res (sub_res ovf e 1) (\<lambda>i. bind_res (nth_res offs (unat i)) (\<lambda>v. sub_res ovf (ucast v :: u64) 1)) =
      (if 0 < e \<and> unat e \<le> length offs then Ok (of_nat (unat (offs ! (unat e - 1)) - 1)) else Panic)"
  proof (cases "0 < e \<and> unat e \<le> length offs")
    case True
    let ?v = "offs ! (unat e - 1)"
    have e0: "0 < unat e" using True by (simp add: word_less_nat_alt)
    then have i: "unat e - 1 < length offs" using True by linarith
    then have v: "0 < unat ?v" using pos by blast
    then have le: "(1 :: u64) \<le> ucast ?v" by (simp add: word_le_nat_alt)
    have "(ucast ?v :: u64) - 1 = of_nat (unat ?v - 1)"
      using v by (simp add: of_nat_diff)
    then show ?thesis using True e0 i le one [of e] by (simp add: unat_pred nth_res_def)
  next
    case False
    then consider "e = 0" | "0 < e" "length offs < unat e" using word_gt_0 [of e] not_le by blast
    then show ?thesis
    proof cases
      case 1
      then show ?thesis using few by (simp add: sub_res_def nth_res_def unsigned_minus_1_eq_mask mask_eq_exp_minus_1)
    next
      case 2
      then show ?thesis using one [of e] by (simp add: unat_pred nth_res_def)
    qed
  qed
  show ?thesis
    unfolding term_bytes_def using start stop
    by (auto simp: chunk_start_def)
qed

text \<open>An index whose footers have positive boundaries: true of every index that agrees with the store.\<close>

definition footers_ok :: "(hash, xorb_meta) hashmap \<Rightarrow> bool" where
  "footers_ok xorbs \<longleftrightarrow> (\<forall>x m. hm_get xorbs x = Some m \<longrightarrow>
     length (xm_boundary_offsets m) < 2 ^ 32 \<and> (\<forall>i < length (xm_boundary_offsets m). 0 < unat (xm_boundary_offsets m ! i)))"

lemma agrees_footer:
  assumes "index_agrees F C ix" "validate_wf F" "hm_get (ix_xorbs ix) x = Some m"
  obtains b info where "C x = Some b" "validate_xorb_object F b x = Ok (Some info)" "m = from_info info"
    "info_wf info (length b)"
proof -
  have "xorb_agrees F C x m" using assms(1,3) by (simp add: index_agrees_def)
  then obtain b info where "C x = Some b" "validate_xorb_object F b x = Ok (Some info)" "m = from_info info"
    unfolding xorb_agrees_def by blast
  then show thesis using that valid_xorb_info_wf [OF assms(2)] by blast
qed

lemma agrees_footers_ok:
  assumes "index_agrees F C ix" "validate_wf F"
  shows "footers_ok (ix_xorbs ix)"
  unfolding footers_ok_def
proof (intro allI impI)
  fix x m assume x: "hm_get (ix_xorbs ix) x = Some m"
  obtain b info where "C x = Some b" "validate_xorb_object F b x = Ok (Some info)" and m: "m = from_info info"
    and wf: "info_wf info (length b)"
    by (rule agrees_footer [OF assms x])
  have "length (xi_chunk_boundary_offsets info) < 2 ^ 32"
    using info_wf_lengths [OF wf] unat_u32_less [of "xi_num_chunks info"] by simp
  moreover have "0 < unat (xi_chunk_boundary_offsets info ! i)" if "i < length (xi_chunk_boundary_offsets info)" for i
    using wf that unfolding info_wf_def by (metis gr_zeroI not_less_zero)
  ultimately show "length (xm_boundary_offsets m) < 2 ^ 32 \<and>
      (\<forall>i < length (xm_boundary_offsets m). 0 < unat (xm_boundary_offsets m ! i))"
    by (simp add: m from_info_def)
qed

lemma resolve_terms_cases:
  assumes "footers_ok xorbs" "\<forall>t \<in> set ts. ft_xorb t \<in> dom (hm_get xorbs)"
  shows "resolve_terms ovf xorbs ts =
     (if \<forall>t \<in> set ts. term_in_range xorbs t then Ok (Inr (map (resolved_out xorbs) ts)) else Panic)"
  using assms(2)
proof (induction ts)
  case Nil
  then show ?case by simp
next
  case (Cons t ts)
  then obtain m where m: "hm_get xorbs (ft_xorb t) = Some m" by auto
  note tb = term_bytes_cases [of "xm_boundary_offsets m" ovf "ft_start t" "ft_end t"]
  have "length (xm_boundary_offsets m) < 2 ^ 32" "\<forall>i < length (xm_boundary_offsets m). 0 < unat (xm_boundary_offsets m ! i)"
    using assms(1) m by (auto simp: footers_ok_def)
  with Cons m tb show ?case
    by (simp add: term_in_range_def resolved_out_def term_span_def Let_def)
qed

definition push_resolved ::
  "fork \<Rightarrow> local_fs_blob_store \<Rightarrow> resolved \<Rightarrow> (string, fetch_info list) hashmap \<Rightarrow> (string, fetch_info list) hashmap" where
  "push_resolved F c t = push_fetch_info (hex F (rv_xorb t))
     \<lparr>fi_range = \<lparr>cr_start = rv_start t, cr_end = rv_end t\<rparr>,
      fi_url = lf_public_base c @ ''/api/v1/xorb-data/'' @ hex F (rv_xorb t),
      fi_url_range = \<lparr>br_start = rv_byte_start t, br_end = rv_byte_end t\<rparr>\<rparr>"

lemma presign_terms_local:
  "presign_terms F (local_fs_ops ovf F c) ts terms fi s =
     (Ok (terms @ map (\<lambda>t. \<lparr>rt_hash = hex F (rv_xorb t), rt_unpacked_length = rv_unpacked t,
                            rt_range = \<lparr>cr_start = rv_start t, cr_end = rv_end t\<rparr>\<rparr>) ts,
          fold (push_resolved F c) ts fi), s)"
  by (induction ts arbitrary: terms fi)
    (simp_all add: local_fs_ops_def local_fs_presign_get_def Let_def push_resolved_def)

lemma presign_resolved:
  "presign_terms F (local_fs_ops ovf F c) (map (resolved_out xorbs) ts) [] [] s =
     (Ok (map (term_out F) ts, fold (push_resolved F c) (map (resolved_out xorbs) ts) []), s)"
  unfolding presign_terms_local by (simp add: resolved_out_def term_out_def)

lemma push_fetch_info_get:
  "hm_get (push_fetch_info k e m) k' =
     (if k' = k then Some ((case hm_get m k of None \<Rightarrow> [] | Some es \<Rightarrow> es) @ [e]) else hm_get m k')"
  by (simp add: push_fetch_info_def)

definition entries_of :: "(string, fetch_info list) hashmap \<Rightarrow> string \<Rightarrow> fetch_info list" where
  "entries_of fi k = (case hm_get fi k of None \<Rightarrow> [] | Some es \<Rightarrow> es)"

lemma fold_push_resolved:
  assumes "hex_ok F"
  shows "entries_of (fold (push_resolved F c) (map (resolved_out xorbs) ts) fi) (hex F x) =
       entries_of fi (hex F x) @ map (fetch_out F c xorbs) (filter (\<lambda>t. ft_xorb t = x) ts)"
  by (induction ts arbitrary: fi)
    (auto simp: entries_of_def push_resolved_def resolved_out_def fetch_out_def push_fetch_info_get hex_inj [OF assms])

lemma fold_push_ok: "hm_ok fi \<Longrightarrow> hm_ok (fold (push_resolved F c) ts fi)"
  by (induction ts arbitrary: fi) (auto simp: push_resolved_def push_fetch_info_def intro: hm.ok_insert)

lemma term_span_inside:
  assumes "index_agrees F C ix" "validate_wf F" "term_in_range (ix_xorbs ix) t" "ft_start t < ft_end t"
  shows "\<exists>b. C (ft_xorb t) = Some b \<and>
     unat (br_start (term_span (ix_xorbs ix) t)) \<le> unat (br_end (term_span (ix_xorbs ix) t)) \<and>
     unat (br_end (term_span (ix_xorbs ix) t)) < length b"
proof -
  obtain m where m: "hm_get (ix_xorbs ix) (ft_xorb t) = Some m"
    using assms(3) by (auto simp: term_in_range_def split: option.splits)
  obtain b info where b: "C (ft_xorb t) = Some b" "validate_xorb_object F b (ft_xorb t) = Ok (Some info)"
      "m = from_info info" and wf: "info_wf info (length b)"
    by (rule agrees_footer [OF assms(1,2) m])
  let ?o = "xi_chunk_boundary_offsets info" and ?e = "unat (ft_end t) - 1"
  have e: "unat (ft_start t) \<le> ?e" "?e < length ?o"
    using assms(3,4) m b(3) by (auto simp: term_in_range_def word_less_nat_alt from_info_def)
  have step: "chunk_start ?o i < unat (?o ! i)" "unat (?o ! i) \<le> length b" if "i < length ?o" for i
    using wf that by (auto simp: info_wf_def)
  have mono: "chunk_start ?o i \<le> chunk_start ?o (i + k)" if "i + k < length ?o" for i k
    using that
  proof (induction k)
    case (Suc k)
    then show ?case using step(1) [of "i + k"] by (simp add: chunk_start_def)
  qed simp
  have "chunk_start ?o (unat (ft_start t)) < unat (?o ! ?e)"
    using mono [of "unat (ft_start t)" "?e - unat (ft_start t)"] step(1) [OF e(2)] e
    unfolding le_add_diff_inverse [OF e(1)] by linarith
  moreover have small: "unat (?o ! ?e) < 2 ^ 64" using unat_u32_less [of "?o ! ?e"] by simp
  moreover have eq: "term_span (ix_xorbs ix) t =
      \<lparr>br_start = of_nat (chunk_start ?o (unat (ft_start t))), br_end = of_nat (unat (?o ! ?e) - 1)\<rparr>"
    by (simp add: term_span_def m b(3) from_info_def Let_def)
  moreover have "unat (of_nat (unat (?o ! ?e) - 1) :: u64) = unat (?o ! ?e) - 1"
    by (rule unat_of_nat_u64) (use small in linarith)
  ultimately show ?thesis
    using b(1) step(2) [OF e(2)] unat_of_nat_u64 [of "chunk_start ?o (unat (ft_start t))"]
    unfolding eq byte_span.simps by fastforce
qed

text \<open>A registered file whose terms lie in their xorbs is answered with its terms and their byte spans.\<close>

lemma reconstruct_registered:
  assumes "served to_str ovf F c st" and "validate_wf F" and f: "from_hex F hh = Some fh" "hm_get (ix_files (as_index st)) fh = Some f"
    and range: "\<forall>t \<in> set (fr_terms f). term_in_range (ix_xorbs (as_index st)) t"
  defines "fi \<equiv> fold (push_resolved F c) (map (resolved_out (ix_xorbs (as_index st))) (fr_terms f)) []"
  shows "reconstruct ovf F (local_fs_ops ovf F c) hh st =
      (Ok (ok_json (json_of_recon_response
        \<lparr>rr_offset_into_first_range = 0, rr_terms = map (term_out F) (fr_terms f), rr_fetch_info = fi\<rparr>)), st)"
    and "entries_of fi (hex F x) = map (fetch_out F c (ix_xorbs (as_index st))) (filter (\<lambda>t. ft_xorb t = x) (fr_terms f))"
proof -
  note s = served_facts [OF assms(1,2)]
  have dom: "\<forall>t \<in> set (fr_terms f). ft_xorb t \<in> dom (hm_get (ix_xorbs (as_index st)))"
    using s(3) referencedI [OF f(2)] by (auto simp: server_inv_def refs_ok_def)
  show "reconstruct ovf F (local_fs_ops ovf F c) hh st =
      (Ok (ok_json (json_of_recon_response
        \<lparr>rr_offset_into_first_range = 0, rr_terms = map (term_out F) (fr_terms f), rr_fetch_info = fi\<rparr>)), st)"
    using resolve_terms_cases [OF agrees_footers_ok [OF s(4) assms(2)] dom, of ovf] f served_np [OF assms(1)] range
    by (simp add: reconstruct_def presign_resolved fi_def)
  show "entries_of fi (hex F x) = map (fetch_out F c (ix_xorbs (as_index st))) (filter (\<lambda>t. ft_xorb t = x) (fr_terms f))"
    using fold_push_resolved [OF s(5), of c "ix_xorbs (as_index st)" "fr_terms f" "[]"] by (simp add: fi_def entries_of_def)
qed

text \<open>
  C6. The reconstruction endpoint on every branch. A malformed hash gets 400 and an unknown file
  404; for a registered file whose terms lie in their xorbs the answer lists exactly the
  registered terms in order, and for each xorb exactly the byte spans of that xorb's terms in order, each
  span the stored bytes of the term's chunks; a term outside its xorb makes the handler panic under
  the lock.
\<close>

theorem reconstruct_spec:
  assumes "served to_str ovf F c st" and "validate_wf F"
  defines "xorbs \<equiv> ix_xorbs (as_index st)"
  shows "case from_hex F hh of
       None \<Rightarrow> reconstruct ovf F (local_fs_ops ovf F c) hh st = (Ok (with_text 400 ''malformed file hash''), st)
     | Some fh \<Rightarrow>
        (case hm_get (ix_files (as_index st)) fh of
           None \<Rightarrow> reconstruct ovf F (local_fs_ops ovf F c) hh st = (Ok (status_only 404), st)
         | Some f \<Rightarrow>
             if \<forall>t \<in> set (fr_terms f). term_in_range xorbs t
             then \<exists>fi. reconstruct ovf F (local_fs_ops ovf F c) hh st =
                 (Ok (ok_json (json_of_recon_response
                    \<lparr>rr_offset_into_first_range = 0, rr_terms = map (term_out F) (fr_terms f), rr_fetch_info = fi\<rparr>)), st) \<and>
               (\<forall>x. entries_of fi (hex F x) = map (fetch_out F c xorbs) (filter (\<lambda>t. ft_xorb t = x) (fr_terms f))) \<and>
               (\<forall>t \<in> set (fr_terms f). ft_start t < ft_end t \<longrightarrow>
                  (\<exists>b. local_fs_contents F c (as_blob st) (ft_xorb t) = Some b \<and>
                     unat (br_start (term_span xorbs t)) \<le> unat (br_end (term_span xorbs t)) \<and>
                     unat (br_end (term_span xorbs t)) < length b))
             else reconstruct ovf F (local_fs_ops ovf F c) hh st = (Panic, st\<lparr>as_poisoned := True\<rparr>))"
proof (cases "\<exists>fh f. from_hex F hh = Some fh \<and> hm_get (ix_files (as_index st)) fh = Some f")
  case False
  then show ?thesis using served_np [OF assms(1)] by (auto simp: reconstruct_def split: option.splits)
next
  case True
  then obtain fh f where f: "from_hex F hh = Some fh" "hm_get (ix_files (as_index st)) fh = Some f" by blast
  note s = served_facts [OF assms(1,2)]
  have dom: "\<forall>t \<in> set (fr_terms f). ft_xorb t \<in> dom (hm_get xorbs)"
    using s(3) referencedI [OF f(2)] by (auto simp: server_inv_def refs_ok_def xorbs_def)
  have rt: "resolve_terms ovf xorbs (fr_terms f) =
      (if \<forall>t \<in> set (fr_terms f). term_in_range xorbs t then Ok (Inr (map (resolved_out xorbs) (fr_terms f))) else Panic)"
    by (rule resolve_terms_cases [OF agrees_footers_ok [OF s(4) assms(2), folded xorbs_def] dom])
  show ?thesis
  proof (cases "\<forall>t \<in> set (fr_terms f). term_in_range xorbs t")
    case False
    then have "resolve_terms ovf xorbs (fr_terms f) = Panic" using rt by argo
    then have "reconstruct ovf F (local_fs_ops ovf F c) hh st = (Panic, st\<lparr>as_poisoned := True\<rparr>)"
      using f served_np [OF assms(1)] by (simp add: reconstruct_def xorbs_def)
    then show ?thesis using f False by auto
  next
    case True
    note rr = reconstruct_registered [OF assms(1,2) f True [unfolded xorbs_def], folded xorbs_def]
    have "\<forall>t \<in> set (fr_terms f). ft_start t < ft_end t \<longrightarrow>
        (\<exists>b. local_fs_contents F c (as_blob st) (ft_xorb t) = Some b \<and>
           unat (br_start (term_span xorbs t)) \<le> unat (br_end (term_span xorbs t)) \<and>
           unat (br_end (term_span xorbs t)) < length b)"
      using term_span_inside [OF s(4) assms(2), folded xorbs_def] True by blast
    then show ?thesis using f True rr by auto
  qed
qed

subsection \<open>The sample server with a registered file\<close>

lemma sample_st1_footer: "hm_get (ix_xorbs (as_index sample_st1)) sample_xorb = Some (from_info sample_xorb_info)"
proof -
  obtain m where m: "hm_get (ix_xorbs (as_index sample_st1)) sample_xorb = Some m" using sample_st1_index by blast
  show ?thesis
    by (rule agrees_footer [OF served_facts(4) [OF sample_served1 sample_validate_wf] sample_validate_wf m])
      (use m sample_put(3) sample_gate in \<open>simp del: sample_fork_simps\<close>)
qed

lemma sample_register_terms:
  "register_terms sample_fork (ix_xorbs (as_index sample_st1)) (rf_terms sample_file) = Inr sample_terms"
  using sample_hash_roundtrip sample_st1_index
  by (auto simp: sample_file_def sample_terms_def simp del: sample_fork_simps)

lemma sample_register:
  "register_file sample_fork sample_file sample_st1 = (fst (register_file sample_fork sample_file sample_st1), sample_st2)"
  "as_blob sample_st2 = as_blob sample_st1" "as_poisoned sample_st2 = False"
  "ix_xorbs (as_index sample_st2) = ix_xorbs (as_index sample_st1)"
  "ix_chunk_index (as_index sample_st2) = ix_chunk_index (as_index sample_st1)"
  "ix_files (as_index sample_st2) = hm_insert 7 \<lparr>fr_total_size = 3, fr_terms = sample_terms\<rparr> (ix_files (as_index sample_st1))"
  using sample_hash_roundtrip [of 7] sample_put(2) sample_register_terms
  by (simp_all add: sample_st2_def register_file_def sample_file_def Let_def del: sample_fork_simps)

lemma sample_served2: "served Some True sample_fork sample_store sample_st2"
  by (rule served_step [OF sample_served1, of "CRegisterFile sample_file"]) (use sample_register(1,3) in simp_all)

lemma sample_in_range: "\<forall>t \<in> set sample_terms. term_in_range (ix_xorbs (as_index sample_st2)) t"
  using sample_st1_footer
  by (simp add: sample_terms_def term_in_range_def sample_register(4) from_info_def sample_xorb_info_def)

theorem reconstruct_spec_witness:
  "\<exists>fi. reconstruct True sample_fork sample_ops (hex sample_fork 7) sample_st2 =
     (Ok (ok_json (json_of_recon_response
        \<lparr>rr_offset_into_first_range = 0, rr_terms = map (term_out sample_fork) sample_terms, rr_fetch_info = fi\<rparr>)), sample_st2) \<and>
     map fi_url_range (entries_of fi (hex sample_fork sample_xorb)) = [\<lparr>br_start = 0, br_end = 4\<rparr>]"
proof -
  have f: "hm_get (ix_files (as_index sample_st2)) 7 = Some \<lparr>fr_total_size = 3, fr_terms = sample_terms\<rparr>"
    by (simp add: sample_register(6))
  have span: "map (\<lambda>t. fi_url_range (fetch_out sample_fork sample_store (ix_xorbs (as_index sample_st2)) t)) sample_terms =
      [\<lparr>br_start = 0, br_end = 4\<rparr>]"
    using sample_st1_footer
    by (simp add: fetch_out_def term_span_def sample_terms_def sample_register(4) from_info_def sample_xorb_info_def
        chunk_start_def)
  have all: "filter (\<lambda>t. ft_xorb t = sample_xorb) sample_terms = sample_terms"
    by (simp add: sample_terms_def)
  from reconstruct_spec [OF sample_served2 sample_validate_wf, of "hex sample_fork 7"] sample_in_range
  obtain fi where fi: "reconstruct True sample_fork sample_ops (hex sample_fork 7) sample_st2 =
     (Ok (ok_json (json_of_recon_response
        \<lparr>rr_offset_into_first_range = 0, rr_terms = map (term_out sample_fork) sample_terms, rr_fetch_info = fi\<rparr>)), sample_st2)"
    "\<forall>x. entries_of fi (hex sample_fork x) =
       map (fetch_out sample_fork sample_store (ix_xorbs (as_index sample_st2))) (filter (\<lambda>t. ft_xorb t = x) sample_terms)"
    unfolding sample_hash_roundtrip option.simps f file_record.simps by auto
  then show ?thesis using span all by (intro exI [of _ fi]) (simp add: comp_def del: sample_fork_simps)
qed

section \<open>A term outside its xorb\<close>

text \<open>
  C18. Registration does not compare a term's chunk indices with its xorb. On a running server (started on an empty local
  store that does not fail), asking for a file with such a term panics while the index is locked, and from then on every
  request that reaches the index panics, whatever else is requested in between: reconstructions,
  deduplication queries, registrations, listings, collections, scrubs and every upload that creates its object.
\<close>

theorem out_of_range_term_poisons:
  assumes "served to_str ovf F c st" and "validate_wf F"
    and "from_hex F hh = Some fh" and "hm_get (ix_files (as_index st)) fh = Some f"
    and "t \<in> set (fr_terms f)" and "\<not> term_in_range (ix_xorbs (as_index st)) t"
    and "reconstruct ovf F (local_fs_ops ovf F c) hh st = (r, st1)"
    and "reachable to_str ovf F (local_fs_ops ovf F c) st1 st2"
    and "from_hex F hh2 = Some fh2" and "from_hex F (rf_file_hash req) = Some fh3"
    and "validate_xorb_object F body fh2 = Ok (Some info)"
  shows "r = Panic \<and>
     fst (reconstruct ovf F (local_fs_ops ovf F c) hh2 st2) = Panic \<and>
     fst (global_dedup F hh2 st2) = Panic \<and>
     fst (register_file F req st2) = Panic \<and>
     fst (list_entries F vol st2) = Panic \<and>
     fst (test_gc (local_fs_ops ovf F c) st2) = Panic \<and>
     fst (test_scrub F (local_fs_ops ovf F c) st2) = Panic \<and>
     (fst (local_fs_put F c fh2 body (as_blob st2)) = Ok True \<longrightarrow>
        fst (put_xorb ovf F (local_fs_ops ovf F c) hh2 body st2) = Panic)"
proof -
  note s = served_facts [OF assms(1,2)]
  have "\<forall>t \<in> set (fr_terms f). ft_xorb t \<in> dom (hm_get (ix_xorbs (as_index st)))"
    using s(3) referencedI [OF assms(4)] by (auto simp: server_inv_def refs_ok_def)
  from resolve_terms_cases [OF agrees_footers_ok [OF s(4) assms(2)] this, of ovf]
  have "resolve_terms ovf (ix_xorbs (as_index st)) (fr_terms f) = Panic"
    using assms(5,6) by (metis (no_types, lifting))
  then have r: "r = Panic" "as_poisoned st1"
    using assms(3,4,7) served_np [OF assms(1)] by (auto simp: reconstruct_def)
  have np: "as_poisoned st2" using assms(8) r(2)
    by (induction rule: reachable.induct) (auto dest: handle_poison_mono)
  then have "fst (put_xorb ovf F (local_fs_ops ovf F c) hh2 body st2) = Panic"
    if "fst (local_fs_put F c fh2 body (as_blob st2)) = Ok True"
    using that assms(9,11) by (cases "local_fs_put F c fh2 body (as_blob st2)") (simp add: put_xorb_def local_fs_ops_def)
  then show ?thesis
    using np r(1) assms(9,10)
    by (simp add: reconstruct_def global_dedup_def register_file_def list_entries_def test_gc_def test_scrub_def)
qed

definition bad_file :: register_file_req where
  "bad_file = sample_file\<lparr>rf_file_hash := hex sample_fork 9,
     rf_terms := [\<lparr>rg_xorb = hex sample_fork sample_xorb, rg_start = 0, rg_end = 3, rg_unpacked_length = 3\<rparr>]\<rparr>"

definition bad_st :: "fs app_state" where
  "bad_st = snd (register_file sample_fork bad_file sample_st1)"

lemma bad_register:
  "register_file sample_fork bad_file sample_st1 =
     (fst (register_file sample_fork bad_file sample_st1), bad_st)"
  "as_poisoned bad_st = False" "ix_xorbs (as_index bad_st) = ix_xorbs (as_index sample_st1)"
  "hm_get (ix_files (as_index bad_st)) 9 = Some \<lparr>fr_total_size = 3,
     fr_terms = [\<lparr>ft_xorb = sample_xorb, ft_start = 0, ft_end = 3, ft_unpacked_length = 3\<rparr>]\<rparr>"
  using sample_hash_roundtrip sample_put(2) sample_st1_index
  by (auto simp: bad_st_def register_file_def bad_file_def sample_file_def Let_def simp del: sample_fork_simps)

lemma bad_served: "served Some True sample_fork sample_store bad_st"
  by (rule served_step [OF sample_served1, of "CRegisterFile bad_file"]) (use bad_register(1,2) in simp_all)

text \<open>The request that registers the three-chunk range of a two-chunk xorb is accepted.\<close>

theorem out_of_range_term_poisons_witness:
  "fst (reconstruct True sample_fork sample_ops (hex sample_fork 9) bad_st) = Panic \<and>
   fst (list_entries sample_fork ''vol'' (snd (reconstruct True sample_fork sample_ops (hex sample_fork 9) bad_st))) = Panic"
proof -
  let ?t = "\<lparr>ft_xorb = sample_xorb, ft_start = 0, ft_end = 3, ft_unpacked_length = 3\<rparr>"
  have bad: "\<not> term_in_range (ix_xorbs (as_index bad_st)) ?t"
    using sample_st1_footer by (simp add: term_in_range_def bad_register(3) from_info_def sample_xorb_info_def)
  have req: "from_hex sample_fork (rf_file_hash sample_file) = Some 7"
    using sample_hash_roundtrip [of 7] by (simp add: sample_file_def del: sample_fork_simps)
  obtain r st1 where run: "reconstruct True sample_fork sample_ops (hex sample_fork 9) bad_st = (r, st1)" by fastforce
  have "r = Panic \<and> fst (list_entries sample_fork ''vol'' st1) = Panic"
    using out_of_range_term_poisons [OF bad_served sample_validate_wf sample_hash_roundtrip bad_register(4) _ bad run
        reachable.init sample_hash_roundtrip req sample_gate, where vol = "''vol''"] by auto
  then show ?thesis using run by simp
qed

end
