(* ===== verification/Server_Maint.thy ===== *)
theory Server_Maint
  imports Server_Props
begin

text \<open>
  Maintenance and read endpoints over the local store: garbage collection, scrubbing, ranged reads,
  deduplication queries and catalog listings.
\<close>

section \<open>Garbage collection\<close>

text \<open>What the sweep of a mark that may be out of date does on a store that does not fail.\<close>

context blob_store
begin

lemma stale_sweep:
  "invar (as_blob st) \<Longrightarrow> healthy (as_blob st) \<Longrightarrow> \<not> as_poisoned st \<Longrightarrow> gc_sweep B refd xs n st = (r, st') \<Longrightarrow>
     r = Ok (n + of_nat (length (filter (\<lambda>x. x \<notin> refd) xs))) \<and> \<not> as_poisoned st' \<and>
     ix_files (as_index st') = ix_files (as_index st) \<and>
     hm_get (ix_xorbs (as_index st')) = (\<lambda>x. if x \<in> set xs - refd then None else hm_get (ix_xorbs (as_index st)) x) \<and>
     contents (as_blob st') = (\<lambda>x. if x \<in> set xs - refd then None else contents (as_blob st) x)"
proof (induction xs arbitrary: n st)
  case Nil
  then show ?case by auto
next
  case (Cons x xs)
  show ?case
  proof (cases "x \<in> refd")
    case True
    then show ?thesis using Cons by (auto simp: fun_eq_iff)
  next
    case False
    obtain d s1 where del: "bs_delete B x (as_blob st) = (d, s1)" by fastforce
    let ?st = "st\<lparr>as_blob := s1, as_index := index_evict x (as_index st)\<rparr>"
    have s1: "invar s1" "healthy s1" "d = Ok ()" "contents s1 = (contents (as_blob st))(x := None)"
      using delete_law [OF Cons.prems(1) del] delete_healthy_law [OF Cons.prems(1,2) del] by auto
    have "gc_sweep B refd xs (n + 1) ?st = (r, st')" using Cons.prems(3,4) False del s1(3) by simp
    from Cons.IH [OF _ _ _ this] s1 Cons.prems(3) False show ?thesis by (auto simp: fun_eq_iff)
  qed
qed

text \<open>Under failures a sweep removes some of the objects that are not marked, and touches no other.\<close>

lemma sweep_contents:
  "gc_sweep B refd xs n st = (r, st') \<Longrightarrow> invar (as_blob st) \<Longrightarrow>
     contents (as_blob st') x \<in> {contents (as_blob st) x, None} \<and>
     (x \<in> refd \<or> x \<notin> set xs \<longrightarrow> contents (as_blob st') x = contents (as_blob st) x)"
proof (induction xs arbitrary: n st)
  case (Cons y ys)
  show ?case
  proof (cases "y \<in> refd")
    case True
    then show ?thesis using Cons by auto
  next
    case False
    obtain d s1 where del: "bs_delete B y (as_blob st) = (d, s1)" by fastforce
    note law = delete_law [OF Cons.prems(2) del]
    show ?thesis
    proof (cases "as_poisoned st")
      case True
      then have "as_blob st' = s1" using Cons.prems(1) False del by (cases d) auto
      then show ?thesis using law False by (auto split: if_splits)
    next
      case False': False
      let ?st = "st\<lparr>as_blob := s1, as_index := index_evict y (as_index st)\<rparr>"
      have "gc_sweep B refd ys (n + 1) ?st = (r, st')" using Cons.prems(1) False False' del law by (cases d) auto
      from Cons.IH [OF this] law False show ?thesis by (auto split: if_splits)
    qed
  qed
qed simp

end

text \<open>
  C10. A collection, whatever deletions fail: the index loses exactly the xorbs that no registered file refers to, files and
  catalog are kept, and the answer is the number of those xorbs. Of the store only their objects can go: an object of
  another xorb is untouched, and an object of one of them is deleted or, where its deletion failed, still there (it is
  counted as swept all the same). On a store that does not fail all of them are gone.
\<close>

theorem test_gc_exact:
  assumes "local_fs_inv F c (as_blob st)" and "server_inv F (local_fs_contents F c (as_blob st)) st" and "\<not> as_poisoned st"
    and "test_gc (local_fs_ops ovf F c) st = (r, st')"
  defines "R \<equiv> referenced (as_index st)" and "K \<equiv> dom (hm_get (ix_xorbs (as_index st)))"
    and "C \<equiv> local_fs_contents F c (as_blob st)" and "C' \<equiv> local_fs_contents F c (as_blob st')"
  shows "hm_get (ix_xorbs (as_index st')) = hm_get (ix_xorbs (as_index st)) |` R \<and>
     ix_files (as_index st') = ix_files (as_index st) \<and> ix_catalog (as_index st') = ix_catalog (as_index st) \<and>
     r = Ok (ok_json (JObj [(''swept'', JNum (of_nat (card (K - R))))])) \<and>
     (\<forall>x. x \<notin> K - R \<longrightarrow> C' x = C x) \<and> (\<forall>x \<in> K - R. C' x = C x \<or> C' x = None) \<and>
     (local_fs_healthy (as_blob st) \<longrightarrow> (\<forall>x \<in> K - R. C' x = None))"
proof -
  have good: "lfs.good F c F st" using assms(1,2) by (simp add: lfs.good_def)
  have ok: "index_ok (as_index st)" using assms(2) by (simp add: server_inv_def)
  have K: "set (hm_keys (ix_xorbs (as_index st))) = K" unfolding K_def by (rule hm.keys_dom)
  note g = lfs.test_gc_good [OF good assms(3,4), folded R_def K_def]
  obtain u st1 where sw: "gc_sweep (local_fs_ops ovf F c) R (hm_keys (ix_xorbs (as_index st))) 0 st = (u, st1)" by fastforce
  then have st1: "st' = st1"
    using assms(3,4) gc_referenced_eq [OF ok] by (auto simp: test_gc_def R_def split: res.splits)
  note c = lfs.sweep_contents [OF sw assms(1), folded st1, folded C_def C'_def]
  have "C' x = C x" if "x \<notin> K - R" for x using c [of x] K that by auto
  moreover have "C' x = C x \<or> C' x = None" for x using c [of x] by auto
  moreover have "C' x = None" if "local_fs_healthy (as_blob st)" "x \<in> K - R" for x
    using lfs.stale_sweep [OF assms(1) that(1) assms(3) sw] that(2) K by (simp add: C'_def st1)
  ultimately show ?thesis using g by simp
qed

definition orphan_st :: "fs app_state" where
  "orphan_st = snd (test_gc sample_ops sample_st1)"

theorem test_gc_exact_witness:
  "local_fs_contents sample_fork sample_store (as_blob orphan_st) sample_xorb = None \<and>
   hm_get (ix_xorbs (as_index orphan_st)) sample_xorb = None"
proof -
  have "referenced (as_index sample_st1) = {}"
    using sample_st1_files by (simp add: referenced_def)
  moreover have "test_gc sample_ops sample_st1 = (fst (test_gc sample_ops sample_st1), orphan_st)"
    by (simp add: orphan_st_def)
  ultimately show ?thesis
    using test_gc_exact [OF served_facts(1,3) [OF sample_served1 sample_validate_wf] served_np [OF sample_served1]]
      served_facts(2) [OF sample_served1 sample_validate_wf] sample_st1_index by fastforce
qed

lemma resolve_terms_cong:
  "(\<And>t. t \<in> set ts \<Longrightarrow> hm_get xorbs' (ft_xorb t) = hm_get xorbs (ft_xorb t)) \<Longrightarrow>
     resolve_terms ovf xorbs' ts = resolve_terms ovf xorbs ts"
  by (induction ts) (simp_all split: option.splits)

text \<open>
  C9. A collection never changes what a registered file reconstructs to: for any consistent state,
  and whatever deletions fail, every reconstruction request is answered as before, and the objects
  behind it are still the same bytes.
\<close>

theorem gc_keeps_reconstructions:
  assumes "validate_wf F" and "local_fs_inv F c (as_blob st)" and "\<not> as_poisoned st"
    and "server_inv F (local_fs_contents F c (as_blob st)) st"
    and "test_gc (local_fs_ops ovf F c) st = (r, st')"
  shows "fst (reconstruct ovf F (local_fs_ops ovf F c) hh st') = fst (reconstruct ovf F (local_fs_ops ovf F c) hh st) \<and>
     (\<forall>x \<in> referenced (as_index st). local_fs_contents F c (as_blob st') x = local_fs_contents F c (as_blob st) x)"
proof -
  have good: "lfs.good F c F st" using assms(2,4) by (simp add: lfs.good_def)
  note g = lfs.test_gc_good [OF good assms(3,5)]
  have res: "resolve_terms ovf (ix_xorbs (as_index st')) (fr_terms f) = resolve_terms ovf (ix_xorbs (as_index st)) (fr_terms f)"
    if "hm_get (ix_files (as_index st)) fh = Some f" for fh f
  proof (rule resolve_terms_cong)
    fix t assume "t \<in> set (fr_terms f)"
    then show "hm_get (ix_xorbs (as_index st')) (ft_xorb t) = hm_get (ix_xorbs (as_index st)) (ft_xorb t)"
      using g referencedI [OF that] by (simp add: restrict_map_def)
  qed
  have files: "ix_files (as_index st') = ix_files (as_index st)" and np: "\<not> as_poisoned st'" using g by simp_all
  have "fst (reconstruct ovf F (local_fs_ops ovf F c) hh st') = fst (reconstruct ovf F (local_fs_ops ovf F c) hh st)"
    unfolding reconstruct_def files presign_terms_local using np assms(3) res
    by (auto split: option.splits res.splits sum.splits)
  then show ?thesis using g by blast
qed

theorem gc_keeps_reconstructions_witness:
  "fst (reconstruct True sample_fork sample_ops (hex sample_fork 7) (snd (test_gc sample_ops sample_st2))) =
   fst (reconstruct True sample_fork sample_ops (hex sample_fork 7) sample_st2)"
  using gc_keeps_reconstructions [OF sample_validate_wf served_facts(1) [OF sample_served2 sample_validate_wf]
      served_np [OF sample_served2] served_facts(3) [OF sample_served2 sample_validate_wf],
      of True "fst (test_gc sample_ops sample_st2)" "snd (test_gc sample_ops sample_st2)" "hex sample_fork 7"]
  by simp

section \<open>Scrubbing\<close>

text \<open>The indexed xorbs whose stored object is missing or fails the gate.\<close>

definition damaged :: "fork \<Rightarrow> (hash \<Rightarrow> bytes option) \<Rightarrow> index_store \<Rightarrow> hash set" where
  "damaged F C ix = {x \<in> dom (hm_get (ix_xorbs ix)). \<not> (\<exists>b. C x = Some b \<and> valid_xorb F x b)}"

text \<open>
  C11. A scrub visits every indexed xorb and changes nothing. Whatever calls fail, it never
  overlooks a missing or damaged object; on a store that does not fail, and if the fork accepts no empty object as a xorb, it
  reports exactly those. (Of an empty object the scrub asks for the bytes 0 to 0, so what it validates is the object.)
  The store's objects are arbitrary here: damage may have happened outside the server.
\<close>

theorem test_scrub_spec:
  assumes "validate_wf F" and "local_fs_inv F c (as_blob st)" and "index_ok (as_index st)" and "\<not> as_poisoned st"
    and "test_scrub F (local_fs_ops ovf F c) st = (r, st')"
  defines "C \<equiv> local_fs_contents F c (as_blob st)"
  shows "as_index st' = as_index st \<and> local_fs_contents F c (as_blob st') = C \<and>
     (\<exists>k. r = Ok (ok_json (JObj [(''checked'', JNum (of_nat (card (dom (hm_get (ix_xorbs (as_index st))))))),
            (''quarantined'', JNum (of_nat k))])) \<and>
        card (damaged F C (as_index st)) \<le> k \<and> k \<le> card (dom (hm_get (ix_xorbs (as_index st)))) \<and>
        (local_fs_healthy (as_blob st) \<and> (\<forall>x. \<not> valid_xorb F x []) \<longrightarrow> k = card (damaged F C (as_index st))))"
proof -
  let ?ks = "hm_keys (ix_xorbs (as_index st))" and ?ok = "\<lambda>x. \<exists>b. C x = Some b \<and> valid_xorb F x b"
  have dist: "distinct ?ks" using assms(3) by (simp add: index_ok_def hm.keys_distinct)
  then have n: "length ?ks = card (dom (hm_get (ix_xorbs (as_index st))))" by (metis distinct_card hm.keys_dom)
  have "length (filter (\<lambda>x. \<not> ?ok x) ?ks) = card (set (filter (\<lambda>x. \<not> ?ok x) ?ks))"
    by (rule distinct_card [symmetric]) (simp add: dist)
  also have "set (filter (\<lambda>x. \<not> ?ok x) ?ks) = damaged F C (as_index st)" by (auto simp: damaged_def)
  finally have d: "length (filter (\<lambda>x. \<not> ?ok x) ?ks) = card (damaged F C (as_index st))" .
  obtain u s1 where lp: "scrub_loop F (local_fs_ops ovf F c) ?ks 0 0 (as_blob st) = (u, s1)" by fastforce
  from lfs.scrub_loop_good [OF assms(2,1) lp, of ?ok] obtain k where
    k: "local_fs_contents F c s1 = C" "u = Ok (of_nat (length ?ks), of_nat k)"
      "length (filter (\<lambda>x. \<not> ?ok x) ?ks) \<le> k" "k \<le> length ?ks"
      "local_fs_healthy (as_blob st) \<and> (\<forall>x \<in> set ?ks. \<not> valid_xorb F x []) \<longrightarrow>
         k = length (filter (\<lambda>x. \<not> ?ok x) ?ks)"
    by (auto simp: C_def)
  have "st' = st\<lparr>as_blob := s1\<rparr>" and
    r: "r = Ok (ok_json (JObj [(''checked'', JNum (of_nat (length ?ks))), (''quarantined'', JNum (of_nat k))]))"
    using assms(4,5) lp k(2) by (auto simp: test_scrub_def)
  then show ?thesis using k n d by auto
qed

theorem test_scrub_spec_witness:
  "fst (test_scrub sample_fork sample_ops sample_st1) =
     Ok (ok_json (JObj [(''checked'', JNum 1), (''quarantined'', JNum 0)]))"
proof -
  note f = served_facts [OF sample_served1 sample_validate_wf]
  have ok: "index_ok (as_index sample_st1)" using f(3) by (simp add: server_inv_def)
  have dom: "dom (hm_get (ix_xorbs (as_index sample_st1))) = {sample_xorb}"
    using f(4) sample_put(3) by (simp add: index_agrees_def)
  have dam: "damaged sample_fork (local_fs_contents sample_fork sample_store (as_blob sample_st1)) (as_index sample_st1) = {}"
    using sample_gate by (auto simp: damaged_def dom sample_put(3) valid_xorb_def simp del: sample_fork_simps)
  obtain r st' where run: "test_scrub sample_fork sample_ops sample_st1 = (r, st')" by fastforce
  from test_scrub_spec [OF sample_validate_wf f(1) ok served_np [OF sample_served1] run] f(2) sample_empty_invalid
  have "r = Ok (ok_json (JObj [(''checked'', JNum 1), (''quarantined'', JNum 0)]))"
    unfolding dom dam by auto
  then show ?thesis using run by simp
qed

section \<open>Ranged reads\<close>

lemma local_fs_head_healthy:
  "hex_ok F \<Longrightarrow> local_fs_healthy f \<Longrightarrow> local_fs_head F c h f =
     (Ok (map_option (\<lambda>b. \<lparr>om_len = of_nat (length b)\<rparr>) (local_fs_contents F c f h)), fs_tick f)"
  by (simp add: local_fs_head_def fs_metadata_def fs_call_def healthy_event split: option.splits)

lemma local_fs_get_healthy:
  "hex_ok F \<Longrightarrow> local_fs_healthy f \<Longrightarrow> local_fs_contents F c f h = Some b \<Longrightarrow> j < - 1 \<Longrightarrow>
     local_fs_get_range ovf F c h i j f = (Ok (byte_range b i j), fs_tick f)"
  using byte_range_alt [of j b i]
  by (simp add: local_fs_get_range_def fs_read_def fs_call_def healthy_event Let_def)

text \<open>
  C13. Reading a xorb on every branch, whatever the store's calls do, and nothing is changed: 400 for a malformed hash; 404 for an object that is
  not in the store, or whose length could not be read; 416 for a range that \<open>parse_range\<close> refuses; 206 with exactly the
  bytes of the accepted range and a \<open>Content-Range\<close> that names it; or 500 when the bytes could not be read. On
  a store that does not fail an object is never answered 404 or 500.
\<close>

theorem xorb_data_spec:
  assumes "local_fs_inv F c (as_blob st)" and "xorb_data to_str F (local_fs_ops ovf F c) hh rng st = (r, st')"
  defines "C \<equiv> local_fs_contents F c (as_blob st)"
  shows "as_index st' = as_index st \<and> as_metrics st' = as_metrics st \<and> local_fs_contents F c (as_blob st') = C \<and>
     (case from_hex F hh of
        None \<Rightarrow> r = Ok (with_text 400 ''malformed xorb hash'')
      | Some h \<Rightarrow>
          r = Ok (status_only 404) \<and> (C h = None \<or> \<not> local_fs_healthy (as_blob st)) \<or>
          (\<exists>b. C h = Some b \<and>
             (case parse_range to_str rng (of_nat (length b)) of
                None \<Rightarrow> r = Ok (status_only 416)
              | Some (i, j) \<Rightarrow>
                  (\<exists>resp. r = Ok resp \<and> rs_status resp = 206 \<and> rs_body resp = Raw (byte_range b i j) \<and>
                     map_of (rs_headers resp) ''Content-Range'' =
                       Some (''bytes '' @ show_u64 i @ ''-'' @ show_u64 j @ ''/'' @ show_u64 (of_nat (length b)))) \<or>
                  (\<exists>e. r = Ok (with_text 500 (''read: '' @ e))) \<and> \<not> local_fs_healthy (as_blob st))))"
proof (cases "from_hex F hh")
  case None
  then show ?thesis using assms(2) by (auto simp: xorb_data_def C_def)
next
  case h: (Some h)
  let ?B = "local_fs_ops ovf F c"
  have F: "hex_ok F" using assms(1) by (simp add: local_fs_inv_def)
  obtain m s1 where hd: "bs_head ?B h (as_blob st) = (m, s1)" by fastforce
  note hl = lfs.head_law [OF assms(1) hd, folded C_def]
  have hh: "local_fs_healthy (as_blob st) \<Longrightarrow> local_fs_healthy s1 \<and> (\<exists>v. m = Ok v)" using lfs.head_healthy_law [OF assms(1) _ hd] by blast
  show ?thesis
  proof (cases "\<exists>v. m = Ok (Some v)")
    case False
    then have "r = Ok (status_only 404)" "st' = st\<lparr>as_blob := s1\<rparr>"
      using assms(2) h hd hl by (auto simp: xorb_data_def split: res.splits option.splits)
    moreover have "C h = None \<or> \<not> local_fs_healthy (as_blob st)" using False hl hh by auto
    ultimately show ?thesis using h hl by simp
  next
    case True
    then obtain b where b: "C h = Some b" "m = Ok (Some \<lparr>om_len = of_nat (length b)\<rparr>)" using hl by (auto simp: map_option_case split: option.splits)
    show ?thesis
    proof (cases "parse_range to_str rng (of_nat (length b))")
      case None
      then show ?thesis using assms(2) h hd b hl by (auto simp: xorb_data_def)
    next
      case (Some ij)
      obtain i j where ij: "parse_range to_str rng (of_nat (length b)) = Some (i, j)" using Some by (cases ij) simp
      obtain g s2 where gt: "bs_get_range ?B h i j s1 = (g, s2)" by fastforce
      have s1: "local_fs_inv F c s1" "local_fs_contents F c s1 = C" using hl by blast+
      note gl = lfs.get_law [OF s1(1) parse_range_ordered [OF ij] parse_range_below_max [OF ij] gt, unfolded s1(2)]
      have gh: "\<exists>d. g = Ok d" if "local_fs_healthy (as_blob st)"
      proof -
        have "local_fs_get_range ovf F c h i j s1 = (Ok (byte_range b i j), fs_tick s1)"
          by (rule local_fs_get_healthy [OF F _ _ parse_range_below_max [OF ij]]) (use hh [OF that] s1(2) b(1) in simp_all)
        then show ?thesis using gt by (auto simp: local_fs_ops_def)
      qed
      show ?thesis
        by (cases g) (use assms(2) h hd b gt ij gl gh in \<open>auto simp: xorb_data_def\<close>)
    qed
  qed
qed

theorem xorb_data_spec_witness:
  "\<exists>resp. fst (xorb_data Some sample_fork sample_ops (hex sample_fork sample_xorb) (Some ''bytes=2-9'') sample_st1) = Ok resp \<and>
     rs_status resp = 206 \<and> rs_body resp = Raw [2, 98, 99]"
proof -
  have rng: "parse_range Some (Some ''bytes=2-9'') 5 = Some (2, 4)"
    by (simp add: parse_range_def strip_prefix_def starts_with_def parse_u64_def digit_val_def saturating_sub_def)
  obtain r st' where run: "xorb_data Some sample_fork sample_ops (hex sample_fork sample_xorb) (Some ''bytes=2-9'') sample_st1 = (r, st')"
    by fastforce
  from xorb_data_spec [OF served_facts(1) [OF sample_served1 sample_validate_wf] run] served_facts(2) [OF sample_served1 sample_validate_wf] rng
  show ?thesis
    unfolding sample_hash_roundtrip sample_put(3) run by (auto simp: sample_body_def byte_range_def)
qed

section \<open>Deduplication queries\<close>

text \<open>
  C12. A deduplication hit is never wrong: on a running server, the location in the answer names a stored
  object whose footer lists the queried hash at exactly that index with that unpacked length.
  Hits and misses advance their counter and change nothing else.
\<close>

theorem global_dedup_spec:
  assumes "served to_str ovf F c st" and "validate_wf F" and "from_hex F hh = Some h"
    and "global_dedup F hh st = (r, st')"
  shows "case hm_get (ix_chunk_index (as_index st)) h of
       None \<Rightarrow> r = Ok (status_only 404) \<and>
         st' = st\<lparr>as_metrics := (as_metrics st)\<lparr>chunk_query_miss := chunk_query_miss (as_metrics st) + 1\<rparr>\<rparr>
     | Some l \<Rightarrow>
         r = Ok (ok_json (JObj [(''xorb'', JStr (hex F (cl_xorb l))), (''chunk_index'', JNum (ucast (cl_index l))),
                                (''unpacked_length'', JNum (ucast (cl_unpacked_len l)))])) \<and>
         st' = st\<lparr>as_metrics := (as_metrics st)\<lparr>chunk_query_hit := chunk_query_hit (as_metrics st) + 1\<rparr>\<rparr> \<and>
         (\<exists>b info. local_fs_contents F c (as_blob st) (cl_xorb l) = Some b \<and>
            validate_xorb_object F b (cl_xorb l) = Ok (Some info) \<and>
            unat (cl_index l) < length (xi_chunk_hashes info) \<and> xi_chunk_hashes info ! unat (cl_index l) = h \<and>
            cl_unpacked_len l = unpacked_size (xi_unpacked_chunk_offsets info) (unat (cl_index l)))"
proof (cases "hm_get (ix_chunk_index (as_index st)) h")
  case None
  then show ?thesis using assms(3,4) served_np [OF assms(1)] by (auto simp: global_dedup_def)
next
  case (Some l)
  then have "loc_agrees F (local_fs_contents F c (as_blob st)) h l"
    using served_facts(4) [OF assms(1,2)] by (simp add: index_agrees_def)
  then show ?thesis using Some assms(3,4) served_np [OF assms(1)] unfolding loc_agrees_def by (auto simp: global_dedup_def)
qed

theorem global_dedup_spec_witness:
  "case hm_get (ix_chunk_index (as_index sample_st1)) 25799 of
     None \<Rightarrow> fst (global_dedup sample_fork (hex sample_fork 25799) sample_st1) = Ok (status_only 404)
   | Some l \<Rightarrow> local_fs_contents sample_fork sample_store (as_blob sample_st1) (cl_xorb l) \<noteq> None"
  using global_dedup_spec [OF sample_served1 sample_validate_wf sample_hash_roundtrip,
      of 25799 "fst (global_dedup sample_fork (hex sample_fork 25799) sample_st1)"
        "snd (global_dedup sample_fork (hex sample_fork 25799) sample_st1)"]
  by (auto split: option.splits)

section \<open>Catalog listings\<close>

text \<open>
  The listing of a volume names each of its paths exactly once, with the hash of the file that was
  last registered there and that file's registered size; entries of other volumes do not appear.
\<close>

theorem list_entries_spec:
  assumes "index_inv (as_index st)" and "\<not> as_poisoned st"
  shows "\<exists>es. list_entries F vol st = (Ok (ok_json (JArr es)), st) \<and>
     distinct (map (\<lambda>j. jget j ''path'') es) \<and>
     set es = {JObj [(''path'', JStr p), (''file_hash'', JStr (hex F fh)), (''size'', JNum (fr_total_size f))] |p fh f.
       hm_get (ix_catalog (as_index st)) (vol, p) = Some fh \<and> hm_get (ix_files (as_index st)) fh = Some f}"
proof -
  let ?ix = "as_index st"
  let ?cs = "filter (\<lambda>((v, path), fh). v = vol) (ix_catalog ?ix)"
  let ?es = "map (\<lambda>((v, path), fh). entry_json F ?ix path fh) ?cs"
  have ok: "hm_ok (ix_catalog ?ix)" using assms(1) by (simp add: index_ok_def)
  have "distinct (map fst ?cs)" using ok by (simp add: hm_ok_def distinct_map_filter)
  moreover have "inj_on (\<lambda>k. JStr (snd k)) (set (map fst ?cs))" by (auto simp: inj_on_def)
  ultimately have "distinct (map (\<lambda>k. JStr (snd k)) (map fst ?cs))"
    by (simp only: distinct_map)
  moreover have "map (\<lambda>j. jget j ''path'') ?es = map (\<lambda>k. JStr (snd k)) (map fst ?cs)"
    by (auto simp: entry_json_def)
  ultimately have "distinct (map (\<lambda>j. jget j ''path'') ?es)" by metis
  moreover have "set ?es = {JObj [(''path'', JStr p), (''file_hash'', JStr (hex F fh)), (''size'', JNum (fr_total_size f))] |p fh f.
       hm_get (ix_catalog ?ix) (vol, p) = Some fh \<and> hm_get (ix_files ?ix) fh = Some f}" (is "?L = ?R")
  proof (intro equalityI subsetI)
    fix j assume "j \<in> ?L"
    then obtain p fh where p: "j = entry_json F ?ix p fh" "hm_get (ix_catalog ?ix) (vol, p) = Some fh"
      using hm_entry_iff [OF ok] by auto
    then have "fh \<in> dom (hm_get (ix_files ?ix))"
      using assms(1) ranI [of "hm_get (ix_catalog ?ix)", OF p(2)] unfolding refs_ok_def by blast
    then obtain f where "hm_get (ix_files ?ix) fh = Some f" by blast
    with p show "j \<in> ?R" by (auto simp: entry_json_def)
  next
    fix j assume "j \<in> ?R"
    then obtain p fh f where p: "hm_get (ix_catalog ?ix) (vol, p) = Some fh" "hm_get (ix_files ?ix) fh = Some f"
      "j = JObj [(''path'', JStr p), (''file_hash'', JStr (hex F fh)), (''size'', JNum (fr_total_size f))]" by blast
    then have "((vol, p), fh) \<in> set ?cs" "j = entry_json F ?ix p fh"
      using hm_entry_iff [OF ok] by (auto simp: entry_json_def)
    then show "j \<in> ?L" by force
  qed
  moreover have "list_entries F vol st = (Ok (ok_json (JArr ?es)), st)" using assms(2) by (simp add: list_entries_def)
  ultimately show ?thesis by blast
qed

theorem list_entries_spec_witness:
  "\<exists>es. list_entries sample_fork ''other'' sample_st1 = (Ok (ok_json (JArr es)), sample_st1) \<and> es = []"
  using list_entries_spec [of sample_st1 sample_fork "''other''"] served_facts(3) [OF sample_served1 sample_validate_wf]
    sample_put(2) sample_st1_files
  by (auto simp: server_inv_def)

section \<open>An object the index does not know\<close>

lemma register_terms_missing:
  "t \<in> set ts \<Longrightarrow> from_hex F (rg_xorb t) = Some x \<Longrightarrow> hm_get xorbs x = None \<Longrightarrow> \<exists>e. register_terms F xorbs ts = Inl e"
  by (induction ts) (auto simp: domIff split: option.splits sum.splits)

text \<open>
  C19. The index is filled only when an upload creates the object. If the object is already in the store
  while the index does not have it (the index starts empty after a restart), then uploading it again to a store that does
  not fail answers 200 with \<open>was_inserted\<close> false and leaves it unindexed, and every registration one of whose
  terms refers to it, at any position, is refused with 400 and changes nothing.
\<close>

theorem known_object_stays_unindexed:
  assumes "hex_ok F" and "local_fs_healthy (as_blob st)" and "\<not> as_poisoned st"
    and "from_hex F hh = Some h" and "validate_xorb_object F body h = Ok (Some info)"
    and "local_fs_contents F c (as_blob st) h \<noteq> None" and "hm_get (ix_xorbs (as_index st)) h = None"
    and "put_xorb ovf F (local_fs_ops ovf F c) hh body st = (r, st')"
    and "t \<in> set (rf_terms req)" and "from_hex F (rg_xorb t) = Some h"
  shows "r = Ok (ok_json (JObj [(''was_inserted'', JBool False)])) \<and> as_index st' = as_index st \<and>
     (\<exists>e. register_file F req st' = (Ok (with_text 400 e), st'))"
proof -
  have "local_fs_put F c h body (as_blob st) = (Ok False, fs_tick (as_blob st))"
    using assms(1,2,6) by (auto simp: local_fs_put_def fs_try_exists_def fs_call_def healthy_event)
  then have *: "r = Ok (ok_json (JObj [(''was_inserted'', JBool False)]))" "as_index st' = as_index st" "\<not> as_poisoned st'"
    using assms(3-5,8) by (auto simp: put_xorb_def local_fs_ops_def)
  obtain e where "register_terms F (ix_xorbs (as_index st')) (rf_terms req) = Inl e"
    using register_terms_missing [OF assms(9,10)] assms(7) *(2) by metis
  then show ?thesis using * by (auto simp: register_file_def split: option.splits)
qed

text \<open>The witness restarts the sample server: its store is kept, its index is new.\<close>

theorem known_object_stays_unindexed_witness:
  "let st = app_state_new (as_blob sample_st1) Loopback ''r'' ''w'';
       st' = snd (put_xorb True sample_fork sample_ops (hex sample_fork sample_xorb) sample_body st)
   in \<exists>e. fst (register_file sample_fork sample_file st') = Ok (with_text 400 e)"
proof -
  let ?st = "app_state_new (as_blob sample_st1) Loopback ''r'' ''w''"
  have h: "local_fs_healthy (as_blob ?st)" using served_facts(2) [OF sample_served1 sample_validate_wf] by simp
  have c: "local_fs_contents sample_fork sample_store (as_blob ?st) sample_xorb \<noteq> None"
    using sample_put(3) by simp
  have t: "hd (rf_terms sample_file) \<in> set (rf_terms sample_file)"
    "from_hex sample_fork (rg_xorb (hd (rf_terms sample_file))) = Some sample_xorb"
    using sample_hash_roundtrip by (simp_all add: sample_file_def del: sample_fork_simps)
  obtain r st' where run: "put_xorb True sample_fork sample_ops (hex sample_fork sample_xorb) sample_body ?st = (r, st')"
    by fastforce
  have "\<exists>e. register_file sample_fork sample_file st' = (Ok (with_text 400 e), st')"
    using known_object_stays_unindexed [OF sample_hex_ok h _ sample_hash_roundtrip sample_gate c _ run t]
    by (simp add: index_default_def del: sample_fork_simps)
  then show ?thesis using run by fastforce
qed

end
