(* ===== verification/Answers.thy ===== *)
theory Answers
  imports Server_Maint
begin

text \<open>
  The types of the answers: for each endpoint the status codes it may answer with and the schema of the JSON body. A server
  whose clients register terms inside their xorbs never panics and never answers outside these types, whatever calls of its
  store fail.
\<close>

section \<open>Schemas\<close>

datatype schema =
    TNum
  | TStr
  | TBool
  | TArr schema
  | TObj "(string \<times> schema) list"
  | TMap schema

primrec conforms :: "schema \<Rightarrow> json \<Rightarrow> bool" where
  "conforms TNum = (\<lambda>j. case j of JNum n \<Rightarrow> True | _ \<Rightarrow> False)"
| "conforms TStr = (\<lambda>j. case j of JStr s \<Rightarrow> True | _ \<Rightarrow> False)"
| "conforms TBool = (\<lambda>j. case j of JBool b \<Rightarrow> True | _ \<Rightarrow> False)"
| "conforms (TArr t) = (\<lambda>j. case j of JArr js \<Rightarrow> list_all (conforms t) js | _ \<Rightarrow> False)"
| "conforms (TObj fs) = (\<lambda>j. case j of
     JObj kvs \<Rightarrow> list_all (\<lambda>(k, p). p (jget (JObj kvs) k)) (map (map_prod (\<lambda>k. k) conforms) fs) | _ \<Rightarrow> False)"
| "conforms (TMap t) = (\<lambda>j. case j of JObj kvs \<Rightarrow> list_all (\<lambda>(k, v). conforms t v) kvs | _ \<Rightarrow> False)"

abbreviation range_type :: schema where
  "range_type \<equiv> TObj [(''start'', TNum), (''end'', TNum)]"

definition reconstruction_type :: schema where
  "reconstruction_type =
     TObj [(''offset_into_first_range'', TNum),
           (''terms'', TArr (TObj [(''hash'', TStr), (''unpacked_length'', TNum), (''range'', range_type)])),
           (''fetch_info'', TMap (TArr (TObj [(''range'', range_type), (''url'', TStr), (''url_range'', range_type)])))]"

text \<open>The answers of each endpoint: a status with the schema of a JSON body, or with another kind of body.\<close>

fun answer_types :: "call \<Rightarrow> (nat \<times> schema option) list" where
  "answer_types (CReconstruct _) = [(200, Some reconstruction_type), (400, None), (404, None), (500, None)]"
| "answer_types (CGlobalDedup _) =
     [(200, Some (TObj [(''xorb'', TStr), (''chunk_index'', TNum), (''unpacked_length'', TNum)])), (400, None), (404, None)]"
| "answer_types (CPutXorb _ _) = [(200, Some (TObj [(''was_inserted'', TBool)])), (400, None), (500, None)]"
| "answer_types CPutShard = [(501, None)]"
| "answer_types (CRegisterFile _) = [(200, Some (TObj [(''result'', TNum)])), (400, None)]"
| "answer_types (CListEntries _) = [(200, Some (TArr (TObj [(''path'', TStr), (''file_hash'', TStr), (''size'', TNum)])))]"
| "answer_types (CXorbData _ _) = [(206, None), (400, None), (404, None), (416, None), (500, None)]"
| "answer_types (CMetric _) = [(200, Some TNum)]"
| "answer_types (CMintToken _) = [(200, Some (TObj [(''token'', TStr)]))]"
| "answer_types CNoop = [(200, Some (TObj [(''ok'', TBool)]))]"
| "answer_types CGc = [(200, Some (TObj [(''swept'', TNum)]))]"
| "answer_types CScrub = [(200, Some (TObj [(''checked'', TNum), (''quarantined'', TNum)]))]"

definition body_has_type :: "schema option \<Rightarrow> body \<Rightarrow> bool" where
  "body_has_type t b = (case t of
       Some ty \<Rightarrow> (case b of Json j \<Rightarrow> conforms ty j | _ \<Rightarrow> False)
     | None \<Rightarrow> (case b of Json j \<Rightarrow> False | _ \<Rightarrow> True))"

definition well_typed :: "call \<Rightarrow> response \<Rightarrow> bool" where
  "well_typed c rs = list_ex (\<lambda>(status, t). rs_status rs = status \<and> body_has_type t (rs_body rs)) (answer_types c)"

lemma well_typed_simps [simp]:
  "body_has_type (Some t) (Json j) = conforms t j" "body_has_type None (Json j) = False"
  "body_has_type t' NoBody = (t' = None)" "body_has_type t' (Text s) = (t' = None)" "body_has_type t' (Raw b) = (t' = None)"
  "rs_body (status_only n) = NoBody"
  by (cases t'; simp add: body_has_type_def status_only_def)+

lemma reconstruction_typed: "conforms reconstruction_type (json_of_recon_response r)"
  by (auto simp: reconstruction_type_def json_of_recon_response_def json_of_recon_term_def json_of_chunk_range_def
      json_of_fetch_info_def json_of_byte_span_def list_all_iff)

section \<open>Progress\<close>

text \<open>Every registered term lies inside its xorb.\<close>

definition terms_ok :: "'b app_state \<Rightarrow> bool" where
  "terms_ok st \<longleftrightarrow>
     (\<forall>fh f. hm_get (ix_files (as_index st)) fh = Some f \<longrightarrow> (\<forall>t \<in> set (fr_terms f). term_in_range (ix_xorbs (as_index st)) t))"

text \<open>The footers in the index are footers of the fork, whose byte offsets are positive.\<close>

lemma info_footer_ok:
  assumes "info_wf info n" "i < length (xi_chunk_boundary_offsets info)"
  shows "length (xi_chunk_boundary_offsets info) < 2 ^ 32" "0 < unat (xi_chunk_boundary_offsets info ! i)"
proof -
  show "length (xi_chunk_boundary_offsets info) < 2 ^ 32"
    using info_wf_lengths [OF assms(1)] unat_u32_less [of "xi_num_chunks info"] by simp
  show "0 < unat (xi_chunk_boundary_offsets info ! i)"
    using assms unfolding info_wf_def by (metis gr_zeroI not_less_zero)
qed

lemma footers_ok_upload:
  assumes "footers_ok (ix_xorbs ix)" "info_wf info n" "index_upload ovf h info ix = (r, ix')"
  shows "footers_ok (ix_xorbs ix')"
proof -
  have "length (xi_chunk_boundary_offsets info) < 2 ^ 32"
    using info_footer_ok(1) [OF assms(2), of 0] by (cases "xi_chunk_boundary_offsets info") auto
  then show ?thesis
    using assms(1) info_footer_ok(2) [OF assms(2)] unfolding footers_ok_def index_upload_frame(3) [OF assms(3)]
    by (auto simp: from_info_def split: if_splits)
qed

lemma terms_okD: "\<lbrakk>terms_ok st; hm_get (ix_files (as_index st)) fh = Some f; t \<in> set (fr_terms f)\<rbrakk> \<Longrightarrow> term_in_range (ix_xorbs (as_index st)) t"
  by (simp add: terms_ok_def)

text \<open>The terms stay inside as long as the footers of their xorbs stay what they are.\<close>

lemma terms_ok_footers:
  assumes "terms_ok st" "ix_files (as_index st') = ix_files (as_index st)"
    and "\<And>x. x \<in> referenced (as_index st) \<Longrightarrow> hm_get (ix_xorbs (as_index st')) x = hm_get (ix_xorbs (as_index st)) x"
  shows "terms_ok st'"
  unfolding terms_ok_def assms(2)
proof (intro allI impI ballI)
  fix fh f t assume f: "hm_get (ix_files (as_index st)) fh = Some f" "t \<in> set (fr_terms f)"
  then have "hm_get (ix_xorbs (as_index st')) (ft_xorb t) = hm_get (ix_xorbs (as_index st)) (ft_xorb t)"
    using assms(3) referencedI by blast
  then show "term_in_range (ix_xorbs (as_index st')) t"
    using terms_okD [OF assms(1) f] by (simp add: term_in_range_def)
qed

text \<open>A request that, if it registers a file, names chunks inside the xorbs.\<close>

fun well_behaved :: "fork \<Rightarrow> 'b app_state \<Rightarrow> call \<Rightarrow> bool" where
  "well_behaved F st (CRegisterFile req) \<longleftrightarrow>
     list_all (\<lambda>t. term_in_range (ix_xorbs (as_index st)) (file_term_of F t)) (rf_terms req)"
| "well_behaved F st _ \<longleftrightarrow> True"

lemma register_terms_inside:
  assumes ok: "terms_ok st" and wb: "well_behaved F st (CRegisterFile req)" and run: "register_file F req st = (r, st')"
  shows "terms_ok st'" "ix_xorbs (as_index st') = ix_xorbs (as_index st)"
proof -
  show "ix_xorbs (as_index st') = ix_xorbs (as_index st)"
    using run by (auto simp: register_file_def Let_def split: option.splits if_splits sum.splits)
  show "terms_ok st'"
  proof (cases "register_terms F (ix_xorbs (as_index st)) (rf_terms req)")
    case (Inl e)
    then have "st' = st" using run by (auto simp: register_file_def split: option.splits if_splits)
    then show ?thesis using ok by simp
  next
    case (Inr ts)
    then have ts: "\<forall>t \<in> set ts. term_in_range (ix_xorbs (as_index st)) t"
      using wb register_terms_value [OF Inr] by (simp add: list_all_iff)
    have "st' = st \<or> ix_xorbs (as_index st') = ix_xorbs (as_index st) \<and>
        (\<exists>fh n. hm_get (ix_files (as_index st')) = (hm_get (ix_files (as_index st)))(fh \<mapsto> \<lparr>fr_total_size = n, fr_terms = ts\<rparr>))"
      using run Inr by (auto simp: register_file_def Let_def split: option.splits if_splits) blast+
    then consider "st' = st" | fh n where "ix_xorbs (as_index st') = ix_xorbs (as_index st)"
        "hm_get (ix_files (as_index st')) = (hm_get (ix_files (as_index st)))(fh \<mapsto> \<lparr>fr_total_size = n, fr_terms = ts\<rparr>)"
      by blast
    then show ?thesis
      by cases (use ok ts in \<open>auto simp: terms_ok_def split: if_splits\<close>)
  qed
qed

context blob_store
begin

text \<open>What a server that answers every request keeps.\<close>

definition answering :: "fork \<Rightarrow> 'b app_state \<Rightarrow> bool" where
  "answering F st \<longleftrightarrow> good F st \<and> \<not> as_poisoned st \<and> footers_ok (ix_xorbs (as_index st)) \<and> terms_ok st"

lemma answering_facts:
  assumes "answering F st"
  shows "good F st" "\<not> as_poisoned st" "footers_ok (ix_xorbs (as_index st))" "terms_ok st" "invar (as_blob st)"
  using assms by (simp_all add: answering_def good_def)

lemma answering_same:
  "answering F st \<Longrightarrow> good F st' \<Longrightarrow> \<not> as_poisoned st' \<Longrightarrow> as_index st' = as_index st \<Longrightarrow> answering F st'"
  by (simp add: answering_def terms_ok_def)

lemma reconstruct_answers:
  assumes ok: "answering F st" and run: "reconstruct ovf F B hh st = (r, st')"
  shows "answering F st' \<and> (\<exists>rs. r = Ok rs \<and> well_typed (CReconstruct hh) rs)"
proof (cases "\<exists>fh f. from_hex F hh = Some fh \<and> hm_get (ix_files (as_index st)) fh = Some f")
  case False
  then show ?thesis using run ok answering_facts(2) [OF ok] by (auto simp: reconstruct_def well_typed_def split: option.splits)
next
  case True
  then obtain fh f where f: "from_hex F hh = Some fh" "hm_get (ix_files (as_index st)) fh = Some f" by blast
  note a = answering_facts [OF ok]
  have "\<forall>t \<in> set (fr_terms f). ft_xorb t \<in> dom (hm_get (ix_xorbs (as_index st)))"
    using a(1) referencedI [OF f(2)] by (auto simp: good_def server_inv_def refs_ok_def)
  from resolve_terms_cases [OF a(3) this, of ovf] terms_okD [OF a(4) f(2)]
  obtain ts where ts: "resolve_terms ovf (ix_xorbs (as_index st)) (fr_terms f) = Ok (Inr ts)" by auto
  obtain u s1 where p: "presign_terms F B ts [] [] (as_blob st) = (u, s1)" by fastforce
  note law = presign_terms_good [OF p a(5)]
  have st': "st' = st\<lparr>as_blob := s1\<rparr>" "\<exists>rs. r = Ok rs \<and> well_typed (CReconstruct hh) rs"
    using run f ts p law a(2) by (cases u; auto simp: reconstruct_def well_typed_def reconstruction_typed split: prod.splits)+
  have "good F st'" using reconstruct_good [OF a(1) run] by blast
  then show ?thesis using answering_same [OF ok] st' a(2) by simp
qed

lemma put_xorb_answers:
  assumes ok: "answering F st" and F: "validate_wf F" and len: "length body \<le> MAX_BODY_BYTES"
    and run: "put_xorb ovf F B hh body st = (r, st')"
  shows "answering F st' \<and> (\<exists>rs. r = Ok rs \<and> well_typed (CPutXorb hh body) rs)"
proof -
  note a = answering_facts [OF ok]
  have "blob_len_ok body" using len by (simp add: MAX_BODY_BYTES_def)
  note g = put_xorb_good [OF a(1) F this run]
  then have r: "\<exists>rs. r = Ok rs \<and> well_typed (CPutXorb hh body) rs"
    using run a(2) unfolding put_xorb_def
    by (auto simp: well_typed_def Let_def split: option.splits res.splits prod.splits if_splits)
  have same: "answering F st'" if "as_index st' = as_index st" using answering_same [OF ok] g a(2) that by blast
  show ?thesis
  proof (cases "as_index st' = as_index st")
    case True
    then show ?thesis using same r by blast
  next
    case False
    obtain h info y where h: "validate_xorb_object F body h = Ok (Some info)"
      and up: "index_upload ovf h info (as_index st) = (y, as_index st')"
      using run False a(2) unfolding put_xorb_def
      by (auto simp: Let_def split: option.splits res.splits prod.splits if_splits)
    have fo: "footers_ok (ix_xorbs (as_index st'))"
      by (rule footers_ok_upload [OF a(3) valid_xorb_info_wf [OF F h] up])
    have "hm_get (ix_xorbs (as_index st')) x = hm_get (ix_xorbs (as_index st)) x" if "x \<in> referenced (as_index st)" for x
    proof -
      have "x \<in> dom (hm_get (ix_xorbs (as_index st)))" using that a(1) by (auto simp: good_def server_inv_def refs_ok_def)
      then show ?thesis using index_upload_frame(3) [OF up] by auto
    qed
    then have "terms_ok st'" by (rule terms_ok_footers [OF a(4) index_upload_frame(1) [OF up]])
    then show ?thesis using r g fo a(2) by (simp add: answering_def)
  qed
qed

lemma gc_answers:
  assumes ok: "answering F st" and run: "test_gc B st = (r, st')"
  shows "answering F st' \<and> (\<exists>rs. r = Ok rs \<and> well_typed CGc rs)"
proof -
  note a = answering_facts [OF ok]
  note g = test_gc_good [OF a(1,2) run]
  have "terms_ok st'" by (rule terms_ok_footers [OF a(4)]) (use g in auto)
  moreover have "footers_ok (ix_xorbs (as_index st'))"
    using a(3) g by (auto simp: footers_ok_def restrict_map_def split: if_splits)
  ultimately show ?thesis using g by (auto simp: answering_def well_typed_def)
qed

lemma scrub_answers:
  assumes ok: "answering F st" and F: "validate_wf F" and run: "test_scrub F B st = (r, st')"
  shows "answering F st' \<and> (\<exists>rs. r = Ok rs \<and> well_typed CScrub rs)"
proof -
  note a = answering_facts [OF ok]
  obtain u s1 where lp: "scrub_loop F B (hm_keys (ix_xorbs (as_index st))) 0 0 (as_blob st) = (u, s1)" by fastforce
  from scrub_loop_good [OF a(5) F lp refl] obtain x y where "u = Ok (x, y)" by blast
  then have "\<exists>rs. r = Ok rs \<and> well_typed CScrub rs" using run lp a(2) by (auto simp: test_scrub_def well_typed_def)
  then show ?thesis using test_scrub_good [OF a(1) F run] answering_same [OF ok] a(2) by blast
qed

text \<open>Every admitted request gets an answer of its type, no handler panics, and the server stays as it is.\<close>

lemma handle_answers:
  assumes ok: "answering F st" and F: "validate_wf F" and adm: "admitted call"
    and run: "handle to_str ovf F B call st = (r, st')"
  shows "\<not> as_poisoned st' \<and> (\<exists>rs. r = Ok rs \<and> well_typed call rs) \<and> (well_behaved F st call \<longrightarrow> answering F st')"
proof -
  note a = answering_facts [OF ok]
  have good: "good F st'" by (rule handle_good [OF a(1) F adm run])
  show ?thesis
  proof (cases call)
    case (CReconstruct hh)
    then show ?thesis using reconstruct_answers [OF ok] run by (auto simp: answering_def)
  next
    case (CPutXorb hh body)
    then show ?thesis using put_xorb_answers [OF ok F] run adm by (auto simp: answering_def)
  next
    case CScrub
    then show ?thesis using scrub_answers [OF ok F] run by (auto simp: answering_def)
  next
    case CGc
    then show ?thesis using gc_answers [OF ok] run by (auto simp: answering_def)
  next
    case (CXorbData hh rng)
    then have x: "xorb_data to_str F B hh rng st = (r, st')" using run by simp
    note g = xorb_data_good [OF a(1) x]
    then have "\<exists>rs. r = Ok rs \<and> well_typed call rs"
      using x CXorbData by (auto simp: xorb_data_def well_typed_def split: option.splits res.splits prod.splits)
    then show ?thesis using g answering_same [OF ok] a(2) by auto
  next
    case (CRegisterFile req)
    then have x: "register_file F req st = (r, st')" using run by simp
    have "\<not> as_poisoned st'" "\<exists>rs. r = Ok rs \<and> well_typed call rs"
      using x a(2) CRegisterFile by (auto simp: register_file_def well_typed_def Let_def split: option.splits sum.splits)
    moreover have "answering F st'" if "well_behaved F st call"
      using register_terms_inside [OF a(4) _ x] that CRegisterFile good calculation(1) a(3) by (simp add: answering_def)
    ultimately show ?thesis by blast
  next
    case (CGlobalDedup hh)
    then have "as_index st' = as_index st \<and> \<not> as_poisoned st' \<and> (\<exists>rs. r = Ok rs \<and> well_typed call rs)"
      using run a(2) by (auto simp: global_dedup_def well_typed_def split: option.splits)
    then show ?thesis using answering_same [OF ok good] by blast
  next
    case (CListEntries v)
    then have "st' = st \<and> (\<exists>rs. r = Ok rs \<and> well_typed call rs)"
      using run a(2) by (auto simp: list_entries_def entry_json_def well_typed_def list_all_iff)
    then show ?thesis using ok a(2) by blast
  qed (use run ok a(2) in \<open>auto simp: put_shard_def test_metric_def test_noop_def test_mint_token_def well_typed_def Let_def\<close>)
qed

end

section \<open>Typed answers along a run\<close>

text \<open>The states of a server none of whose clients registered a term outside its xorb.\<close>

inductive well_used ::
  "(string \<Rightarrow> string option) \<Rightarrow> bool \<Rightarrow> fork \<Rightarrow> 'b blob_ops \<Rightarrow> 'b app_state \<Rightarrow> 'b app_state \<Rightarrow> bool"
  for to_str ovf F B st0 where
  start: "well_used to_str ovf F B st0 st0"
| request: "well_used to_str ovf F B st0 st \<Longrightarrow> admitted call \<Longrightarrow> well_behaved F st call \<Longrightarrow>
     handle to_str ovf F B call st = (r, st') \<Longrightarrow> well_used to_str ovf F B st0 st'"

lemma well_used_answering:
  assumes "well_used to_str ovf F (local_fs_ops ovf F c) (app_state_new f auth rt wt) st" "validate_wf F"
    and "local_fs_inv F c f" "blobs_valid F (local_fs_contents F c f)"
  shows "lfs.answering F c F st"
  using assms(1)
proof induction
  case start
  have "lfs.good F c F (app_state_new f auth rt wt)"
    using assms(3,4) server_inv_new [of F "local_fs_contents F c f" f auth rt wt] by (simp add: lfs.good_def)
  then show ?case
    by (simp add: lfs.answering_def terms_ok_def footers_ok_def app_state_new_def index_default_def)
next
  case (request st call r st')
  show ?case using lfs.handle_answers [OF request.IH assms(2) request.hyps(2,4)] request.hyps(3) by blast
qed

text \<open>
  C7. The answers are typed. A server over a local store directory with valid objects, whatever calls of the file system fail, whose
  clients only register terms that lie inside their xorbs, answers every request it admits: no handler panics and the
  lock is never poisoned, and the answer has one of the statuses of its endpoint (500 among them where a call of the store can
  fail) with a body of the schema of that status; so a 200 of the reconstruction endpoint is an object with
  the offset, the list of terms and the map from xorbs to their byte ranges, each field of its type.
\<close>

theorem answers_are_typed:
  assumes "well_used to_str ovf F (local_fs_ops ovf F c) (app_state_new f auth rt wt) st" and "validate_wf F"
    and "local_fs_inv F c f" and "blobs_valid F (local_fs_contents F c f)"
    and "admitted call" and "handle to_str ovf F (local_fs_ops ovf F c) call st = (r, st')"
  shows "\<not> as_poisoned st' \<and> (\<exists>rs. r = Ok rs \<and> well_typed call rs)"
  using lfs.handle_answers [OF well_used_answering [OF assms(1-4)] assms(2,5,6)] by blast

theorem answers_are_typed_witness:
  "\<exists>rs st'. handle Some True sample_fork sample_ops (CReconstruct (hex sample_fork 7)) sample_st2 = (Ok rs, st') \<and>
     \<not> as_poisoned st' \<and> well_typed (CReconstruct (hex sample_fork 7)) rs"
proof -
  have inside: "well_behaved sample_fork sample_st1 (CRegisterFile sample_file)"
    using sample_st1_footer sample_hash_roundtrip
    by (simp add: sample_file_def term_in_range_def file_term_of_def from_info_def sample_xorb_info_def del: sample_fork_simps)
  have "well_used Some True sample_fork sample_ops sample_st0 sample_st1"
    by (rule well_used.request [OF well_used.start, of "CPutXorb (hex sample_fork sample_xorb) sample_body"])
      (use sample_put(1) sample_body_len in simp_all)
  then have "well_used Some True sample_fork sample_ops sample_st0 sample_st2"
    by (rule well_used.request [of _ _ _ _ _ _ "CRegisterFile sample_file"]) (use sample_register(1) inside in simp_all)
  moreover obtain r st' where run: "handle Some True sample_fork sample_ops (CReconstruct (hex sample_fork 7)) sample_st2 = (r, st')"
    by fastforce
  ultimately have "\<not> as_poisoned st' \<and> (\<exists>rs. r = Ok rs \<and> well_typed (CReconstruct (hex sample_fork 7)) rs)"
    using answers_are_typed [OF _ sample_validate_wf sample_fs_facts(1) _ _ run, of Loopback "''read-0''" "''write-0''"] sample_fs_facts(3)
    by (simp add: sample_st0_def blobs_valid_def)
  then show ?thesis using run by blast
qed

end
