(* ===== verification/S3.thy ===== *)
theory S3
  imports Blob_Props Server_Correct
begin

text \<open>
  \<open>crates/xetd/src/s3.rs\<close>: the S3 backend of the \<open>BlobStore\<close> trait. The AWS SDK client is a
  parameter (\<open>s3_client\<close>), the predicate \<open>s3_sdk_ok\<close> states the behaviour of the object
  store that S3 documents: a put is atomic though an answer may be lost, a head reports the length, a
  ranged get returns the range, a delete is idempotent. Under it the backend meets the same
  contract as the local store, so everything proved from \<open>blob_store\<close> holds for it.
\<close>

section \<open>The client\<close>

text \<open>\<open>S3NotFound\<close> is a service error for which \<open>is_not_found\<close> holds.\<close>

datatype 'a s3_res = S3Ok 'a | S3NotFound string | S3Err string

fun s3_is_ok :: "'a s3_res \<Rightarrow> bool" where
  "s3_is_ok (S3Ok _) = True"
| "s3_is_ok _ = False"

text \<open>
  A \<open>get_object\<close> answers with a body that is collected in a second step, which may fail on its own.
\<close>

record 's s3_client =
  sc_head_object :: "string \<Rightarrow> string \<Rightarrow> 's \<Rightarrow> int option s3_res \<times> 's"
  sc_put_object :: "string \<Rightarrow> string \<Rightarrow> bytes \<Rightarrow> 's \<Rightarrow> unit s3_res \<times> 's"
  sc_get_object :: "string \<Rightarrow> string \<Rightarrow> string \<Rightarrow> 's \<Rightarrow> bytes s3_res s3_res \<times> 's"
  sc_expires_in :: "u64 \<Rightarrow> bool"
  sc_presigned :: "string \<Rightarrow> string \<Rightarrow> u64 \<Rightarrow> 's \<Rightarrow> string s3_res \<times> 's"
  sc_delete_object :: "string \<Rightarrow> string \<Rightarrow> 's \<Rightarrow> unit s3_res \<times> 's"

record 's s3_blob_store =
  s3_client_of :: "'s s3_client"
  s3_bucket :: string

text \<open>The configuration that \<open>S3BlobStore::new\<close> builds the client from.\<close>

record s3_conf =
  cf_endpoint_url :: string
  cf_region :: string
  cf_access_key :: string
  cf_secret_key :: string
  cf_force_path_style :: bool

definition s3_blob_store_new ::
  "(s3_conf \<Rightarrow> 's s3_client) \<Rightarrow> string \<Rightarrow> string \<Rightarrow> string \<Rightarrow> string \<Rightarrow> bool \<Rightarrow> 's s3_blob_store" where
  "s3_blob_store_new from_conf endpoint bucket access_key secret_key path_style =
     \<lparr>s3_client_of = from_conf \<lparr>cf_endpoint_url = endpoint, cf_region = ''us-east-1'', cf_access_key = access_key,
        cf_secret_key = secret_key, cf_force_path_style = path_style\<rparr>,
      s3_bucket = bucket\<rparr>"

section \<open>The operations\<close>

definition key_for :: "fork \<Rightarrow> hash \<Rightarrow> string res" where
  "key_for F key =
     (let h = hex F key in
      bind_res (str_slice h 0 2) (\<lambda>a.
      bind_res (str_slice h 2 4) (\<lambda>b.
      Ok (''xorbs/'' @ a @ ''/'' @ b @ ''/'' @ h))))"

fun at_key :: "string res \<Rightarrow> (string \<Rightarrow> 's \<Rightarrow> 'a res \<times> 's) \<Rightarrow> 's \<Rightarrow> 'a res \<times> 's" where
  "at_key (Ok k) f s = f k s"
| "at_key (Err e) f s = (Err e, s)"
| "at_key Panic f s = (Panic, s)"

definition s3_put :: "fork \<Rightarrow> 's s3_blob_store \<Rightarrow> hash \<Rightarrow> bytes \<Rightarrow> 's \<Rightarrow> bool res \<times> 's" where
  "s3_put F c key b = at_key (key_for F key) (\<lambda>k s.
     (case sc_head_object (s3_client_of c) (s3_bucket c) k s of (there, s1) \<Rightarrow>
      if s3_is_ok there then (Ok False, s1)
      else (case sc_put_object (s3_client_of c) (s3_bucket c) k b s1 of
          (S3Ok _, s2) \<Rightarrow> (Ok True, s2)
        | (_, s2) \<Rightarrow> (Err ''s3 put_object'', s2))))"

text \<open>The two calls of a put on their own.\<close>

definition s3_put_look :: "fork \<Rightarrow> 's s3_blob_store \<Rightarrow> hash \<Rightarrow> 's \<Rightarrow> bool res \<times> 's" where
  "s3_put_look F c key = at_key (key_for F key) (\<lambda>k s.
     (case sc_head_object (s3_client_of c) (s3_bucket c) k s of (there, s1) \<Rightarrow> (Ok (s3_is_ok there), s1)))"

definition s3_put_store :: "fork \<Rightarrow> 's s3_blob_store \<Rightarrow> hash \<Rightarrow> bytes \<Rightarrow> 's \<Rightarrow> unit res \<times> 's" where
  "s3_put_store F c key b = at_key (key_for F key) (\<lambda>k s.
     (case sc_put_object (s3_client_of c) (s3_bucket c) k b s of
        (S3Ok _, s1) \<Rightarrow> (Ok (), s1)
      | (_, s1) \<Rightarrow> (Err ''s3 put_object'', s1)))"

definition s3_head :: "fork \<Rightarrow> 's s3_blob_store \<Rightarrow> hash \<Rightarrow> 's \<Rightarrow> object_meta option res \<times> 's" where
  "s3_head F c key = at_key (key_for F key) (\<lambda>k s.
     (case sc_head_object (s3_client_of c) (s3_bucket c) k s of
        (S3Ok n, s1) \<Rightarrow> (Ok (Some \<lparr>om_len = of_int (max (case n of None \<Rightarrow> 0 | Some v \<Rightarrow> v) 0)\<rparr>), s1)
      | (S3NotFound _, s1) \<Rightarrow> (Ok None, s1)
      | (S3Err e, s1) \<Rightarrow> (Err (''s3 head_object: '' @ e), s1)))"

definition s3_get_range :: "fork \<Rightarrow> 's s3_blob_store \<Rightarrow> hash \<Rightarrow> u64 \<Rightarrow> u64 \<Rightarrow> 's \<Rightarrow> bytes res \<times> 's" where
  "s3_get_range F c key start stop = at_key (key_for F key) (\<lambda>k s.
     (case sc_get_object (s3_client_of c) (s3_bucket c) k (''bytes='' @ show_u64 start @ ''-'' @ show_u64 stop) s of
        (S3Ok (S3Ok data), s1) \<Rightarrow> (Ok data, s1)
      | (S3Ok _, s1) \<Rightarrow> (Err ''s3 collect body'', s1)
      | (_, s1) \<Rightarrow> (Err ''s3 get_object'', s1)))"

definition s3_presign_get :: "fork \<Rightarrow> 's s3_blob_store \<Rightarrow> hash \<Rightarrow> u64 \<Rightarrow> 's \<Rightarrow> string res \<times> 's" where
  "s3_presign_get F c key ttl s =
     (if \<not> sc_expires_in (s3_client_of c) ttl then (Err ''presign config'', s)
      else at_key (key_for F key) (\<lambda>k s.
        (case sc_presigned (s3_client_of c) (s3_bucket c) k ttl s of
           (S3Ok u, s1) \<Rightarrow> (Ok u, s1)
         | (_, s1) \<Rightarrow> (Err ''presign get_object'', s1))) s)"

definition s3_delete :: "fork \<Rightarrow> 's s3_blob_store \<Rightarrow> hash \<Rightarrow> 's \<Rightarrow> unit res \<times> 's" where
  "s3_delete F c key = at_key (key_for F key) (\<lambda>k s.
     (case sc_delete_object (s3_client_of c) (s3_bucket c) k s of
        (S3Ok _, s1) \<Rightarrow> (Ok (), s1)
      | (_, s1) \<Rightarrow> (Err ''s3 delete_object'', s1)))"

definition s3_ops :: "fork \<Rightarrow> 's s3_blob_store \<Rightarrow> 's blob_ops" where
  "s3_ops F c =
     \<lparr>bs_put = s3_put F c, bs_head = s3_head F c, bs_get_range = s3_get_range F c,
      bs_presign_get = s3_presign_get F c, bs_delete = s3_delete F c\<rparr>"

section \<open>Documented behaviour of the object store\<close>

text \<open>
  \<open>obj\<close> is what the bucket holds under each key, \<open>up\<close> says that every further call succeeds. When a
  call fails nothing is known of its effect beyond that it happened completely or not at all.
\<close>

definition s3_put_ok :: "'s s3_blob_store \<Rightarrow> ('s \<Rightarrow> string \<Rightarrow> bytes option) \<Rightarrow> ('s \<Rightarrow> bool) \<Rightarrow> bool" where
  "s3_put_ok c obj up \<longleftrightarrow> (\<forall>k b s r s'. sc_put_object (s3_client_of c) (s3_bucket c) k b s = (r, s') \<longrightarrow>
     obj s' \<in> {obj s, (obj s)(k \<mapsto> b)} \<and> (r = S3Ok () \<longrightarrow> obj s' = (obj s)(k \<mapsto> b)) \<and>
     (up s \<longrightarrow> up s' \<and> r = S3Ok ()))"

definition s3_head_ok :: "'s s3_blob_store \<Rightarrow> ('s \<Rightarrow> string \<Rightarrow> bytes option) \<Rightarrow> ('s \<Rightarrow> bool) \<Rightarrow> bool" where
  "s3_head_ok c obj up \<longleftrightarrow> (\<forall>k s r s'. sc_head_object (s3_client_of c) (s3_bucket c) k s = (r, s') \<longrightarrow>
     obj s' = obj s \<and>
     (\<forall>n. r = S3Ok n \<longrightarrow> (\<exists>b. obj s k = Some b \<and> n = Some (int (length b)))) \<and>
     (\<forall>e. r = S3NotFound e \<longrightarrow> obj s k = None) \<and>
     (up s \<longrightarrow> up s' \<and> (\<forall>e. r \<noteq> S3Err e)))"

definition s3_get_ok :: "'s s3_blob_store \<Rightarrow> ('s \<Rightarrow> string \<Rightarrow> bytes option) \<Rightarrow> ('s \<Rightarrow> bool) \<Rightarrow> bool" where
  "s3_get_ok c obj up \<longleftrightarrow> (\<forall>k i j s r s'.
     sc_get_object (s3_client_of c) (s3_bucket c) k (''bytes='' @ show_u64 i @ ''-'' @ show_u64 j) s = (r, s') \<longrightarrow>
     obj s' = obj s \<and>
     (\<forall>d. i \<le> j \<and> r = S3Ok (S3Ok d) \<longrightarrow> (\<exists>b. obj s k = Some b \<and> d = byte_range b i j)) \<and>
     (up s \<longrightarrow> up s' \<and> (\<forall>b. obj s k = Some b \<and> i \<le> j \<and> unat i < length b \<longrightarrow> (\<exists>d. r = S3Ok (S3Ok d)))))"

definition s3_presign_ok :: "'s s3_blob_store \<Rightarrow> ('s \<Rightarrow> string \<Rightarrow> bytes option) \<Rightarrow> ('s \<Rightarrow> bool) \<Rightarrow> bool" where
  "s3_presign_ok c obj up \<longleftrightarrow>
     (\<forall>ttl. sc_expires_in (s3_client_of c) ttl \<longleftrightarrow> ttl \<le> 604800) \<and>
     (\<forall>k ttl s r s'. sc_presigned (s3_client_of c) (s3_bucket c) k ttl s = (r, s') \<longrightarrow>
        obj s' = obj s \<and> (up s \<longrightarrow> up s' \<and> (\<exists>u. r = S3Ok u)))"

definition s3_delete_ok :: "'s s3_blob_store \<Rightarrow> ('s \<Rightarrow> string \<Rightarrow> bytes option) \<Rightarrow> ('s \<Rightarrow> bool) \<Rightarrow> bool" where
  "s3_delete_ok c obj up \<longleftrightarrow> (\<forall>k s r s'. sc_delete_object (s3_client_of c) (s3_bucket c) k s = (r, s') \<longrightarrow>
     obj s' \<in> {obj s, (obj s)(k := None)} \<and> (r = S3Ok () \<longrightarrow> obj s' = (obj s)(k := None)) \<and>
     (up s \<longrightarrow> up s' \<and> r = S3Ok ()))"

definition s3_sdk_ok :: "'s s3_blob_store \<Rightarrow> ('s \<Rightarrow> string \<Rightarrow> bytes option) \<Rightarrow> ('s \<Rightarrow> bool) \<Rightarrow> bool" where
  "s3_sdk_ok c obj up \<longleftrightarrow> s3_put_ok c obj up \<and> s3_head_ok c obj up \<and> s3_get_ok c obj up \<and>
     s3_presign_ok c obj up \<and> s3_delete_ok c obj up"

definition s3_key :: "fork \<Rightarrow> hash \<Rightarrow> string" where
  "s3_key F h = ''xorbs/'' @ take 2 (hex F h) @ ''/'' @ take 2 (drop 2 (hex F h)) @ ''/'' @ hex F h"

definition s3_contents :: "fork \<Rightarrow> ('s \<Rightarrow> string \<Rightarrow> bytes option) \<Rightarrow> 's \<Rightarrow> hash \<Rightarrow> bytes option" where
  "s3_contents F obj s h = obj s (s3_key F h)"

definition s3_inv :: "('s \<Rightarrow> string \<Rightarrow> bytes option) \<Rightarrow> 's \<Rightarrow> bool" where
  "s3_inv obj s \<longleftrightarrow> (\<forall>k b. obj s k = Some b \<longrightarrow> blob_len_ok b)"

section \<open>The backend meets the contract\<close>

lemma key_for_Ok [simp]: "hex_ok F \<Longrightarrow> key_for F h = Ok (s3_key F h)"
  using hex_length [of F h] by (simp add: key_for_def str_slice_def s3_key_def Let_def)

lemma s3_key_inj [simp]: "hex_ok F \<Longrightarrow> s3_key F h = s3_key F k \<longleftrightarrow> h = k"
  using hex_length [of F h] hex_length [of F k] by (auto simp: s3_key_def hex_inj)

lemma s3_contents_upd:
  "hex_ok F \<Longrightarrow> obj s' = (obj s)(s3_key F k := v) \<Longrightarrow> s3_contents F obj s' = (s3_contents F obj s)(k := v)"
  by (simp add: s3_contents_def fun_eq_iff)

lemma s3_contents_cong: "obj s' = obj s \<Longrightarrow> s3_contents F obj s' = s3_contents F obj s"
  by (simp add: s3_contents_def fun_eq_iff)

lemma s3_put_law:
  assumes F: "hex_ok F" and K: "s3_sdk_ok c obj up" and inv: "s3_inv obj s" and len: "blob_len_ok b"
    and put: "s3_put F c k b s = (r, s')"
  shows "s3_inv obj s' \<and> r \<noteq> Panic \<and>
     s3_contents F obj s' \<in> {s3_contents F obj s, (s3_contents F obj s)(k \<mapsto> b)} \<and>
     (r = Ok True \<longrightarrow> s3_contents F obj s' = (s3_contents F obj s)(k \<mapsto> b)) \<and>
     (r = Ok False \<longrightarrow> s3_contents F obj s' = s3_contents F obj s \<and> s3_contents F obj s k \<noteq> None) \<and>
     (up s \<longrightarrow> up s' \<and> r = Ok (s3_contents F obj s k = None))"
proof -
  let ?k = "s3_key F k"
  obtain x s1 where hd: "sc_head_object (s3_client_of c) (s3_bucket c) ?k s = (x, s1)" by fastforce
  obtain y s2 where pt: "sc_put_object (s3_client_of c) (s3_bucket c) ?k b s1 = (y, s2)" by fastforce
  have h: "obj s1 = obj s" "\<forall>n. x = S3Ok n \<longrightarrow> (\<exists>b. obj s ?k = Some b)" "\<forall>e. x = S3NotFound e \<longrightarrow> obj s ?k = None"
      "up s \<longrightarrow> up s1 \<and> (\<forall>e. x \<noteq> S3Err e)"
    using K hd unfolding s3_sdk_ok_def s3_head_ok_def by blast+
  show ?thesis
  proof (cases "s3_is_ok x")
    case True
    then obtain n where n: "x = S3Ok n" by (cases x) auto
    then have "r = Ok False" "s' = s1" using put F hd by (simp_all add: s3_put_def)
    then show ?thesis
      using h n inv s3_contents_cong [of obj s1 s F] by (auto simp: s3_inv_def s3_contents_def)
  next
    case False
    then have run: "r = (if y = S3Ok () then Ok True else Err ''s3 put_object'')" "s' = s2"
      using put F hd pt by (cases y; simp add: s3_put_def)+
    have p: "obj s2 \<in> {obj s, (obj s)(?k \<mapsto> b)}" "y = S3Ok () \<longrightarrow> obj s2 = (obj s)(?k \<mapsto> b)" "up s1 \<longrightarrow> up s2 \<and> y = S3Ok ()"
      using K pt h(1) unfolding s3_sdk_ok_def s3_put_ok_def by metis+
    have "up s \<longrightarrow> obj s ?k = None" using h(3,4) False by (cases x) auto
    moreover have "s3_inv obj s2" using inv len p(1) by (auto simp: s3_inv_def split: if_splits)
    moreover have "s3_contents F obj s2 \<in> {s3_contents F obj s, (s3_contents F obj s)(k \<mapsto> b)}"
      using p(1) s3_contents_cong [of obj s2 s F] s3_contents_upd [OF F, of obj s2 s k "Some b"] by blast
    ultimately show ?thesis
      using run p h(4) s3_contents_upd [OF F, of obj s2 s k "Some b"] by (auto simp: s3_contents_def)
  qed
qed

lemma s3_head_law:
  assumes F: "hex_ok F" and K: "s3_sdk_ok c obj up" and inv: "s3_inv obj s" and hd: "s3_head F c k s = (r, s')"
  shows "s3_inv obj s' \<and> r \<noteq> Panic \<and> s3_contents F obj s' = s3_contents F obj s \<and>
     (\<forall>m. r = Ok m \<longrightarrow> m = map_option (\<lambda>b. \<lparr>om_len = of_nat (length b)\<rparr>) (s3_contents F obj s k)) \<and>
     (up s \<longrightarrow> up s' \<and> (\<exists>m. r = Ok m))"
proof -
  obtain x s1 where h: "sc_head_object (s3_client_of c) (s3_bucket c) (s3_key F k) s = (x, s1)" by fastforce
  have o: "obj s1 = obj s" "\<forall>n. x = S3Ok n \<longrightarrow> (\<exists>b. obj s (s3_key F k) = Some b \<and> n = Some (int (length b)))"
      "\<forall>e. x = S3NotFound e \<longrightarrow> obj s (s3_key F k) = None" "up s \<longrightarrow> up s1 \<and> (\<forall>e. x \<noteq> S3Err e)"
    using K h unfolding s3_sdk_ok_def s3_head_ok_def by blast+
  show ?thesis
    using hd F h o inv s3_contents_cong [of obj s1 s F]
    by (cases x) (auto simp: s3_head_def s3_inv_def s3_contents_def)
qed

lemma s3_get_law:
  assumes F: "hex_ok F" and K: "s3_sdk_ok c obj up" and inv: "s3_inv obj s" and get: "s3_get_range F c k i j s = (r, s')"
  shows "s3_inv obj s' \<and> r \<noteq> Panic \<and> s3_contents F obj s' = s3_contents F obj s \<and>
     (\<forall>d. i \<le> j \<and> r = Ok d \<longrightarrow> (\<exists>b. s3_contents F obj s k = Some b \<and> d = byte_range b i j)) \<and>
     (up s \<longrightarrow> up s' \<and> (\<forall>b. s3_contents F obj s k = Some b \<and> unat i < length b \<and> i \<le> j \<longrightarrow> (\<exists>d. r = Ok d)))"
proof -
  obtain x s1 where g: "sc_get_object (s3_client_of c) (s3_bucket c) (s3_key F k)
      (''bytes='' @ show_u64 i @ ''-'' @ show_u64 j) s = (x, s1)" by fastforce
  have o: "obj s1 = obj s" "\<forall>d. i \<le> j \<and> x = S3Ok (S3Ok d) \<longrightarrow> (\<exists>b. obj s (s3_key F k) = Some b \<and> d = byte_range b i j)"
      "up s \<longrightarrow> up s1 \<and> (\<forall>b. obj s (s3_key F k) = Some b \<and> i \<le> j \<and> unat i < length b \<longrightarrow> (\<exists>d. x = S3Ok (S3Ok d)))"
    using K g unfolding s3_sdk_ok_def s3_get_ok_def by blast+
  have run: "s' = s1" "r = (case x of S3Ok y \<Rightarrow> (case y of S3Ok d \<Rightarrow> Ok d | _ \<Rightarrow> Err ''s3 collect body'') | _ \<Rightarrow> Err ''s3 get_object'')"
    using get F g unfolding s3_get_range_def by (auto split: s3_res.splits)
  show ?thesis
    using run o inv s3_contents_cong [of obj s1 s F]
    by (auto simp: s3_inv_def s3_contents_def split: s3_res.splits)
qed

lemma s3_other_laws:
  assumes F: "hex_ok F" and K: "s3_sdk_ok c obj up" and inv: "s3_inv obj s"
  shows "s3_presign_get F c k ttl s = (ru, s') \<Longrightarrow>
       s3_inv obj s' \<and> ru \<noteq> Panic \<and> s3_contents F obj s' = s3_contents F obj s \<and>
       (up s \<and> ttl \<le> 604800 \<longrightarrow> up s' \<and> (\<exists>u. ru = Ok u))" (is "?presign \<Longrightarrow> ?P")
    and "s3_delete F c k s = (rd, s'') \<Longrightarrow>
       s3_inv obj s'' \<and> rd \<noteq> Panic \<and>
       s3_contents F obj s'' \<in> {s3_contents F obj s, (s3_contents F obj s)(k := None)} \<and>
       (rd = Ok () \<longrightarrow> s3_contents F obj s'' = (s3_contents F obj s)(k := None)) \<and>
       (up s \<longrightarrow> up s'' \<and> rd = Ok ())" (is "?delete \<Longrightarrow> ?D")
proof -
  obtain x s1 where p: "sc_presigned (s3_client_of c) (s3_bucket c) (s3_key F k) ttl s = (x, s1)" by fastforce
  have o: "obj s1 = obj s" "up s \<longrightarrow> up s1 \<and> (\<exists>u. x = S3Ok u)" "sc_expires_in (s3_client_of c) ttl \<longleftrightarrow> ttl \<le> 604800"
    using K p unfolding s3_sdk_ok_def s3_presign_ok_def by blast+
  show "?presign \<Longrightarrow> ?P"
    using F p o inv s3_contents_cong [of obj s1 s F]
    by (cases x) (auto simp: s3_presign_get_def s3_inv_def split: if_splits)
  obtain y s2 where d: "sc_delete_object (s3_client_of c) (s3_bucket c) (s3_key F k) s = (y, s2)" by fastforce
  have q: "obj s2 \<in> {obj s, (obj s)(s3_key F k := None)}" "y = S3Ok () \<longrightarrow> obj s2 = (obj s)(s3_key F k := None)"
      "up s \<longrightarrow> up s2 \<and> y = S3Ok ()"
    using K d unfolding s3_sdk_ok_def s3_delete_ok_def by blast+
  have "s3_inv obj s2" using inv q(1) by (auto simp: s3_inv_def split: if_splits)
  moreover have "s3_contents F obj s2 \<in> {s3_contents F obj s, (s3_contents F obj s)(k := None)}"
    using q(1) s3_contents_cong [of obj s2 s F] s3_contents_upd [OF F, of obj s2 s k None] by blast
  ultimately show "?delete \<Longrightarrow> ?D"
    using F d q s3_contents_upd [OF F, of obj s2 s k None] by (cases y) (auto simp: s3_delete_def)
qed

text \<open>The laws of the contract, one by one.\<close>

lemma s3_contract:
  assumes "hex_ok F" and "s3_sdk_ok c obj up"
  shows "blob_store (s3_ops F c) (s3_contents F obj) (s3_inv obj) up"
proof (unfold_locales, goal_cases)
  case (1 s b k r s')
  then show ?case using s3_put_law [OF assms 1(1,2)] by (simp add: s3_ops_def)
next
  case (2 s b k r s')
  then show ?case using s3_put_law [OF assms 2(1,3)] by (simp add: s3_ops_def)
next
  case (3 s k rh s')
  then show ?case using s3_head_law [OF assms 3(1)] by (simp add: s3_ops_def)
next
  case (4 s k rh s')
  then show ?case using s3_head_law [OF assms 4(1)] by (simp add: s3_ops_def)
next
  case (5 s i j k rg s')
  then show ?case using s3_get_law [OF assms 5(1)] by (simp add: s3_ops_def)
next
  case (6 s k i j rg s')
  then show ?case using s3_get_law [OF assms 6(1)] by (simp add: s3_ops_def)
next
  case (7 s k ttl ru s')
  then show ?case using s3_other_laws(1) [OF assms 7(1)] by (simp add: s3_ops_def)
next
  case (8 s ttl k ru s')
  then show ?case using s3_other_laws(1) [OF assms 8(1)] by (simp add: s3_ops_def)
next
  case (9 s k rd s')
  then show ?case using s3_other_laws(2) [OF assms 9(1)] by (simp add: s3_ops_def)
next
  case (10 s k rd s')
  then show ?case using s3_other_laws(2) [OF assms 10(1)] by (simp add: s3_ops_def)
next
  case (11 s k b)
  then show ?case by (simp add: s3_inv_def s3_contents_def)
qed

text \<open>
  C28. Over an object store that behaves as documented, the S3 backend fulfils the contract of a blob store:
  under any failures a put leaves the old contents or adds exactly the given object, reads never
  invent data, a delete removes at most its key; without failures every call succeeds.
\<close>

theorem s3_blob_store:
  assumes "hex_ok F" and "s3_sdk_ok c obj up"
  shows "blob_store (s3_ops F c) (s3_contents F obj) (s3_inv obj) up"
  using assms by (rule s3_contract)

text \<open>A bucket in memory that never fails.\<close>

definition mem_client :: "(string \<Rightarrow> bytes option) s3_client" where
  "mem_client =
     \<lparr>sc_head_object = (\<lambda>_ k s. (case s k of None \<Rightarrow> S3NotFound ''NoSuchKey'' | Some b \<Rightarrow> S3Ok (Some (int (length b))), s)),
      sc_put_object = (\<lambda>_ k b s. (S3Ok (), s(k \<mapsto> b))),
      sc_get_object = (\<lambda>_ k rng s. (case s k of
          None \<Rightarrow> S3Err ''NoSuchKey''
        | Some b \<Rightarrow> (case split_once CHR ''-'' (drop 6 rng) of
             None \<Rightarrow> S3Err ''InvalidRange''
           | Some (x, y) \<Rightarrow> (case (parse_u64 x, parse_u64 y) of
                (Some i, Some j) \<Rightarrow> if i \<le> j \<and> unat i < length b then S3Ok (S3Ok (byte_range b i j)) else S3Err ''InvalidRange''
              | _ \<Rightarrow> S3Err ''InvalidRange'')), s)),
      sc_expires_in = (\<lambda>ttl. ttl \<le> 604800),
      sc_presigned = (\<lambda>bucket k ttl s. (S3Ok (''https://s3/'' @ bucket @ ''/'' @ k), s)),
      sc_delete_object = (\<lambda>_ k s. (S3Ok (), s(k := None)))\<rparr>"

definition mem_store :: "(string \<Rightarrow> bytes option) s3_blob_store" where
  "mem_store = \<lparr>s3_client_of = mem_client, s3_bucket = ''xorbs''\<rparr>"

lemma mem_sdk_ok: "s3_sdk_ok mem_store (\<lambda>s. s) (\<lambda>_. True)"
proof -
  have "s3_get_ok mem_store (\<lambda>s. s) (\<lambda>_. True)"
    by (auto simp: s3_get_ok_def mem_store_def mem_client_def split_once_append split: option.splits)
  then show ?thesis
    by (auto simp: s3_sdk_ok_def s3_put_ok_def s3_head_ok_def s3_presign_ok_def s3_delete_ok_def mem_store_def
        mem_client_def split: option.splits)
qed

theorem s3_blob_store_witness:
  "blob_store (s3_ops sample_fork mem_store) (s3_contents sample_fork (\<lambda>s. s)) (s3_inv (\<lambda>s. s)) (\<lambda>_. True)"
  using s3_blob_store [OF sample_hex_ok mem_sdk_ok] .

text \<open>
  The server over the S3 backend keeps its invariant as well, whatever requests arrive and whatever calls
  to the object store fail or lose their answer.
\<close>

theorem s3_reachable_server_inv:
  assumes "hex_ok F" and "s3_sdk_ok c obj up" and "validate_wf F" and "s3_inv obj s"
    and "blobs_valid F (s3_contents F obj s)"
    and "reachable to_str ovf F (s3_ops F c) (app_state_new s auth rt wt) st"
  shows "server_inv F (s3_contents F obj (as_blob st)) st"
proof -
  note C = s3_contract [OF assms(1,2)]
  have "blob_store.good (s3_contents F obj) (s3_inv obj) F (app_state_new s auth rt wt)"
    using assms(4,5) server_inv_new by (simp add: blob_store.good_def [OF C])
  from blob_store.reachable_good [OF C assms(6) this assms(3)] show ?thesis
    by (simp add: blob_store.good_def [OF C])
qed

definition s3_sample_st :: "(string \<Rightarrow> bytes option) app_state" where
  "s3_sample_st = snd (put_xorb True sample_fork (s3_ops sample_fork mem_store) (hex sample_fork 99) [1, 97]
     (app_state_new (\<lambda>_. None) Loopback ''r'' ''w''))"

theorem s3_reachable_server_inv_witness:
  "server_inv sample_fork (s3_contents sample_fork (\<lambda>s. s) (as_blob s3_sample_st)) s3_sample_st"
proof (rule s3_reachable_server_inv [OF sample_hex_ok mem_sdk_ok sample_validate_wf])
  show "reachable Some True sample_fork (s3_ops sample_fork mem_store) (app_state_new (\<lambda>_. None) Loopback ''r'' ''w'') s3_sample_st"
    by (rule reachable.step [OF reachable.init, of "CPutXorb (hex sample_fork 99) [1, 97]"])
      (simp_all add: s3_sample_st_def prod_eq_iff MAX_BODY_BYTES_def)
qed (simp_all add: s3_inv_def blobs_valid_def s3_contents_def)

end
