(* ===== verification/Router.thy ===== *)
theory Router
  imports S3 Server_Maint
begin

text \<open>
  The HTTP surface of \<open>crates/xetd/src/main.rs\<close>: the command line and the start-up of \<open>main\<close>, the
  route table of \<open>router\<close>, the bearer-scope middleware \<open>auth_mw\<close> and \<open>random_token\<close>. The web
  framework is a parameter (\<open>axum\<close>): how a route template matches a path, how a JSON body
  is parsed and decoded, and the responses it makes itself.
\<close>

section \<open>Requests\<close>

datatype http_method = GET | HEAD | POST | OtherMethod string

text \<open>Header names are in lower case, as the \<open>http\<close> crate keeps them.\<close>

record request =
  rq_method :: http_method
  rq_path :: string
  rq_headers :: "(string \<times> string) list"
  rq_body :: bytes

record axum =
  ax_match :: "string \<Rightarrow> string \<Rightarrow> string list option"
  ax_json :: "request \<Rightarrow> response + json"
  ax_register :: "json \<Rightarrow> register_file_req option"
  ax_reject :: "nat \<Rightarrow> response"

section \<open>The route table\<close>

datatype endpoint =
    EReconstruct | EGlobalDedup | EPutXorb | EPutShard | ERegisterFile | EListEntries | EXorbData
  | ETestMetric | ETestMintToken | ETestNoop | ETestGc | ETestScrub

definition api_routes :: "(string \<times> http_method \<times> endpoint) list" where
  "api_routes =
     [(''/api/v1/reconstructions/{file_hash}'', GET, EReconstruct),
      (''/api/v1/chunks/{namespace}/{chunk_hash}'', GET, EGlobalDedup),
      (''/api/v1/xorbs/{namespace}/{xorb_hash}'', POST, EPutXorb),
      (''/api/v1/shards'', POST, EPutShard),
      (''/api/v1/files'', POST, ERegisterFile),
      (''/api/v1/volumes/{volume}/entries'', GET, EListEntries),
      (''/api/v1/xorb-data/{xorb_hash}'', GET, EXorbData)]"

definition admin_routes :: "(string \<times> http_method \<times> endpoint) list" where
  "admin_routes =
     [(''/admin/test/metric/{name}'', GET, ETestMetric),
      (''/admin/test/mint_token'', POST, ETestMintToken),
      (''/admin/test/fault'', POST, ETestNoop),
      (''/admin/test/crash_at'', POST, ETestNoop),
      (''/admin/test/dedup_key'', POST, ETestNoop),
      (''/admin/test/gc'', POST, ETestGc),
      (''/admin/test/scrub'', POST, ETestScrub)]"

definition routes :: "bool \<Rightarrow> (string \<times> http_method \<times> endpoint) list" where
  "routes test_hooks = api_routes @ (if test_hooks then admin_routes else [])"

text \<open>\<open>get(h)\<close> also answers \<open>HEAD\<close>.\<close>

definition method_ok :: "http_method \<Rightarrow> http_method \<Rightarrow> bool" where
  "method_ok m rq \<longleftrightarrow> rq = m \<or> m = GET \<and> rq = HEAD"

text \<open>
  The extractors of a handler: path captures, the \<open>Range\<close> header, the body under the body limit.
  \<open>Inl\<close> is a rejection by the framework.
\<close>

definition limited :: "axum \<Rightarrow> request \<Rightarrow> (response + call) \<Rightarrow> response + call" where
  "limited AX req r = (if MAX_BODY_BYTES < length (rq_body req) then Inl (ax_reject AX 413) else r)"

definition extract_call :: "axum \<Rightarrow> endpoint \<Rightarrow> string list \<Rightarrow> request \<Rightarrow> response + call" where
  "extract_call AX e ps req =
     (case (e, ps) of
        (EReconstruct, [h]) \<Rightarrow> Inr (CReconstruct h)
      | (EGlobalDedup, [ns, h]) \<Rightarrow> Inr (CGlobalDedup h)
      | (EPutXorb, [ns, h]) \<Rightarrow> limited AX req (Inr (CPutXorb h (rq_body req)))
      | (EPutShard, _) \<Rightarrow> Inr CPutShard
      | (ERegisterFile, _) \<Rightarrow> limited AX req
          (case ax_json AX req of
             Inl resp \<Rightarrow> Inl resp
           | Inr j \<Rightarrow> (case ax_register AX j of None \<Rightarrow> Inl (ax_reject AX 422) | Some r \<Rightarrow> Inr (CRegisterFile r)))
      | (EListEntries, [v]) \<Rightarrow> Inr (CListEntries v)
      | (EXorbData, [h]) \<Rightarrow> Inr (CXorbData h (map_of (rq_headers req) ''range''))
      | (ETestMetric, [name]) \<Rightarrow> Inr (CMetric name)
      | (ETestMintToken, _) \<Rightarrow> limited AX req
          (case ax_json AX req of Inl resp \<Rightarrow> Inl resp | Inr j \<Rightarrow> Inr (CMintToken j))
      | (ETestNoop, _) \<Rightarrow> Inr CNoop
      | (ETestGc, _) \<Rightarrow> Inr CGc
      | (ETestScrub, _) \<Rightarrow> Inr CScrub
      | _ \<Rightarrow> Inl (ax_reject AX 500))"

fun match_routes ::
  "axum \<Rightarrow> string \<Rightarrow> (string \<times> http_method \<times> endpoint) list \<Rightarrow> (http_method \<times> endpoint \<times> string list) option" where
  "match_routes AX path [] = None"
| "match_routes AX path ((tpl, m, e) # rs) =
     (case ax_match AX tpl path of Some ps \<Rightarrow> Some (m, e, ps) | None \<Rightarrow> match_routes AX path rs)"

definition dispatch :: "axum \<Rightarrow> bool \<Rightarrow> request \<Rightarrow> response + call" where
  "dispatch AX test_hooks req =
     (case match_routes AX (rq_path req) (routes test_hooks) of
        None \<Rightarrow> Inl (ax_reject AX 404)
      | Some (m, e, ps) \<Rightarrow> if method_ok m (rq_method req) then extract_call AX e ps req else Inl (ax_reject AX 405))"

definition head_strip :: "http_method \<Rightarrow> response res \<Rightarrow> response res" where
  "head_strip m r = (if m = HEAD then (case r of Ok resp \<Rightarrow> Ok (resp\<lparr>rs_body := NoBody\<rparr>) | _ \<Rightarrow> r) else r)"

definition run_route ::
  "(string \<Rightarrow> string option) \<Rightarrow> axum \<Rightarrow> bool \<Rightarrow> fork \<Rightarrow> 'b blob_ops \<Rightarrow> bool \<Rightarrow> request \<Rightarrow> 'b app_state
     \<Rightarrow> response res \<times> 'b app_state" where
  "run_route to_str AX ovf F B test_hooks req st =
     (case dispatch AX test_hooks req of
        Inl resp \<Rightarrow> (head_strip (rq_method req) (Ok resp), st)
      | Inr c \<Rightarrow> (case handle to_str ovf F B c st of (r, st') \<Rightarrow> (head_strip (rq_method req) r, st')))"

section \<open>Authentication\<close>

definition bearer :: "(string \<Rightarrow> string option) \<Rightarrow> request \<Rightarrow> string" where
  "bearer to_str req =
     (case Option.bind (Option.bind (map_of (rq_headers req) ''authorization'') to_str) (strip_prefix ''Bearer '') of
        None \<Rightarrow> [] | Some t \<Rightarrow> t)"

definition auth_mw ::
  "(string \<Rightarrow> string option) \<Rightarrow> (request \<Rightarrow> 'b app_state \<Rightarrow> response res \<times> 'b app_state) \<Rightarrow> request \<Rightarrow> 'b app_state
     \<Rightarrow> response res \<times> 'b app_state" where
  "auth_mw to_str run_next req st =
     (if as_auth st = Loopback \<or> starts_with ''/admin/'' (rq_path req) then run_next req st
      else let need_write = (rq_method req = POST);
               token = bearer to_str req
        in if token = [] then (Ok (with_text 401 ''missing bearer token''), st)
           else let ok = (if need_write then token = as_write_token st
                          else token = as_read_token st \<or> token = as_write_token st)
             in if ok then run_next req st else (Ok (with_text 403 ''insufficient scope''), st))"

text \<open>The application: \<open>router\<close> with its layers.\<close>

definition router ::
  "(string \<Rightarrow> string option) \<Rightarrow> axum \<Rightarrow> bool \<Rightarrow> fork \<Rightarrow> 'b blob_ops \<Rightarrow> bool \<Rightarrow> request \<Rightarrow> 'b app_state
     \<Rightarrow> response res \<times> 'b app_state" where
  "router to_str AX ovf F B test_hooks = auth_mw to_str (run_route to_str AX ovf F B test_hooks)"

section \<open>Start-up\<close>

text \<open>
  \<open>random_token\<close>: \<open>buf\<close> is the sixteen-byte buffer after the read; \<open>None\<close> says that
  \<open>/dev/urandom\<close> could not be opened, which leaves it zero.
\<close>

definition hex2 :: "u8 \<Rightarrow> string" where
  "hex2 b = [''0123456789abcdef'' ! (unat b div 16), ''0123456789abcdef'' ! (unat b mod 16)]"

definition random_token :: "string \<Rightarrow> bytes option \<Rightarrow> string" where
  "random_token prefix buf =
     prefix @ ''-'' @ concat (map hex2 (case buf of None \<Rightarrow> replicate 16 0 | Some b \<Rightarrow> b))"

datatype durability = Close | Fsync
datatype auth_arg = AuthLoopback | AuthTokens
datatype backend = BackendLocalFs | BackendS3

record args =
  ar_listen :: string
  ar_data_dir :: path
  ar_db :: path
  ar_durability :: durability
  ar_auth :: auth_arg
  ar_backend :: backend
  ar_blob_root :: "path option"
  ar_s3_endpoint :: "string option"
  ar_s3_bucket :: "string option"
  ar_s3_path_style :: bool
  ar_test_hooks :: bool
  ar_ready_file :: "path option"

definition local_store_of :: "args \<Rightarrow> string \<Rightarrow> local_fs_blob_store" where
  "local_store_of a addr =
     local_fs_new (case ar_blob_root a of None \<Rightarrow> ar_data_dir a @ [''blobs''] | Some r \<Rightarrow> r) (''http://'' @ addr)"

text \<open>
  \<open>construct_s3\<close> with and without the \<open>s3\<close> feature; \<open>mk\<close> is \<open>Client::from_conf\<close>.
\<close>

definition construct_s3 ::
  "bool \<Rightarrow> (string \<Rightarrow> string option) \<Rightarrow> (s3_conf \<Rightarrow> 's s3_client) \<Rightarrow> args \<Rightarrow> 's s3_blob_store res" where
  "construct_s3 feature env mk a =
     (if \<not> feature then Err ''s3 backend not enabled; rebuild with --features s3''
      else
        bind_res (context_opt ''--s3-endpoint is required for the s3 backend'' (ar_s3_endpoint a)) (\<lambda>endpoint.
        bind_res (context_opt ''--s3-bucket is required for the s3 backend'' (ar_s3_bucket a)) (\<lambda>bucket.
        bind_res (context_opt ''AWS_ACCESS_KEY_ID not set'' (env ''AWS_ACCESS_KEY_ID'')) (\<lambda>access.
        bind_res (context_opt ''AWS_SECRET_ACCESS_KEY not set'' (env ''AWS_SECRET_ACCESS_KEY'')) (\<lambda>secret.
        Ok (s3_blob_store_new mk endpoint bucket access secret (ar_s3_path_style a)))))))"

definition auth_mode_of :: "auth_arg \<Rightarrow> auth_mode" where
  "auth_mode_of v = (case v of AuthLoopback \<Rightarrow> Loopback | AuthTokens \<Rightarrow> Tokens)"

text \<open>The state that \<open>main\<close> starts serving with; the two buffers are what the token reads delivered.\<close>

definition main_state :: "args \<Rightarrow> 'b \<Rightarrow> bytes option \<Rightarrow> bytes option \<Rightarrow> 'b app_state" where
  "main_state a blob buf1 buf2 =
     app_state_new blob (auth_mode_of (ar_auth a)) (random_token ''read'' buf1) (random_token ''write'' buf2)"

section \<open>Documented behaviour of the framework\<close>

text \<open>The literal part of a template before its first capture.\<close>

definition literal_prefix :: "string \<Rightarrow> string" where
  "literal_prefix tpl = takeWhile (\<lambda>ch. ch \<noteq> CHR ''{'') tpl"

text \<open>A path segment that needs no percent-encoding.\<close>

definition plain :: "string \<Rightarrow> bool" where
  "plain s \<longleftrightarrow> list_all (\<lambda>ch. ch \<in> set ''0123456789abcdefghijklmnopqrstuvwxyzABCDEFGHIJKLMNOPQRSTUVWXYZ-_'') s"

fun seg_match :: "string list \<Rightarrow> string list \<Rightarrow> string list option" where
  "seg_match [] [] = Some []"
| "seg_match (t # ts) (s # ss) =
     (if starts_with ''{'' t then (if s = [] then None else map_option ((#) s) (seg_match ts ss))
      else if t = s then seg_match ts ss else None)"
| "seg_match _ _ = None"

text \<open>
  A template is only matched by paths that start with its literal part; on paths of plain segments it is
  matched segment by segment, a capture taking one non-empty segment. Rejections carry their status code.
\<close>

definition axum_ok :: "axum \<Rightarrow> bool" where
  "axum_ok AX \<longleftrightarrow>
     (\<forall>tpl path ps. ax_match AX tpl path = Some ps \<longrightarrow> starts_with (literal_prefix tpl) path) \<and>
     (\<forall>tpl path. list_all plain (split_on CHR ''/'' path) \<longrightarrow>
        ax_match AX tpl path = seg_match (split_on CHR ''/'' tpl) (split_on CHR ''/'' path)) \<and>
     (\<forall>n. rs_status (ax_reject AX n) = n)"

section \<open>What reaches a handler\<close>

lemma dispatch_admitted: "dispatch AX hooks req = Inr c \<Longrightarrow> admitted c"
  by (auto simp: dispatch_def extract_call_def limited_def not_less
      split: option.splits if_splits endpoint.splits list.splits sum.splits)

fun reads :: "call \<Rightarrow> bool" where
  "reads (CReconstruct _) = True"
| "reads (CGlobalDedup _) = True"
| "reads (CListEntries _) = True"
| "reads (CXorbData _ _) = True"
| "reads (CMetric _) = True"
| "reads _ = False"

lemma match_routes_mem:
  "match_routes AX path rs = Some (m, e, ps) \<Longrightarrow> \<exists>tpl. (tpl, m, e) \<in> set rs \<and> ax_match AX tpl path = Some ps"
  by (induction rs) (auto split: option.splits)

lemma dispatch_not_post:
  assumes "dispatch AX hooks req = Inr c" "rq_method req \<noteq> POST"
  shows "reads c"
proof -
  from assms(1) obtain m e ps where mr: "match_routes AX (rq_path req) (routes hooks) = Some (m, e, ps)"
    "method_ok m (rq_method req)" "extract_call AX e ps req = Inr c"
    by (auto simp: dispatch_def split: option.splits if_splits)
  have "m \<noteq> POST" using mr(2) assms(2) by (auto simp: method_ok_def)
  moreover obtain tpl where "(tpl, m, e) \<in> set (routes hooks)" using match_routes_mem [OF mr(1)] by blast
  ultimately have "e \<in> {EReconstruct, EGlobalDedup, EListEntries, EXorbData, ETestMetric}"
    by (auto simp: routes_def api_routes_def admin_routes_def split: if_splits)
  then show ?thesis
    using mr(3) by (auto simp: extract_call_def split: list.splits)
qed

text \<open>Without the test hooks nothing answers under the path prefix that skips authentication.\<close>

lemma starts_with_trans: "starts_with p s \<Longrightarrow> starts_with q p \<Longrightarrow> starts_with q s"
  by (auto simp: starts_with_def) (metis append_take_drop_id append.assoc append_eq_conv_conj)

lemma starts_with_nth: "starts_with p s \<Longrightarrow> i < length p \<Longrightarrow> s ! i = p ! i"
  by (metis nth_take starts_with_def)

lemma dispatch_admin_off:
  assumes AX: "axum_ok AX" and path: "starts_with ''/admin/'' (rq_path req)"
  shows "dispatch AX False req = Inl (ax_reject AX 404)"
proof -
  have "match_routes AX (rq_path req) (routes False) = None"
  proof (rule ccontr)
    assume "match_routes AX (rq_path req) (routes False) \<noteq> None"
    then obtain m e ps where "match_routes AX (rq_path req) (routes False) = Some (m, e, ps)" by auto
    then obtain tpl where tpl: "(tpl, m, e) \<in> set api_routes" "ax_match AX tpl (rq_path req) = Some ps"
      using match_routes_mem by (fastforce simp: routes_def)
    have "starts_with ''/api/'' (literal_prefix tpl)"
      using tpl(1) by (auto simp: api_routes_def literal_prefix_def starts_with_def)
    moreover have "starts_with (literal_prefix tpl) (rq_path req)" using AX tpl(2) by (auto simp: axum_ok_def)
    ultimately have "starts_with ''/api/'' (rq_path req)" by (metis starts_with_trans)
    then show False using path starts_with_nth [of "''/api/''" "rq_path req" 2] starts_with_nth [of "''/admin/''" "rq_path req" 2]
      by simp
  qed
  then show ?thesis by (simp add: dispatch_def)
qed

lemma handle_keeps_auth:
  "handle to_str ovf F B c st = (r, st') \<Longrightarrow>
     as_auth st' = as_auth st \<and> as_read_token st' = as_read_token st \<and> as_write_token st' = as_write_token st"
proof (cases c)
  case (CPutXorb h body)
  then show "handle to_str ovf F B c st = (r, st') \<Longrightarrow> ?thesis"
    by (auto simp: put_xorb_def Let_def split: option.splits res.splits prod.splits if_splits)
next
  case (CReconstruct h)
  then show "handle to_str ovf F B c st = (r, st') \<Longrightarrow> ?thesis"
    by (auto simp: reconstruct_def split: option.splits res.splits prod.splits if_splits sum.splits)
next
  case (CXorbData h rng)
  then show "handle to_str ovf F B c st = (r, st') \<Longrightarrow> ?thesis"
    by (auto simp: xorb_data_def split: option.splits res.splits prod.splits)
next
  case CGc
  have "gc_sweep B R xs n s = (q, s') \<Longrightarrow>
      as_auth s' = as_auth s \<and> as_read_token s' = as_read_token s \<and> as_write_token s' = as_write_token s" for R xs n s q s'
    by (induction xs arbitrary: n s) (auto split: res.splits prod.splits if_splits)
  then show "handle to_str ovf F B c st = (r, st') \<Longrightarrow> ?thesis"
    using CGc by (auto simp: test_gc_def split: res.splits prod.splits if_splits)
next
  case CScrub
  then show "handle to_str ovf F B c st = (r, st') \<Longrightarrow> ?thesis"
    by (auto simp: test_scrub_def split: res.splits prod.splits if_splits)
qed (auto simp: global_dedup_def put_shard_def register_file_def list_entries_def test_metric_def
      test_mint_token_def test_noop_def Let_def split: option.splits if_splits sum.splits)

lemma reads_frame:
  assumes good: "lfs.good F c F st" and c: "reads call"
    and h: "handle to_str ovf F (local_fs_ops ovf F c) call st = (r, st')"
  shows "as_index st' = as_index st \<and> local_fs_contents F c (as_blob st') = local_fs_contents F c (as_blob st)"
proof (cases call)
  case (CReconstruct hh)
  then show ?thesis using h lfs.reconstruct_good [OF good, of ovf ovf hh r st'] by simp
next
  case (CXorbData hh rng)
  then show ?thesis using h lfs.xorb_data_good [OF good, of to_str ovf hh rng r st'] by simp
next
  case (CGlobalDedup hh)
  then show ?thesis using h by (auto simp: global_dedup_def split: option.splits if_splits)
qed (use c h in \<open>auto simp: list_entries_def test_metric_def split: if_splits\<close>)

lemma router_step:
  assumes "router to_str AX ovf F B hooks req st = (r, st')"
  shows "st' = st \<or> (\<exists>c r'. admitted c \<and> handle to_str ovf F B c st = (r', st'))"
  using assms dispatch_admitted [of AX hooks req]
  by (auto simp: router_def auth_mw_def run_route_def Let_def split: if_splits sum.splits prod.splits)

text \<open>Requests served one after the other.\<close>

fun serve_all ::
  "(request \<Rightarrow> 'b app_state \<Rightarrow> response res \<times> 'b app_state) \<Rightarrow> request list \<Rightarrow> 'b app_state \<Rightarrow> 'b app_state" where
  "serve_all app [] st = st"
| "serve_all app (q # qs) st = serve_all app qs (snd (app q st))"

lemma serve_all_reachable:
  "reachable to_str ovf F B st0 st \<Longrightarrow> reachable to_str ovf F B st0 (serve_all (router to_str AX ovf F B hooks) qs st)"
proof (induction qs arbitrary: st)
  case (Cons q qs)
  obtain r st' where run: "router to_str AX ovf F B hooks q st = (r, st')" by fastforce
  have "reachable to_str ovf F B st0 st'"
    using router_step [OF run] Cons.prems by (auto intro: reachable.step)
  then show ?case using Cons.IH run by simp
qed simp

section \<open>Properties of the HTTP surface\<close>

text \<open>Any sequence of HTTP requests leaves store and index consistent.\<close>

lemma http_sessions_keep_inv:
  assumes "validate_wf F" and "local_fs_inv F (local_store_of a addr) f"
    and "blobs_valid F (local_fs_contents F (local_store_of a addr) f)"
  shows "server_inv F (local_fs_contents F (local_store_of a addr) (as_blob
       (serve_all (router to_str AX ovf F (local_fs_ops ovf F (local_store_of a addr)) hooks) qs (main_state a f buf1 buf2))))
     (serve_all (router to_str AX ovf F (local_fs_ops ovf F (local_store_of a addr)) hooks) qs (main_state a f buf1 buf2))"
proof -
  let ?c = "local_store_of a addr"
  have "lfs.good F ?c F (main_state a f buf1 buf2)"
    using assms(2,3) server_inv_new [of F "local_fs_contents F ?c f" f] by (simp add: lfs.good_def main_state_def)
  from lfs.reachable_good [OF serve_all_reachable [OF reachable.init] this assms(1)]
  show ?thesis by (simp add: lfs.good_def)
qed

text \<open>
  C26. In tokens mode, a request that does not carry the write token changes neither index nor
  stored objects, as long as the server runs without test hooks or the path is not below \<open>/admin/\<close>; a POST of such a request, and any
  request with neither token, changes nothing at all and is answered 401, 403 or 404. So without test hooks the exemption of the
  \<open>/admin/\<close> prefix opens no way around the tokens. (With them it does, as intended: the hooks ask for no token.)
\<close>

theorem no_write_token_no_change:
  assumes "axum_ok AX" and "local_fs_inv F c (as_blob st)" and "server_inv F (local_fs_contents F c (as_blob st)) st"
    and "as_auth st = Tokens" and "bearer to_str req \<noteq> as_write_token st"
    and hooks: "hooks \<longrightarrow> \<not> starts_with ''/admin/'' (rq_path req)"
    and "router to_str AX ovf F (local_fs_ops ovf F c) hooks req st = (r, st')"
  shows "as_index st' = as_index st \<and>
     local_fs_contents F c (as_blob st') = local_fs_contents F c (as_blob st) \<and>
     (rq_method req = POST \<or> bearer to_str req \<noteq> as_read_token st \<longrightarrow>
        st' = st \<and> (\<exists>resp. r = Ok resp \<and> rs_status resp \<in> {401, 403, 404}))"
proof (cases "starts_with ''/admin/'' (rq_path req)")
  case True
  then have "r = head_strip (rq_method req) (Ok (ax_reject AX 404))" "st' = st"
    using assms(7) hooks dispatch_admin_off [OF assms(1) True] by (auto simp: router_def auth_mw_def run_route_def)
  then show ?thesis using assms(1) by (auto simp: head_strip_def axum_ok_def)
next
  case False
  show ?thesis
  proof (cases "rq_method req = POST \<or> bearer to_str req \<noteq> as_read_token st \<or> bearer to_str req = []")
    case True
    then show ?thesis
      using False assms(4,5,7) by (auto simp: router_def auth_mw_def Let_def split: if_splits)
  next
    case rd: False
    then have run: "run_route to_str AX ovf F (local_fs_ops ovf F c) hooks req st = (r, st')"
      using False assms(4,7) by (simp add: router_def auth_mw_def)
    have good: "lfs.good F c F st" using assms(2,3) by (simp add: lfs.good_def)
    show ?thesis
    proof (cases "dispatch AX hooks req")
      case (Inl resp)
      then show ?thesis using run rd by (simp add: run_route_def)
    next
      case (Inr call)
      obtain r0 where h: "handle to_str ovf F (local_fs_ops ovf F c) call st = (r0, st')"
        using run Inr by (auto simp: run_route_def split: prod.splits)
      have "reads call" using dispatch_not_post [OF Inr] rd by blast
      then have "as_index st' = as_index st \<and> local_fs_contents F c (as_blob st') = local_fs_contents F c (as_blob st)"
        by (rule reads_frame [OF good _ h])
      then show ?thesis using rd by blast
    qed
  qed
qed

lemma random_tokens_differ: "random_token ''read'' b1 \<noteq> random_token ''write'' b2"
  by (simp add: random_token_def)

lemma reachable_tokens:
  "reachable to_str ovf F B st0 st \<Longrightarrow>
     as_auth st = as_auth st0 \<and> as_read_token st = as_read_token st0 \<and> as_write_token st = as_write_token st0"
  by (induction rule: reachable.induct) (auto dest!: handle_keeps_auth)

text \<open>
  C31. In tokens mode the read token never has write scope: whatever the random source delivered for either token, a POST outside the
  test hooks that carries the read token is refused with 403 and changes nothing, in every state the
  server reaches.
\<close>

theorem read_token_cannot_write:
  assumes "reachable to_str ovf F B (main_state a blob b1 b2) st" and "ar_auth a = AuthTokens"
    and "bearer to_str req = random_token ''read'' b1" and "rq_method req = POST"
    and "\<not> starts_with ''/admin/'' (rq_path req)"
  shows "router to_str AX ovf F B hooks req st = (Ok (with_text 403 ''insufficient scope''), st)"
proof -
  have st: "as_auth st = Tokens" "as_write_token st = random_token ''write'' b2"
    using reachable_tokens [OF assms(1)] assms(2) by (simp_all add: main_state_def auth_mode_of_def app_state_new_def)
  have "bearer to_str req \<noteq> []" using assms(3) by (simp add: random_token_def)
  then show ?thesis
    using st assms(3-5) random_tokens_differ [of b1 b2] by (simp add: router_def auth_mw_def)
qed

lemma hex2_inj: "hex2 b = hex2 b' \<longleftrightarrow> b = b'"
proof -
  have d: "distinct ''0123456789abcdef''" by simp
  have "unat b < 256" "unat b' < 256" using unsigned_less [of b] unsigned_less [of b'] by simp_all
  then have "unat b div 16 < 16" "unat b' div 16 < 16" by simp_all
  then have "hex2 b = hex2 b' \<longleftrightarrow> unat b div 16 = unat b' div 16 \<and> unat b mod 16 = unat b' mod 16"
    by (simp add: hex2_def nth_eq_iff_index_eq [OF d])
  also have "\<dots> \<longleftrightarrow> unat b = unat b'" by (metis div_mult_mod_eq)
  also have "\<dots> \<longleftrightarrow> b = b'" by (rule word_unat_eq_iff [symmetric])
  finally show ?thesis .
qed

lemma concat_hex2_inj: "concat (map hex2 xs) = concat (map hex2 ys) \<Longrightarrow> xs = ys"
proof (induction xs arbitrary: ys)
  case Nil
  then show ?case by (cases ys) (auto simp: hex2_def)
next
  case (Cons x xs)
  then obtain y ys' where ys: "ys = y # ys'" by (cases ys) (auto simp: hex2_def)
  have "hex2 x @ concat (map hex2 xs) = hex2 y @ concat (map hex2 ys')" using Cons.prems ys by simp
  moreover have "length (hex2 x) = length (hex2 y)" by (simp add: hex2_def)
  ultimately have "hex2 x = hex2 y" "concat (map hex2 xs) = concat (map hex2 ys')" by auto
  then show ?case using Cons.IH ys hex2_inj by simp
qed

lemma zero_buffer: "concat (map hex2 (replicate 16 0)) = replicate 32 CHR ''0''"
  by code_simp

text \<open>
  Tokens from two different sixteen-byte buffers differ, so a token carries all the randomness that was
  read; when the random source cannot be opened the token is a fixed, publicly known string.
\<close>

theorem random_token_entropy:
  "(random_token prefix (Some b) = random_token prefix (Some b') \<longleftrightarrow> b = b') \<and>
   random_token prefix None = prefix @ ''-'' @ replicate 32 CHR ''0''"
proof
  show "random_token prefix (Some b) = random_token prefix (Some b') \<longleftrightarrow> b = b'"
    using concat_hex2_inj [of b b'] by (auto simp: random_token_def)
  show "random_token prefix None = prefix @ ''-'' @ replicate 32 CHR ''0''"
    using zero_buffer by (simp add: random_token_def)
qed

section \<open>A concrete matcher\<close>

definition sample_axum :: axum where
  "sample_axum =
     \<lparr>ax_match = (\<lambda>tpl path. seg_match (split_on CHR ''/'' tpl) (split_on CHR ''/'' path)),
      ax_json = (\<lambda>req. Inl (status_only 400)), ax_register = (\<lambda>_. None), ax_reject = status_only\<rparr>"

lemma takeWhile_prefix: "starts_with (takeWhile P t) (t @ u)"
  by (metis append.assoc starts_with_append takeWhile_dropWhile_id)

lemma seg_match_prefix:
  "seg_match ts ss = Some ps \<Longrightarrow>
     starts_with (takeWhile (\<lambda>ch. ch \<noteq> CHR ''{'') (join ''/'' ts)) (join ''/'' ss)"
proof (induction ts ss arbitrary: ps rule: seg_match.induct)
  case (2 t ts s ss)
  show ?case
  proof (cases "starts_with ''{'' t")
    case True
    then obtain t' where "t = CHR ''{'' # t'" by (cases t) (auto simp: starts_with_def)
    then show ?thesis by (cases ts) (simp_all add: starts_with_def)
  next
    case False
    with 2 have eq: "t = s" "seg_match ts ss = Some ps" by (auto split: if_splits)
    have IH: "starts_with (takeWhile (\<lambda>ch. ch \<noteq> CHR ''{'') (join ''/'' ts)) (join ''/'' ss)"
      using "2.IH" (2) False eq by simp
    show ?thesis
    proof (cases "ts = []")
      case True
      then have "ss = []" using eq(2) by (cases ss) auto
      then show ?thesis using True eq(1) takeWhile_prefix [of _ s "[]"] by simp
    next
      case ts: False
      then have ss: "ss \<noteq> []" using eq(2) by (cases ts; cases ss) auto
      show ?thesis
      proof (cases "CHR ''{'' \<in> set t")
        case True
        then have "takeWhile (\<lambda>ch. ch \<noteq> CHR ''{'') (join ''/'' (t # ts)) = takeWhile (\<lambda>ch. ch \<noteq> CHR ''{'') t"
          using ts by (simp add: join_Cons)
        then show ?thesis using ss eq(1) takeWhile_prefix by (simp add: join_Cons)
      next
        case False
        then have "takeWhile (\<lambda>ch. ch \<noteq> CHR ''{'') (join ''/'' (t # ts)) =
            t @ ''/'' @ takeWhile (\<lambda>ch. ch \<noteq> CHR ''{'') (join ''/'' ts)"
          using ts by (simp add: join_Cons) (subst takeWhile_append2; auto)
        then show ?thesis using ss eq(1) IH by (simp add: join_Cons starts_with_def)
      qed
    qed
  qed
qed (simp_all add: starts_with_def)

lemma sample_axum_ok: "axum_ok sample_axum"
  using seg_match_prefix [of "split_on CHR ''/'' tpl" "split_on CHR ''/'' path" for tpl path]
  by (auto simp: axum_ok_def sample_axum_def join_split_on literal_prefix_def)

definition sample_args :: args where
  "sample_args =
     \<lparr>ar_listen = ''127.0.0.1:0'', ar_data_dir = [''data''], ar_db = [''db''], ar_durability = Close, ar_auth = AuthTokens,
      ar_backend = BackendLocalFs, ar_blob_root = None, ar_s3_endpoint = None, ar_s3_bucket = None,
      ar_s3_path_style = False, ar_test_hooks = False, ar_ready_file = None\<rparr>"

definition sample_post :: request where
  "sample_post =
     \<lparr>rq_method = POST, rq_path = ''/api/v1/shards'',
      rq_headers = [(''authorization'', ''Bearer '' @ random_token ''read'' None)], rq_body = []\<rparr>"

lemma sample_bearer: "bearer Some sample_post = random_token ''read'' None"
  by (simp add: bearer_def sample_post_def strip_prefix_def starts_with_def)

theorem no_write_token_no_change_witness:
  "snd (router Some sample_axum True sample_fork sample_ops False sample_post (sample_st1\<lparr>as_auth := Tokens\<rparr>)) =
     sample_st1\<lparr>as_auth := Tokens\<rparr>"
proof -
  let ?st = "sample_st1\<lparr>as_auth := Tokens\<rparr>"
  note f = served_facts [OF sample_served1 sample_validate_wf]
  have inv: "local_fs_inv sample_fork sample_store (as_blob ?st)"
    "server_inv sample_fork (local_fs_contents sample_fork sample_store (as_blob ?st)) ?st"
    using f(1,3) by (simp_all add: server_inv_def)
  have "as_write_token sample_st1 = ''write-0''"
    using handle_keeps_auth [of Some True sample_fork sample_ops "CPutXorb (hex sample_fork sample_xorb) sample_body" sample_st0]
      sample_put(1) by (simp add: sample_st0_def app_state_new_def del: sample_fork_simps)
  then have b: "bearer Some sample_post \<noteq> as_write_token ?st"
    by (simp add: sample_bearer random_token_def)
  obtain r st' where run: "router Some sample_axum True sample_fork sample_ops False sample_post ?st = (r, st')" by fastforce
  from no_write_token_no_change [OF sample_axum_ok inv _ b _ run] run show ?thesis by (simp add: sample_post_def)
qed

theorem read_token_cannot_write_witness:
  "router Some sample_axum True sample_fork sample_ops True sample_post (main_state sample_args sample_fs None None) =
     (Ok (with_text 403 ''insufficient scope''), main_state sample_args sample_fs None None)"
  by (rule read_token_cannot_write [OF reachable.init])
    (simp_all add: sample_bearer, simp_all add: sample_args_def sample_post_def starts_with_def)

end
