(* ===== verification/Agent.thy ===== *)
theory Agent
  imports Router
begin

text \<open>
  \<open>crates/xet-agent/src/lib.rs\<close>: ingest (chunk, deduplicate against the server, upload novel runs,
  register) and reconstruct. The HTTP client is the parameter \<open>send\<close>: it takes a request and the
  state \<open>'w\<close> of the world behind the network and gives the response or a failure. \<open>tok\<close> is the value of
  the environment variable \<open>XETD_TOKEN\<close>.
\<close>

section \<open>The HTTP client\<close>

datatype tx_body = TxNone | TxBytes bytes | TxJson json

record tx_req =
  tq_method :: http_method
  tq_url :: string
  tq_headers :: "(string \<times> string) list"
  tq_body :: tx_body

text \<open>
  A response: its status code and how it is displayed, the outcome of decoding the body as JSON,
  and the outcome of reading it as bytes.
\<close>

record tx_resp =
  tp_status :: nat
  tp_status_text :: string
  tp_json :: "json res"
  tp_bytes :: "bytes res"

definition is_success :: "nat \<Rightarrow> bool" where
  "is_success code \<longleftrightarrow> 200 \<le> code \<and> code < 300"

definition client_get :: "string \<Rightarrow> tx_req" where
  "client_get url = \<lparr>tq_method = GET, tq_url = url, tq_headers = [], tq_body = TxNone\<rparr>"

definition client_post :: "string \<Rightarrow> tx_body \<Rightarrow> tx_req" where
  "client_post url b = \<lparr>tq_method = POST, tq_url = url, tq_headers = [], tq_body = b\<rparr>"

definition add_header :: "string \<Rightarrow> string \<Rightarrow> tx_req \<Rightarrow> tx_req" where
  "add_header k v q = q\<lparr>tq_headers := tq_headers q @ [(k, v)]\<rparr>"

text \<open>\<open>.context(msg)\<close> on a fallible call: the error displays as the context.\<close>

fun context_res :: "string \<Rightarrow> 'a res \<Rightarrow> 'a res" where
  "context_res msg (Ok v) = Ok v"
| "context_res msg (Err e) = Err msg"
| "context_res msg Panic = Panic"

lemma context_res_eq_Ok [res_simps]: "context_res msg r = Ok v \<longleftrightarrow> r = Ok v"
  by (cases r) auto

section \<open>Constants and authentication\<close>

definition MAX_XORB_UNCOMPRESSED :: nat where
  "MAX_XORB_UNCOMPRESSED = 60 * 1024 * 1024"

definition MAX_XORB_CHUNKS :: nat where
  "MAX_XORB_CHUNKS = 8192"

definition auth :: "string option \<Rightarrow> tx_req \<Rightarrow> tx_req" where
  "auth tok rb =
     (case tok of
        None \<Rightarrow> rb
      | Some t \<Rightarrow> if t \<noteq> [] then add_header ''authorization'' (''Bearer '' @ t) rb else rb)"

section \<open>Queries and uploads\<close>

definition query_chunk ::
  "string option \<Rightarrow> (tx_req \<Rightarrow> 'w \<Rightarrow> tx_resp res \<times> 'w) \<Rightarrow> string \<Rightarrow> string \<Rightarrow> 'w
     \<Rightarrow> (string \<times> u32) option res \<times> 'w" where
  "query_chunk tok send base_url hash_hex w =
     (case send (auth tok (client_get (base_url @ ''/api/v1/chunks/default-merkledb/'' @ hash_hex))) w of
        (r, w1) \<Rightarrow>
          (bind_res (context_res ''chunk dedup query'' r) (\<lambda>resp.
             if tp_status resp = 404 then Ok None
             else if \<not> is_success (tp_status resp) then Err (''chunk query failed: HTTP '' @ tp_status_text resp)
             else
               bind_res (context_res ''parse chunk response'' (tp_json resp)) (\<lambda>v.
               bind_res (context_opt ''chunk response missing xorb'' (as_str (jget v ''xorb''))) (\<lambda>xorb.
               bind_res (context_opt ''chunk response missing chunk_index'' (as_u64 (jget v ''chunk_index''))) (\<lambda>n.
               Ok (Some (xorb, ucast n)))))), w1))"

definition upload_xorb ::
  "string option \<Rightarrow> (tx_req \<Rightarrow> 'w \<Rightarrow> tx_resp res \<times> 'w) \<Rightarrow> string \<Rightarrow> string \<Rightarrow> bytes \<Rightarrow> 'w \<Rightarrow> unit res \<times> 'w" where
  "upload_xorb tok send base_url xorb_hex b w =
     (case send (auth tok (client_post (base_url @ ''/api/v1/xorbs/default/'' @ xorb_hex) (TxBytes b))) w of
        (r, w1) \<Rightarrow>
          (bind_res (context_res ''upload xorb'' r) (\<lambda>resp.
             if is_success (tp_status resp) then Ok () else Err (''xorb upload failed: HTTP '' @ tp_status_text resp)), w1))"

section \<open>Ingest\<close>

text \<open>Step 3: one query per chunk, in order, stopping at the first failure.\<close>

fun query_all ::
  "string option \<Rightarrow> (tx_req \<Rightarrow> 'w \<Rightarrow> tx_resp res \<times> 'w) \<Rightarrow> fork \<Rightarrow> string \<Rightarrow> chunk list \<Rightarrow> 'w
     \<Rightarrow> (string \<times> u32) option list res \<times> 'w" where
  "query_all tok send F base_url [] w = (Ok [], w)"
| "query_all tok send F base_url (c # cs) w =
     (case query_chunk tok send base_url (hex F (ck_hash c)) w of
        (Ok loc, w1) \<Rightarrow>
          (case query_all tok send F base_url cs w1 of
             (Ok locs, w2) \<Rightarrow> (Ok (loc # locs), w2)
           | (Err e, w2) \<Rightarrow> (Err e, w2)
           | (Panic, w2) \<Rightarrow> (Panic, w2))
      | (Err e, w1) \<Rightarrow> (Err e, w1)
      | (Panic, w1) \<Rightarrow> (Panic, w1))"

text \<open>
  The scan of a deduplicated run: from \<open>j\<close> on, as long as the next chunk is known in the same xorb at the
  expected index.
\<close>

function dedup_run ::
  "bool \<Rightarrow> (string \<times> u32) option list \<Rightarrow> string \<Rightarrow> nat \<Rightarrow> u32 \<Rightarrow> (nat \<times> u32) res" where
  "dedup_run ovf locs xorb j expected =
     (if j < length locs
      then (case locs ! j of
              Some (x2, i2) \<Rightarrow>
                if x2 = xorb \<and> i2 = expected
                then bind_res (add_res ovf expected 1) (\<lambda>e. dedup_run ovf locs xorb (Suc j) e)
                else Ok (j, expected)
            | None \<Rightarrow> Ok (j, expected))
      else Ok (j, expected))"
  by pat_completeness auto
termination
  by (relation "measure (\<lambda>(ovf, locs, xorb, j, expected). length locs - j)") auto

text \<open>The scan of a novel run that starts at \<open>i\<close>, bounded by the xorb caps.\<close>

function novel_run :: "chunk list \<Rightarrow> (string \<times> u32) option list \<Rightarrow> nat \<Rightarrow> nat \<Rightarrow> nat \<Rightarrow> nat" where
  "novel_run chunks locs i j acc =
     (if j < length chunks \<and> locs ! j = None \<and> j - i < MAX_XORB_CHUNKS \<and>
         acc + length (ck_data (chunks ! j)) \<le> MAX_XORB_UNCOMPRESSED
      then novel_run chunks locs i (Suc j) (acc + length (ck_data (chunks ! j)))
      else j)"
  by pat_completeness auto
termination
  by (relation "measure (\<lambda>(chunks, locs, i, j, acc). length chunks - j)") auto

declare dedup_run.simps [simp del] novel_run.simps [simp del]

definition slice :: "nat \<Rightarrow> nat \<Rightarrow> 'a list \<Rightarrow> 'a list" where
  "slice i j xs = take (j - i) (drop i xs)"

text \<open>The unpacked length of a run; the data was all in memory, so the sum does not overflow.\<close>

definition unpacked_len :: "chunk list \<Rightarrow> u64" where
  "unpacked_len cs = of_nat (sum_list (map (\<lambda>c. length (ck_data c)) cs))"

definition term_json :: "string \<Rightarrow> u64 \<Rightarrow> u64 \<Rightarrow> u64 \<Rightarrow> json" where
  "term_json xorb start stop unpacked =
     JObj [(''xorb'', JStr xorb), (''start'', JNum start), (''end'', JNum stop), (''unpacked_length'', JNum unpacked)]"

lemma dedup_run_ge: "dedup_run ovf locs xorb j e = Ok (j', e') \<Longrightarrow> j \<le> j'"
proof (induction ovf locs xorb j e rule: dedup_run.induct)
  case (1 ovf locs xorb j expected)
  note run = "1.prems" [unfolded dedup_run.simps [of ovf locs xorb j expected]]
  show ?case
  proof (cases "j < length locs \<and> locs ! j = Some (xorb, expected)")
    case True
    then obtain e where e: "add_res ovf expected 1 = Ok e" "dedup_run ovf locs xorb (Suc j) e = Ok (j', e')"
      using run by (auto simp: res_simps)
    then have "Suc j \<le> j'" using "1.IH" True by blast
    then show ?thesis by simp
  next
    case False
    then show ?thesis using run by (auto split: if_splits option.splits)
  qed
qed

lemma novel_run_ge: "j \<le> novel_run chunks locs i j acc"
proof (induction chunks locs i j acc rule: novel_run.induct)
  case (1 chunks locs i j acc)
  then show ?case by (subst novel_run.simps) auto
qed

text \<open>A single chunk larger than the cap still gets its own xorb.\<close>

definition novel_end :: "chunk list \<Rightarrow> (string \<times> u32) option list \<Rightarrow> nat \<Rightarrow> nat" where
  "novel_end chunks locs i = (let j = novel_run chunks locs i i 0 in if j = i then i + 1 else j)"

lemma novel_end_gt: "i < novel_end chunks locs i"
  using novel_run_ge [of i chunks locs i 0] by (auto simp: novel_end_def Let_def)

text \<open>Step 4: the walk over the chunk list.\<close>

function ingest_loop ::
  "string option \<Rightarrow> (tx_req \<Rightarrow> 'w \<Rightarrow> tx_resp res \<times> 'w) \<Rightarrow> bool \<Rightarrow> fork \<Rightarrow> string \<Rightarrow> chunk list
     \<Rightarrow> (string \<times> u32) option list \<Rightarrow> nat \<Rightarrow> json list \<Rightarrow> 'w \<Rightarrow> json list res \<times> 'w" where
  "ingest_loop tok send ovf F base_url chunks locs i terms w =
     (if i < length chunks
      then
        (case locs ! i of
           Some (xorb, start_idx) \<Rightarrow>
             (case bind_res (add_res ovf start_idx 1) (dedup_run ovf locs xorb (Suc i)) of
                Ok (j, expected) \<Rightarrow>
                  ingest_loop tok send ovf F base_url chunks locs j
                    (terms @ [term_json xorb (ucast start_idx) (ucast expected) (unpacked_len (slice i j chunks))]) w
              | Err e \<Rightarrow> (Err e, w)
              | Panic \<Rightarrow> (Panic, w))
         | None \<Rightarrow>
             (let j = novel_end chunks locs i;
                  group = slice i j chunks
              in (case context_res ''serialize xorb'' (from_xorb F group) of
                    Ok (h, serialized) \<Rightarrow>
                      (case upload_xorb tok send base_url (hex F h) serialized w of
                         (Ok _, w1) \<Rightarrow>
                           ingest_loop tok send ovf F base_url chunks locs j
                             (terms @ [term_json (hex F h) 0 (of_nat (length group)) (unpacked_len group)]) w1
                       | (Err e, w1) \<Rightarrow> (Err e, w1)
                       | (Panic, w1) \<Rightarrow> (Panic, w1))
                  | Err e \<Rightarrow> (Err e, w)
                  | Panic \<Rightarrow> (Panic, w))))
      else (Ok terms, w))"
  by pat_completeness auto
termination
  by (relation "measure (\<lambda>(tok, send, ovf, F, base_url, chunks, locs, i, terms, w). length chunks - i)")
    (auto simp: res_simps intro!: diff_less_mono2 novel_end_gt dest!: dedup_run_ge)

declare ingest_loop.simps [simp del]

definition ingest_bytes ::
  "string option \<Rightarrow> (tx_req \<Rightarrow> 'w \<Rightarrow> tx_resp res \<times> 'w) \<Rightarrow> bool \<Rightarrow> fork \<Rightarrow> string \<Rightarrow> string \<Rightarrow> string \<Rightarrow> bytes \<Rightarrow> 'w
     \<Rightarrow> string res \<times> 'w" where
  "ingest_bytes tok send ovf F base_url volume dest b w =
     (let chunks = next_block F b;
          fh = file_hash F (map (\<lambda>c. (ck_hash c, of_nat (length (ck_data c)))) chunks)
      in (case query_all tok send F base_url chunks w of
            (Err e, w1) \<Rightarrow> (Err e, w1)
          | (Panic, w1) \<Rightarrow> (Panic, w1)
          | (Ok locs, w1) \<Rightarrow>
             (case ingest_loop tok send ovf F base_url chunks locs 0 [] w1 of
                (Err e, w2) \<Rightarrow> (Err e, w2)
              | (Panic, w2) \<Rightarrow> (Panic, w2)
              | (Ok terms, w2) \<Rightarrow>
                 (case send (auth tok (client_post (base_url @ ''/api/v1/files'')
                     (TxJson (JObj [(''file_hash'', JStr (hex F fh)), (''total_size'', JNum (unpacked_len chunks)),
                                    (''terms'', JArr terms), (''volume'', JStr volume), (''path'', JStr dest)])))) w2 of
                    (r, w3) \<Rightarrow>
                      (bind_res (context_res ''register file'' r) (\<lambda>resp.
                         if is_success (tp_status resp) then Ok (hex F fh)
                         else Err (''file registration failed: HTTP '' @ tp_status_text resp)), w3)))))"

section \<open>Reconstruct\<close>

text \<open>Decode a number of consecutive chunks from the front of a buffer.\<close>

fun decode_chunks :: "fork \<Rightarrow> nat \<Rightarrow> bytes \<Rightarrow> bytes res" where
  "decode_chunks F 0 body = Ok []"
| "decode_chunks F (Suc n) body =
     (case deserialize_chunk F body of
        Ok (data, rest) \<Rightarrow> bind_res (decode_chunks F n rest) (\<lambda>d. Ok (data @ d))
      | Err e \<Rightarrow> Err (''deserialize chunk: '' @ e)
      | Panic \<Rightarrow> Panic)"

definition covers :: "u32 \<Rightarrow> u32 \<Rightarrow> json \<Rightarrow> bool" where
  "covers start stop e \<longleftrightarrow>
     (ucast (case as_u64 (jget (jget e ''range'') ''start'') of None \<Rightarrow> - 1 | Some n \<Rightarrow> n) :: u32) \<le> start \<and>
     stop \<le> (ucast (case as_u64 (jget (jget e ''range'') ''end'') of None \<Rightarrow> 0 | Some n \<Rightarrow> n) :: u32)"

definition fetch_term ::
  "string option \<Rightarrow> (tx_req \<Rightarrow> 'w \<Rightarrow> tx_resp res \<times> 'w) \<Rightarrow> fork \<Rightarrow> json \<Rightarrow> json \<Rightarrow> 'w \<Rightarrow> bytes res \<times> 'w" where
  "fetch_term tok send F fetch_info t w =
     (case
        bind_res (context_opt ''term missing hash'' (as_str (jget t ''hash''))) (\<lambda>xorb.
        bind_res (context_opt ''term missing range.start'' (as_u64 (jget (jget t ''range'') ''start''))) (\<lambda>s.
        bind_res (context_opt ''term missing range.end'' (as_u64 (jget (jget t ''range'') ''end''))) (\<lambda>e.
        bind_res (context_opt ''missing fetch_info for xorb'' (as_array (jget fetch_info xorb))) (\<lambda>entries.
        bind_res (context_opt ''no fetch_info range covers this term'' (find (covers (ucast s) (ucast e)) entries)) (\<lambda>fi.
        bind_res (context_opt ''fetch_info missing url'' (as_str (jget fi ''url''))) (\<lambda>url.
        bind_res (context_opt ''missing url_range.start'' (as_u64 (jget (jget fi ''url_range'') ''start''))) (\<lambda>bs.
        bind_res (context_opt ''missing url_range.end'' (as_u64 (jget (jget fi ''url_range'') ''end''))) (\<lambda>be.
        Ok (url, bs, be, (ucast s :: u32), (ucast e :: u32)))))))))) of
        Err m \<Rightarrow> (Err m, w)
      | Panic \<Rightarrow> (Panic, w)
      | Ok (url, bs, be, start, stop) \<Rightarrow>
          (case send (auth tok (add_header ''range'' (''bytes='' @ show_u64 bs @ ''-'' @ show_u64 be) (client_get url))) w of
             (r, w1) \<Rightarrow>
               (bind_res (context_res ''fetch xorb range'' r) (\<lambda>resp.
                bind_res (context_res ''read xorb range body'' (tp_bytes resp)) (\<lambda>body.
                decode_chunks F (unat stop - unat start) body)), w1)))"

fun fetch_terms ::
  "string option \<Rightarrow> (tx_req \<Rightarrow> 'w \<Rightarrow> tx_resp res \<times> 'w) \<Rightarrow> fork \<Rightarrow> json \<Rightarrow> json list \<Rightarrow> bytes \<Rightarrow> 'w \<Rightarrow> bytes res \<times> 'w" where
  "fetch_terms tok send F fetch_info [] out w = (Ok out, w)"
| "fetch_terms tok send F fetch_info (t # ts) out w =
     (case fetch_term tok send F fetch_info t w of
        (Ok d, w1) \<Rightarrow> fetch_terms tok send F fetch_info ts (out @ d) w1
      | (Err e, w1) \<Rightarrow> (Err e, w1)
      | (Panic, w1) \<Rightarrow> (Panic, w1))"

text \<open>The final \<open>drain\<close> of the offset into the first range.\<close>

definition drain_offset :: "json \<Rightarrow> bytes \<Rightarrow> bytes" where
  "drain_offset recon out =
     (let offset = unat (case as_u64 (jget recon ''offset_into_first_range'') of None \<Rightarrow> 0 | Some n \<Rightarrow> n)
      in if 0 < offset \<and> offset \<le> length out then drop offset out else out)"

definition agent_reconstruct ::
  "string option \<Rightarrow> (tx_req \<Rightarrow> 'w \<Rightarrow> tx_resp res \<times> 'w) \<Rightarrow> fork \<Rightarrow> string \<Rightarrow> string \<Rightarrow> 'w \<Rightarrow> bytes res \<times> 'w" where
  "agent_reconstruct tok send F base_url file_hash_hex w =
     (case send (auth tok (client_get (base_url @ ''/api/v1/reconstructions/'' @ file_hash_hex))) w of
        (r, w1) \<Rightarrow>
          (case
             bind_res (context_res ''query reconstruction'' r) (\<lambda>resp.
             if \<not> is_success (tp_status resp)
             then Err (''reconstruction query failed: HTTP '' @ tp_status_text resp)
             else
               bind_res (context_res ''parse reconstruction'' (tp_json resp)) (\<lambda>recon.
               bind_res (context_opt ''missing terms'' (as_array (jget recon ''terms''))) (\<lambda>terms.
               Ok (recon, terms)))) of
             Err e \<Rightarrow> (Err e, w1)
           | Panic \<Rightarrow> (Panic, w1)
           | Ok (recon, terms) \<Rightarrow>
               (case fetch_terms tok send F (jget recon ''fetch_info'') terms [] w1 of
                  (r2, w2) \<Rightarrow> (bind_res r2 (\<lambda>out. Ok (drain_offset recon out)), w2))))"

section \<open>What the walk produces\<close>

text \<open>
  \<open>walk F chunks locs i ts\<close>: the terms \<open>ts\<close> describe the chunks from position \<open>i\<close> on. Each term takes the
  next run: either chunks that are known at consecutive indices of one xorb, as many as there
  are, or chunks that are not known, within the xorb caps, packed into a xorb of their own.
\<close>

inductive walk :: "fork \<Rightarrow> chunk list \<Rightarrow> (string \<times> u32) option list \<Rightarrow> nat \<Rightarrow> json list \<Rightarrow> bool"
  for F chunks locs where
  finish: "walk F chunks locs (length chunks) []"
| known: "\<lbrakk>i < j; j \<le> length chunks;
     \<forall>k. i \<le> k \<and> k < j \<longrightarrow> locs ! k = Some (x, s + of_nat (k - i));
     j < length chunks \<longrightarrow> locs ! j \<noteq> Some (x, s + of_nat (j - i));
     walk F chunks locs j ts\<rbrakk> \<Longrightarrow>
     walk F chunks locs i
       (term_json x (ucast s) (ucast (s + of_nat (j - i))) (unpacked_len (slice i j chunks)) # ts)"
| novel: "\<lbrakk>i < j; j \<le> length chunks;
     \<forall>k. i \<le> k \<and> k < j \<longrightarrow> locs ! k = None; j - i \<le> MAX_XORB_CHUNKS;
     sum_list (map (\<lambda>c. length (ck_data c)) (slice i j chunks)) \<le> MAX_XORB_UNCOMPRESSED \<or> j = Suc i;
     from_xorb F (slice i j chunks) = Ok (h, b);
     walk F chunks locs j ts\<rbrakk> \<Longrightarrow>
     walk F chunks locs i (term_json (hex F h) 0 (of_nat (j - i)) (unpacked_len (slice i j chunks)) # ts)"

lemma length_slice: "j \<le> length xs \<Longrightarrow> length (slice i j xs) = j - i"
  by (simp add: slice_def)

lemma slice_snoc: "i \<le> j \<Longrightarrow> j < length xs \<Longrightarrow> slice i (Suc j) xs = slice i j xs @ [xs ! j]"
  by (simp add: slice_def Suc_diff_le take_Suc_conv_app_nth)

lemma slice_append: "i \<le> j \<Longrightarrow> j \<le> k \<Longrightarrow> slice i j xs @ slice j k xs = slice i k xs"
proof -
  assume "i \<le> j" "j \<le> k"
  then have "k - i = (j - i) + (k - j)" "drop j xs = drop (j - i) (drop i xs)" by simp_all
  then show ?thesis by (simp only: slice_def take_add)
qed

lemma slice_all: "slice 0 (length xs) xs = xs"
  by (simp add: slice_def)

lemma dedup_run_spec:
  "dedup_run ovf locs x j e = Ok (j', e') \<Longrightarrow> j \<le> length locs \<Longrightarrow>
     j' \<le> length locs \<and> e' = e + of_nat (j' - j) \<and>
     (\<forall>k. j \<le> k \<and> k < j' \<longrightarrow> locs ! k = Some (x, e + of_nat (k - j))) \<and>
     (j' < length locs \<longrightarrow> locs ! j' \<noteq> Some (x, e'))"
proof (induction ovf locs x j e rule: dedup_run.induct)
  case (1 ovf locs x j e)
  note run = "1.prems"(1) [unfolded dedup_run.simps [of ovf locs x j e]]
  show ?case
  proof (cases "j < length locs \<and> locs ! j = Some (x, e)")
    case True
    then obtain e1 where e1: "add_res ovf e 1 = Ok e1" "dedup_run ovf locs x (Suc j) e1 = Ok (j', e')"
      using run by (auto simp: res_simps)
    then have e1': "e1 = e + 1" by (simp add: add_res_def split: if_splits)
    have ge: "Suc j \<le> j'" using dedup_run_ge [OF e1(2)] .
    have IH: "j' \<le> length locs" "e' = e1 + of_nat (j' - Suc j)"
        "\<forall>k. Suc j \<le> k \<and> k < j' \<longrightarrow> locs ! k = Some (x, e1 + of_nat (k - Suc j))"
        "j' < length locs \<longrightarrow> locs ! j' \<noteq> Some (x, e')"
      using "1.IH" True e1(2) by auto
    have shift: "(of_nat (k - j) :: u32) = 1 + of_nat (k - Suc j)" if "Suc j \<le> k" for k
    proof -
      have "k - j = Suc (k - Suc j)" using that by simp
      then show ?thesis by (metis of_nat_Suc add.commute)
    qed
    have "locs ! k = Some (x, e + of_nat (k - j))" if "j \<le> k" "k < j'" for k
    proof (cases "k = j")
      case False
      then have "Suc j \<le> k" using that(1) by simp
      with IH(3) that(2) shift [of k] e1' show ?thesis by (simp add: add.assoc)
    qed (use True in simp)
    then show ?thesis using IH shift [OF ge] e1' by (simp add: add.assoc)
  next
    case False
    then show ?thesis using run "1.prems"(2) by (auto split: if_splits option.splits)
  qed
qed

lemma novel_run_spec:
  assumes "i \<le> j" "j \<le> length chunks" "\<forall>k. i \<le> k \<and> k < j \<longrightarrow> locs ! k = None" "j - i \<le> MAX_XORB_CHUNKS"
    and "acc = sum_list (map (\<lambda>c. length (ck_data c)) (slice i j chunks))" "acc \<le> MAX_XORB_UNCOMPRESSED"
  defines "j' \<equiv> novel_run chunks locs i j acc"
  shows "j' \<le> length chunks \<and> (\<forall>k. i \<le> k \<and> k < j' \<longrightarrow> locs ! k = None) \<and> j' - i \<le> MAX_XORB_CHUNKS \<and>
     sum_list (map (\<lambda>c. length (ck_data c)) (slice i j' chunks)) \<le> MAX_XORB_UNCOMPRESSED"
  unfolding j'_def using assms(1-6)
proof (induction chunks locs i j acc rule: novel_run.induct)
  case (1 chunks locs i j acc)
  show ?case
  proof (cases "j < length chunks \<and> locs ! j = None \<and> j - i < MAX_XORB_CHUNKS \<and>
      acc + length (ck_data (chunks ! j)) \<le> MAX_XORB_UNCOMPRESSED")
    case True
    then have eq: "novel_run chunks locs i j acc = novel_run chunks locs i (Suc j) (acc + length (ck_data (chunks ! j)))"
      by (subst novel_run.simps) simp
    show ?thesis
      unfolding eq by (rule "1.IH" [OF True]) (use True 1(2-) in \<open>auto simp: slice_snoc less_Suc_eq Suc_diff_le\<close>)
  next
    case False
    then have eq: "novel_run chunks locs i j acc = j" by (subst novel_run.simps) argo
    show ?thesis unfolding eq using 1(2-) by auto
  qed
qed

lemma novel_end_spec:
  assumes "i < length chunks" "locs ! i = None"
  defines "j \<equiv> novel_end chunks locs i"
  shows "i < j \<and> j \<le> length chunks \<and> (\<forall>k. i \<le> k \<and> k < j \<longrightarrow> locs ! k = None) \<and> j - i \<le> MAX_XORB_CHUNKS \<and>
     (sum_list (map (\<lambda>c. length (ck_data c)) (slice i j chunks)) \<le> MAX_XORB_UNCOMPRESSED \<or> j = Suc i)"
proof (cases "novel_run chunks locs i i 0 = i")
  case True
  then show ?thesis using assms(1,2) by (auto simp: j_def novel_end_def MAX_XORB_CHUNKS_def less_Suc_eq)
next
  case False
  have j: "j = novel_run chunks locs i i 0" using False by (simp add: j_def novel_end_def)
  have "j \<le> length chunks \<and> (\<forall>k. i \<le> k \<and> k < j \<longrightarrow> locs ! k = None) \<and> j - i \<le> MAX_XORB_CHUNKS \<and>
      sum_list (map (\<lambda>c. length (ck_data c)) (slice i j chunks)) \<le> MAX_XORB_UNCOMPRESSED"
    unfolding j by (rule novel_run_spec) (use assms(1) in \<open>auto simp: slice_def\<close>)
  then show ?thesis using novel_end_gt [of i chunks locs, folded j_def] by blast
qed

text \<open>The stretch that starts at a chunk known at index \<open>s\<close> of a xorb, as far as the scan follows it.\<close>

lemma known_stretch:
  assumes "bind_res (add_res ovf s 1) (dedup_run ovf locs x (Suc i)) = Ok (j, e)" and i: "i < length locs" and "locs ! i = Some (x, s)"
  shows "i < j" "j \<le> length locs" "e = s + of_nat (j - i)" "\<forall>k. i \<le> k \<and> k < j \<longrightarrow> locs ! k = Some (x, s + of_nat (k - i))"
    "j < length locs \<longrightarrow> locs ! j \<noteq> Some (x, s + of_nat (j - i))"
proof -
  have d: "dedup_run ovf locs x (Suc i) (s + 1) = Ok (j, e)"
    using assms(1) by (auto simp: res_simps add_res_def split: if_splits)
  show ge: "i < j" using dedup_run_ge [OF d] by simp
  have shift: "s + 1 + of_nat (k - Suc i) = s + of_nat (k - i)" if "i < k" for k
  proof -
    have "k - i = Suc (k - Suc i)" using that by simp
    then show ?thesis by (simp add: add.assoc)
  qed
  note sp = dedup_run_spec [OF d i [unfolded Suc_le_eq [symmetric]]]
  show "j \<le> length locs" using sp by blast
  show e: "e = s + of_nat (j - i)" using sp shift [OF ge] by simp
  show "j < length locs \<longrightarrow> locs ! j \<noteq> Some (x, s + of_nat (j - i))" using sp unfolding e by blast
  show "\<forall>k. i \<le> k \<and> k < j \<longrightarrow> locs ! k = Some (x, s + of_nat (k - i))"
  proof (intro allI impI)
    fix k assume k: "i \<le> k \<and> k < j"
    then show "locs ! k = Some (x, s + of_nat (k - i))"
      using sp shift [of k] assms(3) by (cases "k = i") auto
  qed
qed

lemma ingest_loop_walk:
  "ingest_loop tok send ovf F base_url chunks locs i terms w = (Ok terms', w') \<Longrightarrow>
     length locs = length chunks \<Longrightarrow> i \<le> length chunks \<Longrightarrow> \<exists>ts. terms' = terms @ ts \<and> walk F chunks locs i ts"
proof (induction tok send ovf F base_url chunks locs i terms w rule: ingest_loop.induct)
  case (1 tok send ovf F base_url chunks locs i terms w)
  note run = "1.prems"(1) [unfolded ingest_loop.simps [of tok send ovf F base_url chunks locs i terms w]]
  show ?case
  proof (cases "i < length chunks")
    case False
    then show ?thesis using run "1.prems"(3) walk.finish by auto
  next
    case i: True
    show ?thesis
    proof (cases "locs ! i")
      case (Some xs)
      obtain x s where xs: "xs = (x, s)" by fastforce
      from run i Some xs obtain j e where dr: "bind_res (add_res ovf s 1) (dedup_run ovf locs x (Suc i)) = Ok (j, e)"
        and rest: "ingest_loop tok send ovf F base_url chunks locs j
          (terms @ [term_json x (ucast s) (ucast e) (unpacked_len (slice i j chunks))]) w = (Ok terms', w')"
        by (auto split: res.splits)
      note known = known_stretch [OF dr i [folded "1.prems"(2)] Some [unfolded xs]]
      from "1.IH"(2) [OF i Some xs [symmetric] dr refl rest "1.prems"(2)] known(2) "1.prems"(2) obtain ts where
        ts: "terms' = (terms @ [term_json x (ucast s) (ucast e) (unpacked_len (slice i j chunks))]) @ ts"
          "walk F chunks locs j ts" by auto
      have "walk F chunks locs i (term_json x (ucast s) (ucast (s + of_nat (j - i))) (unpacked_len (slice i j chunks)) # ts)"
        by (rule walk.known) (use known ts(2) "1.prems"(2) in auto)
      then show ?thesis using ts(1) known(3) by simp
    next
      case None
      define j where "j = novel_end chunks locs i"
      note sp = novel_end_spec [OF i None, folded j_def]
      from run i None obtain h b w1 u where fx: "from_xorb F (slice i j chunks) = Ok (h, b)"
        and up: "upload_xorb tok send base_url (hex F h) b w = (Ok u, w1)"
        and rest: "ingest_loop tok send ovf F base_url chunks locs j
          (terms @ [term_json (hex F h) 0 (of_nat (length (slice i j chunks))) (unpacked_len (slice i j chunks))]) w1 = (Ok terms', w')"
        by (cases "from_xorb F (slice i j chunks)") (auto simp: j_def Let_def split: res.splits prod.splits)
      have "context_res ''serialize xorb'' (from_xorb F (slice i j chunks)) = Ok (h, b)" using fx by simp
      from "1.IH"(1) [OF i None j_def refl this refl up [symmetric] refl rest "1.prems"(2)] sp obtain ts where
        ts: "terms' = (terms @ [term_json (hex F h) 0 (of_nat (length (slice i j chunks))) (unpacked_len (slice i j chunks))]) @ ts"
          "walk F chunks locs j ts" by auto
      have "walk F chunks locs i (term_json (hex F h) 0 (of_nat (j - i)) (unpacked_len (slice i j chunks)) # ts)"
        by (rule walk.novel [OF _ _ _ _ _ fx]) (use sp ts(2) in auto)
      then show ?thesis using ts(1) length_slice [of j chunks i] sp by simp
    qed
  qed
qed

lemma query_all_length: "query_all tok send F base_url cs w = (Ok locs, w') \<Longrightarrow> length locs = length cs"
  by (induction cs arbitrary: locs w) (auto split: res.splits prod.splits)

lemma unpacked_len_append: "unpacked_len (xs @ ys) = unpacked_len xs + unpacked_len ys"
  by (simp add: unpacked_len_def)

definition term_unpacked :: "json \<Rightarrow> u64" where
  "term_unpacked t = (case as_u64 (jget t ''unpacked_length'') of None \<Rightarrow> 0 | Some n \<Rightarrow> n)"

lemma term_json_gets [simp]:
  "jget (term_json x s e u) ''xorb'' = JStr x" "jget (term_json x s e u) ''start'' = JNum s"
  "jget (term_json x s e u) ''end'' = JNum e" "jget (term_json x s e u) ''unpacked_length'' = JNum u"
  by (simp_all add: term_json_def)

lemma walk_unpacked:
  "walk F chunks locs i ts \<Longrightarrow> i \<le> length chunks \<and>
     sum_list (map term_unpacked ts) = unpacked_len (slice i (length chunks) chunks)"
proof (induction rule: walk.induct)
  case finish
  then show ?case by (simp add: slice_def unpacked_len_def)
next
  case (known i j x s ts)
  then show ?case
    using slice_append [of i j "length chunks" chunks]
    by (simp add: term_unpacked_def flip: unpacked_len_append)
next
  case (novel i j h b ts)
  then show ?case
    using slice_append [of i j "length chunks" chunks]
    by (simp add: term_unpacked_def flip: unpacked_len_append)
qed

text \<open>
  The stages that an ingest went through: it stops at a failed query, or while it packs, or it sends the registration,
  whose response decides the result.
\<close>

lemma ingest_stages:
  assumes "ingest_bytes tok send ovf F base volume dest b w = (r, w')"
  obtains (query) r1 where "query_all tok send F base (next_block F b) w = (r1, w')" "\<forall>hh. r \<noteq> Ok hh"
  | (pack) locs w1 r2 where "query_all tok send F base (next_block F b) w = (Ok locs, w1)"
      "ingest_loop tok send ovf F base (next_block F b) locs 0 [] w1 = (r2, w')" "\<forall>hh. r \<noteq> Ok hh"
  | (register) fh locs w1 terms w2 r3 where
      "fh = file_hash F (map (\<lambda>c. (ck_hash c, of_nat (length (ck_data c)))) (next_block F b))"
      "query_all tok send F base (next_block F b) w = (Ok locs, w1)" "length locs = length (next_block F b)"
      "ingest_loop tok send ovf F base (next_block F b) locs 0 [] w1 = (Ok terms, w2)" "walk F (next_block F b) locs 0 terms"
      "send (auth tok (client_post (base @ ''/api/v1/files'') (TxJson (JObj [(''file_hash'', JStr (hex F fh)),
         (''total_size'', JNum (unpacked_len (next_block F b))), (''terms'', JArr terms), (''volume'', JStr volume), (''path'', JStr dest)])))) w2 =
         (r3, w')"
      "r = bind_res (context_res ''register file'' r3) (\<lambda>resp. if is_success (tp_status resp) then Ok (hex F fh)
         else Err (''file registration failed: HTTP '' @ tp_status_text resp))"
proof -
  let ?chunks = "next_block F b"
  obtain r1 w1 where q: "query_all tok send F base ?chunks w = (r1, w1)" by fastforce
  show thesis
  proof (cases r1)
    case locs: (Ok locs)
    obtain r2 w2 where l: "ingest_loop tok send ovf F base ?chunks locs 0 [] w1 = (r2, w2)" by fastforce
    show thesis
    proof (cases r2)
      case terms: (Ok terms)
      have n: "length locs = length ?chunks" using query_all_length [OF q [unfolded locs]] .
      have w: "walk F ?chunks locs 0 terms" using ingest_loop_walk [OF l [unfolded terms] n] by simp
      obtain r3 w3 where "send (auth tok (client_post (base @ ''/api/v1/files'') (TxJson (JObj [(''file_hash'',
          JStr (hex F (file_hash F (map (\<lambda>c. (ck_hash c, of_nat (length (ck_data c)))) ?chunks)))), (''total_size'', JNum (unpacked_len ?chunks)),
          (''terms'', JArr terms), (''volume'', JStr volume), (''path'', JStr dest)])))) w2 = (r3, w3)" by fastforce
      then show thesis
        using register [OF refl q [unfolded locs] n l [unfolded terms] w, of r3] assms q locs l terms
        by (simp add: ingest_bytes_def Let_def)
    qed (use assms q locs l pack in \<open>auto simp: ingest_bytes_def Let_def\<close>)
  qed (use assms q query in \<open>auto simp: ingest_bytes_def Let_def\<close>)
qed

lemma ingest_run:
  assumes "ingest_bytes tok send ovf F base volume dest b w = (Ok hh, w')"
  obtains locs w1 terms w2 resp where
    "query_all tok send F base (next_block F b) w = (Ok locs, w1)" "length locs = length (next_block F b)"
    "ingest_loop tok send ovf F base (next_block F b) locs 0 [] w1 = (Ok terms, w2)" "walk F (next_block F b) locs 0 terms"
    "hh = hex F (file_hash F (map (\<lambda>c. (ck_hash c, of_nat (length (ck_data c)))) (next_block F b)))"
    "send (auth tok (client_post (base @ ''/api/v1/files'') (TxJson (JObj [(''file_hash'', JStr hh),
       (''total_size'', JNum (unpacked_len (next_block F b))), (''terms'', JArr terms), (''volume'', JStr volume), (''path'', JStr dest)])))) w2 =
       (Ok resp, w')" "is_success (tp_status resp)"
proof (rule ingest_stages [OF assms])
  fix fh locs w1 terms w2 r3
  assume fh: "fh = file_hash F (map (\<lambda>c. (ck_hash c, of_nat (length (ck_data c)))) (next_block F b))"
    and run: "query_all tok send F base (next_block F b) w = (Ok locs, w1)" "length locs = length (next_block F b)"
      "ingest_loop tok send ovf F base (next_block F b) locs 0 [] w1 = (Ok terms, w2)" "walk F (next_block F b) locs 0 terms"
    and s: "send (auth tok (client_post (base @ ''/api/v1/files'') (TxJson (JObj [(''file_hash'', JStr (hex F fh)),
       (''total_size'', JNum (unpacked_len (next_block F b))), (''terms'', JArr terms), (''volume'', JStr volume), (''path'', JStr dest)])))) w2 =
       (r3, w')"
    and r: "Ok hh = bind_res (context_res ''register file'' r3) (\<lambda>resp. if is_success (tp_status resp) then Ok (hex F fh)
       else Err (''file registration failed: HTTP '' @ tp_status_text resp))"
  obtain resp where "r3 = Ok resp" "is_success (tp_status resp)" "hh = hex F fh"
    using r [symmetric] by (auto simp: res_simps split: if_splits)
  then show thesis using that run s fh by auto
qed auto

text \<open>
  C20. What a successful ingest has registered: every chunk of the file was looked up, the registered terms
  cut the chunk sequence into consecutive runs without gap or overlap, each run either the longest
  stretch found at consecutive indices of one known xorb or novel chunks packed within the caps
  into a xorb of exactly those chunks, and the unpacked lengths add up to the file. The
  reported hash is the hash of the whole chunk list.
\<close>

theorem ingest_partitions:
  assumes "ingest_bytes tok send ovf F base volume dest b w = (Ok hh, w')"
  defines "chunks \<equiv> next_block F b"
  shows "\<exists>locs w1 terms w2 resp.
     query_all tok send F base chunks w = (Ok locs, w1) \<and> length locs = length chunks \<and>
     ingest_loop tok send ovf F base chunks locs 0 [] w1 = (Ok terms, w2) \<and>
     walk F chunks locs 0 terms \<and> sum_list (map term_unpacked terms) = unpacked_len chunks \<and>
     hh = hex F (file_hash F (map (\<lambda>c. (ck_hash c, of_nat (length (ck_data c)))) chunks)) \<and>
     send (auth tok (client_post (base @ ''/api/v1/files'') (TxJson (JObj [(''file_hash'', JStr hh),
       (''total_size'', JNum (unpacked_len chunks)), (''terms'', JArr terms), (''volume'', JStr volume), (''path'', JStr dest)])))) w2 =
       (Ok resp, w') \<and> is_success (tp_status resp)"
proof (rule ingest_run [OF assms(1), folded chunks_def])
  fix locs w1 terms w2 resp
  assume run: "query_all tok send F base chunks w = (Ok locs, w1)" "length locs = length chunks"
    "ingest_loop tok send ovf F base chunks locs 0 [] w1 = (Ok terms, w2)" and w: "walk F chunks locs 0 terms"
    and reg: "hh = hex F (file_hash F (map (\<lambda>c. (ck_hash c, of_nat (length (ck_data c)))) chunks))"
    "send (auth tok (client_post (base @ ''/api/v1/files'') (TxJson (JObj [(''file_hash'', JStr hh),
       (''total_size'', JNum (unpacked_len chunks)), (''terms'', JArr terms), (''volume'', JStr volume), (''path'', JStr dest)])))) w2 =
       (Ok resp, w')" "is_success (tp_status resp)"
  have "sum_list (map term_unpacked terms) = unpacked_len chunks" using walk_unpacked [OF w] by (simp add: slice_all)
  then show ?thesis using run w reg by blast
qed

text \<open>A server that knows no chunk and accepts everything.\<close>

definition stub_send :: "tx_req \<Rightarrow> nat \<Rightarrow> tx_resp res \<times> nat" where
  "stub_send q n =
     (Ok \<lparr>tp_status = (if tq_method q = GET then 404 else 200), tp_status_text = [], tp_json = Err [], tp_bytes = Ok []\<rparr>, n + 1)"

lemma stub_ingest:
  "ingest_bytes None stub_send True sample_fork ''u'' ''v'' ''p'' [1, 2, 3] 0 =
     (Ok (hex sample_fork (sample_file_hash [(773, 2), (4, 1)])), 4)"
  by (simp add: ingest_bytes_def ingest_loop.simps novel_end_def novel_run.simps slice_def stub_send_def
      query_chunk_def upload_xorb_def auth_def client_get_def client_post_def is_success_def
      sample_data_hash_def enc_bytes_def sample_from_xorb_def MAX_XORB_CHUNKS_def MAX_XORB_UNCOMPRESSED_def
      Let_def del: sample_fork_simps(2))

theorem ingest_partitions_witness:
  "\<exists>locs terms. walk sample_fork (sample_next_block [1, 2, 3]) locs 0 terms \<and> length locs = 2 \<and>
     sum_list (map term_unpacked terms) = 3"
  using ingest_partitions [OF stub_ingest] by (force simp: unpacked_len_def)

end
