(* ===== verification/Http_Link.thy ===== *)
theory Http_Link
  imports Agent
begin

text \<open>
  The HTTP connection between the agent and the server. Client library, network and web framework are not
  part of the repository: \<open>http_link\<close> states what the agent relies on, that a request arrives as it was
  built and that the response it gets is the one the application made. A lossy link may lose the
  request or the response. The lemmas say what each request of the agent does to the server.
\<close>

section \<open>The connection\<close>

definition resp_matches :: "response \<Rightarrow> tx_resp \<Rightarrow> bool" where
  "resp_matches rs tp \<longleftrightarrow>
     tp_status tp = rs_status rs \<and> (\<forall>j. rs_body rs = Json j \<longrightarrow> tp_json tp = Ok j) \<and>
     (\<forall>b. rs_body rs = Raw b \<longrightarrow> tp_bytes tp = Ok b)"

fun body_matches :: "axum \<Rightarrow> tx_body \<Rightarrow> request \<Rightarrow> bool" where
  "body_matches AX TxNone req \<longleftrightarrow> rq_body req = []"
| "body_matches AX (TxBytes b) req \<longleftrightarrow> rq_body req = b"
| "body_matches AX (TxJson j) req \<longleftrightarrow> ax_json AX req = Inr j"

definition arrives :: "axum \<Rightarrow> tx_req \<Rightarrow> string \<Rightarrow> request \<Rightarrow> bool" where
  "arrives AX q path req \<longleftrightarrow>
     rq_method req = tq_method q \<and> rq_path req = path \<and> map_of (rq_headers req) ''authorization'' = map_of (tq_headers q) ''authorization'' \<and>
     map_of (rq_headers req) ''range'' = map_of (tq_headers q) ''range'' \<and> body_matches AX (tq_body q) req"

definition http_link ::
  "bool \<Rightarrow> axum \<Rightarrow> (request \<Rightarrow> 's \<Rightarrow> response res \<times> 's) \<Rightarrow> string \<Rightarrow> (tx_req \<Rightarrow> 's \<Rightarrow> tx_resp res \<times> 's) \<Rightarrow> bool" where
  "http_link lossy AX app base send \<longleftrightarrow>
     (\<forall>q path st. tq_url q = base @ path \<and> starts_with ''/'' path \<and> list_all plain (split_on CHR ''/'' path) \<longrightarrow>
        (\<exists>req. arrives AX q path req \<and>
           ((\<exists>rs tp. fst (app req st) = Ok rs \<and> send q st = (Ok tp, snd (app req st)) \<and> resp_matches rs tp) \<or>
            (\<exists>e. (\<forall>rs. fst (app req st) \<noteq> Ok rs) \<and> send q st = (Err e, snd (app req st))) \<or>
            lossy \<and> (\<exists>e st'. send q st = (Err e, st') \<and> st' \<in> {st, snd (app req st)}))))"

text \<open>\<open>HeaderValue::to_str\<close> accepts visible ASCII.\<close>

definition visible :: "string \<Rightarrow> bool" where
  "visible s \<longleftrightarrow> list_all (\<lambda>ch. 32 \<le> (of_char ch :: nat) \<and> (of_char ch :: nat) < 127) s"

definition to_str_ok :: "(string \<Rightarrow> string option) \<Rightarrow> bool" where
  "to_str_ok to_str \<longleftrightarrow> (\<forall>s. visible s \<longrightarrow> to_str s = Some s)"

text \<open>\<open>serde\<close> decodes the registration request that the agent builds.\<close>

definition json_of_register_term :: "register_term \<Rightarrow> json" where
  "json_of_register_term t = term_json (rg_xorb t) (ucast (rg_start t)) (ucast (rg_end t)) (rg_unpacked_length t)"

definition serde_ok :: "axum \<Rightarrow> bool" where
  "serde_ok AX \<longleftrightarrow>
     (\<forall>h n ts v p. ax_register AX (JObj [(''file_hash'', JStr h), (''total_size'', JNum n),
          (''terms'', JArr (map json_of_register_term ts)), (''volume'', JStr v), (''path'', JStr p)]) =
        Some \<lparr>rf_file_hash = h, rf_total_size = n, rf_terms = ts, rf_volume = Some v, rf_path = Some p\<rparr>)"

text \<open>The agent holds what the server asks for: nothing, or the write token.\<close>

definition authorised :: "string option \<Rightarrow> 'b app_state \<Rightarrow> bool" where
  "authorised tok st \<longleftrightarrow>
     as_auth st = Loopback \<or>
     tok = Some (as_write_token st) \<and> as_write_token st \<noteq> [] \<and> visible (as_write_token st)"

section \<open>Requests of the agent\<close>

lemma auth_simps [simp]:
  "tq_method (auth tok q) = tq_method q" "tq_url (auth tok q) = tq_url q" "tq_body (auth tok q) = tq_body q"
  by (auto simp: auth_def add_header_def split: option.splits)

lemma auth_range [simp]: "map_of (tq_headers (auth tok q)) ''range'' = map_of (tq_headers q) ''range''"
  by (auto simp: auth_def add_header_def map_add_def split: option.splits)

lemma client_simps [simp]:
  "tq_method (client_get u) = GET" "tq_url (client_get u) = u" "tq_headers (client_get u) = []" "tq_body (client_get u) = TxNone"
  "tq_method (client_post u b) = POST" "tq_url (client_post u b) = u" "tq_headers (client_post u b) = []"
  "tq_body (client_post u b) = b"
  "tq_method (add_header k v q) = tq_method q" "tq_url (add_header k v q) = tq_url q" "tq_body (add_header k v q) = tq_body q"
  "tq_headers (add_header k v q) = tq_headers q @ [(k, v)]"
  by (simp_all add: client_get_def client_post_def add_header_def)

lemma method_arrives: "arrives AX (auth tok q) path req \<Longrightarrow> rq_method req = tq_method q"
  by (simp add: arrives_def)

lemma router_passes:
  assumes "authorised tok st" "to_str_ok to_str" "map_of (tq_headers q) ''authorization'' = None"
    and "arrives AX (auth tok q) path req"
  shows "router to_str AX ovf F B hooks req st = run_route to_str AX ovf F B hooks req st"
proof (cases "as_auth st")
  case Loopback
  then show ?thesis by (simp add: router_def auth_mw_def)
next
  case Tokens
  then have t: "tok = Some (as_write_token st)" "as_write_token st \<noteq> []" "visible (as_write_token st)"
    using assms(1) by (auto simp: authorised_def)
  have "visible (''Bearer '' @ as_write_token st)" using t(3) by (simp add: visible_def)
  then have "to_str (''Bearer '' @ as_write_token st) = Some (''Bearer '' @ as_write_token st)"
    using assms(2) unfolding to_str_ok_def by blast
  moreover have "map_of (rq_headers req) ''authorization'' = Some (''Bearer '' @ as_write_token st)"
    using assms(3,4) t by (simp add: arrives_def auth_def add_header_def map_add_def split: option.splits)
  ultimately have "bearer to_str req = as_write_token st"
    using strip_prefix_append [of "''Bearer ''"] by (simp add: bearer_def)
  then show ?thesis using t(2) by (simp add: router_def auth_mw_def Let_def)
qed

text \<open>What one request of the agent does: the handlers run on a request as it was built.\<close>

lemma link_call:
  assumes link: "http_link lossy AX (router to_str AX ovf F B hooks) base send"
    and st: "authorised tok st" "to_str_ok to_str" "map_of (tq_headers q) ''authorization'' = None"
    and q: "tq_url q = base @ path" "starts_with ''/'' path" "list_all plain (split_on CHR ''/'' path)"
    and run: "send (auth tok q) st = (r, st')"
  obtains req where "arrives AX (auth tok q) path req"
    "(\<exists>rs tp. run_route to_str AX ovf F B hooks req st = (Ok rs, st') \<and> r = Ok tp \<and> resp_matches rs tp) \<or>
     (\<exists>e x. run_route to_str AX ovf F B hooks req st = (x, st') \<and> (\<forall>rs. x \<noteq> Ok rs) \<and> r = Err e) \<or>
     lossy \<and> (\<exists>e. r = Err e) \<and> st' \<in> {st, snd (run_route to_str AX ovf F B hooks req st)}"
proof -
  from link q obtain req where req: "arrives AX (auth tok q) path req"
    and alt: "(\<exists>rs tp. fst (router to_str AX ovf F B hooks req st) = Ok rs \<and>
         send (auth tok q) st = (Ok tp, snd (router to_str AX ovf F B hooks req st)) \<and> resp_matches rs tp) \<or>
      (\<exists>e. (\<forall>rs. fst (router to_str AX ovf F B hooks req st) \<noteq> Ok rs) \<and>
         send (auth tok q) st = (Err e, snd (router to_str AX ovf F B hooks req st))) \<or>
      lossy \<and> (\<exists>e st'. send (auth tok q) st = (Err e, st') \<and> st' \<in> {st, snd (router to_str AX ovf F B hooks req st)})"
    unfolding http_link_def by (metis auth_simps(2))
  show thesis
    using that [OF req] alt run unfolding router_passes [OF st req, of ovf F B hooks] by (auto simp: prod_eq_iff)
qed

section \<open>Dispatch\<close>

lemma hex_plain: "hex_ok F \<Longrightarrow> plain (hex F h)"
  using hex_chars [of F h] by (force simp: plain_def list_all_iff)

lemma hex_not_Nil [simp]: "hex_ok F \<Longrightarrow> hex F h \<noteq> []"
  using hex_length [of F h] by auto

lemma hex_no_slash: "hex_ok F \<Longrightarrow> split_on CHR ''/'' (hex F h) = [hex F h]"
  using hex_no_char [of F "CHR ''/''" h] by (intro split_on_no_sep) auto

text \<open>Splitting a literal in one pass.\<close>

lemma split_on_step:
  "split_on c (c # xs) = [] # split_on c xs"
  "x \<noteq> c \<Longrightarrow> split_on c (x # xs) = (case split_on c xs of [] \<Rightarrow> [[x]] | y # ys \<Rightarrow> (x # y) # ys)"
  by (auto split: list.splits)

text \<open>The segments of the paths that the agent asks for.\<close>

definition recon_path :: "string \<Rightarrow> string" where
  "recon_path h = ''/api/v1/reconstructions/'' @ h"

definition chunk_path :: "string \<Rightarrow> string" where
  "chunk_path h = ''/api/v1/chunks/default-merkledb/'' @ h"

definition xorb_path :: "string \<Rightarrow> string" where
  "xorb_path h = ''/api/v1/xorbs/default/'' @ h"

definition data_path :: "string \<Rightarrow> string" where
  "data_path h = ''/api/v1/xorb-data/'' @ h"

lemma path_segments:
  assumes "hex_ok F"
  shows "split_on CHR ''/'' (recon_path (hex F h)) = ['''', ''api'', ''v1'', ''reconstructions'', hex F h]"
    and "split_on CHR ''/'' (chunk_path (hex F h)) = ['''', ''api'', ''v1'', ''chunks'', ''default-merkledb'', hex F h]"
    and "split_on CHR ''/'' (xorb_path (hex F h)) = ['''', ''api'', ''v1'', ''xorbs'', ''default'', hex F h]"
    and "split_on CHR ''/'' (data_path (hex F h)) = ['''', ''api'', ''v1'', ''xorb-data'', hex F h]"
    and "split_on CHR ''/'' ''/api/v1/files'' = ['''', ''api'', ''v1'', ''files'']"
  by (simp_all add: recon_path_def chunk_path_def xorb_path_def data_path_def hex_no_slash [OF assms] split_on_step
      del: split_on.simps(2))

lemma path_slash [simp]:
  "starts_with ''/'' (recon_path h)" "starts_with ''/'' (chunk_path h)" "starts_with ''/'' (xorb_path h)" "starts_with ''/'' (data_path h)"
  by (simp_all add: recon_path_def chunk_path_def xorb_path_def data_path_def starts_with_def)

lemma path_plain:
  assumes "hex_ok F"
  shows "list_all plain (split_on CHR ''/'' (recon_path (hex F h)))"
    and "list_all plain (split_on CHR ''/'' (chunk_path (hex F h)))"
    and "list_all plain (split_on CHR ''/'' (xorb_path (hex F h)))"
    and "list_all plain (split_on CHR ''/'' (data_path (hex F h)))"
    and "list_all plain (split_on CHR ''/'' ''/api/v1/files'')"
  unfolding path_segments [OF assms] using hex_plain [OF assms] by (simp_all add: plain_def)

text \<open>Routing of a path of plain segments, over the split templates.\<close>

fun seg_routes ::
  "string list \<Rightarrow> (string list \<times> http_method \<times> endpoint) list \<Rightarrow> (http_method \<times> endpoint \<times> string list) option" where
  "seg_routes ss [] = None"
| "seg_routes ss ((ts, m, e) # rs) = (case seg_match ts ss of Some ps \<Rightarrow> Some (m, e, ps) | None \<Rightarrow> seg_routes ss rs)"

abbreviation split_templates ::
  "(string \<times> http_method \<times> endpoint) list \<Rightarrow> (string list \<times> http_method \<times> endpoint) list" where
  "split_templates rs \<equiv> map (\<lambda>(tpl, m, e). (split_on CHR ''/'' tpl, m, e)) rs"

lemma match_routes_seg:
  assumes "axum_ok AX" "list_all plain (split_on CHR ''/'' path)"
  shows "match_routes AX path rs = seg_routes (split_on CHR ''/'' path) (split_templates rs)"
proof -
  have "ax_match AX tpl path = seg_match (split_on CHR ''/'' tpl) (split_on CHR ''/'' path)" for tpl
    using assms unfolding axum_ok_def by blast
  then show ?thesis by (induction rs) (auto split: option.splits)
qed

lemma api_segments:
  "split_templates api_routes =
     [(['''', ''api'', ''v1'', ''reconstructions'', ''{file_hash}''], GET, EReconstruct),
      (['''', ''api'', ''v1'', ''chunks'', ''{namespace}'', ''{chunk_hash}''], GET, EGlobalDedup),
      (['''', ''api'', ''v1'', ''xorbs'', ''{namespace}'', ''{xorb_hash}''], POST, EPutXorb),
      (['''', ''api'', ''v1'', ''shards''], POST, EPutShard),
      (['''', ''api'', ''v1'', ''files''], POST, ERegisterFile),
      (['''', ''api'', ''v1'', ''volumes'', ''{volume}'', ''entries''], GET, EListEntries),
      (['''', ''api'', ''v1'', ''xorb-data'', ''{xorb_hash}''], GET, EXorbData)]"
  by (simp add: api_routes_def split_on_step del: split_on.simps(2))

lemma seg_routes_api:
  "seg_routes ss (split_templates (routes hooks)) =
     (case seg_routes ss (split_templates api_routes) of Some r \<Rightarrow> Some r
      | None \<Rightarrow> if hooks then seg_routes ss (split_templates admin_routes) else None)"
proof -
  have "seg_routes ss (xs @ ys) = (case seg_routes ss xs of Some r \<Rightarrow> Some r | None \<Rightarrow> seg_routes ss ys)" for xs ys
    by (induction ss xs rule: seg_routes.induct) (auto split: option.splits)
  then show ?thesis by (cases hooks) (auto simp: routes_def split: option.splits)
qed

lemma dispatch_path:
  assumes "axum_ok AX" "hex_ok F"
  shows "match_routes AX (recon_path (hex F h)) (routes hooks) = Some (GET, EReconstruct, [hex F h])"
    and "match_routes AX (chunk_path (hex F h)) (routes hooks) = Some (GET, EGlobalDedup, [''default-merkledb'', hex F h])"
    and "match_routes AX (xorb_path (hex F h)) (routes hooks) = Some (POST, EPutXorb, [''default'', hex F h])"
    and "match_routes AX (data_path (hex F h)) (routes hooks) = Some (GET, EXorbData, [hex F h])"
    and "match_routes AX ''/api/v1/files'' (routes hooks) = Some (POST, ERegisterFile, [])"
  unfolding match_routes_seg [OF assms(1) path_plain(1) [OF assms(2)]]
    match_routes_seg [OF assms(1) path_plain(2) [OF assms(2)]] match_routes_seg [OF assms(1) path_plain(3) [OF assms(2)]]
    match_routes_seg [OF assms(1) path_plain(4) [OF assms(2)]] match_routes_seg [OF assms(1) path_plain(5) [OF assms(2)]]
    path_segments [OF assms(2)] seg_routes_api api_segments
  using assms(2) by (simp_all add: starts_with_def)

lemma arrives_dispatch:
  assumes "axum_ok AX" "hex_ok F"
  shows "arrives AX q (recon_path (hex F h)) req \<Longrightarrow> tq_method q = GET \<Longrightarrow> dispatch AX hooks req = Inr (CReconstruct (hex F h))"
    and "arrives AX q (chunk_path (hex F h)) req \<Longrightarrow> tq_method q = GET \<Longrightarrow> dispatch AX hooks req = Inr (CGlobalDedup (hex F h))"
    and "arrives AX q (xorb_path (hex F h)) req \<Longrightarrow> tq_method q = POST \<Longrightarrow> tq_body q = TxBytes b \<Longrightarrow>
      dispatch AX hooks req = (if length b \<le> MAX_BODY_BYTES then Inr (CPutXorb (hex F h) b) else Inl (ax_reject AX 413))"
    and "arrives AX q (data_path (hex F h)) req \<Longrightarrow> tq_method q = GET \<Longrightarrow>
      dispatch AX hooks req = Inr (CXorbData (hex F h) (map_of (tq_headers q) ''range''))"
    and "arrives AX q ''/api/v1/files'' req \<Longrightarrow> tq_method q = POST \<Longrightarrow> tq_body q = TxJson j \<Longrightarrow> ax_register AX j = Some rf \<Longrightarrow>
      dispatch AX hooks req = (if length (rq_body req) \<le> MAX_BODY_BYTES then Inr (CRegisterFile rf) else Inl (ax_reject AX 413))"
  using dispatch_path [OF assms] unfolding arrives_def dispatch_def
  by (auto simp: method_ok_def extract_call_def limited_def)

section \<open>The agent's requests at a running server\<close>

definition connected ::
  "bool \<Rightarrow> (string \<Rightarrow> string option) \<Rightarrow> axum \<Rightarrow> bool \<Rightarrow> fork \<Rightarrow> local_fs_blob_store \<Rightarrow> bool \<Rightarrow> string
     \<Rightarrow> (tx_req \<Rightarrow> fs app_state \<Rightarrow> tx_resp res \<times> fs app_state) \<Rightarrow> bool" where
  "connected lossy to_str AX ovf F c hooks base send \<longleftrightarrow>
     axum_ok AX \<and> serde_ok AX \<and> to_str_ok to_str \<and> validate_wf F \<and> hex_ok F \<and> lf_public_base c = base \<and>
     http_link lossy AX (router to_str AX ovf F (local_fs_ops ovf F c) hooks) base send"

definition running ::
  "(string \<Rightarrow> string option) \<Rightarrow> bool \<Rightarrow> fork \<Rightarrow> local_fs_blob_store \<Rightarrow> string option \<Rightarrow> fs app_state \<Rightarrow> bool" where
  "running to_str ovf F c tok st \<longleftrightarrow> served to_str ovf F c st \<and> authorised tok st"

abbreviation objects :: "fork \<Rightarrow> local_fs_blob_store \<Rightarrow> fs app_state \<Rightarrow> hash \<Rightarrow> bytes option" where
  "objects F c st \<equiv> local_fs_contents F c (as_blob st)"

lemma connectedD:
  assumes "connected lossy to_str AX ovf F c hooks base send"
  shows "axum_ok AX" "serde_ok AX" "to_str_ok to_str" "validate_wf F" "hex_ok F" "lf_public_base c = base"
    "http_link lossy AX (router to_str AX ovf F (local_fs_ops ovf F c) hooks) base send"
  using assms by (auto simp: connected_def)

lemma runningD:
  "running to_str ovf F c tok st \<Longrightarrow> served to_str ovf F c st" "running to_str ovf F c tok st \<Longrightarrow> authorised tok st"
  by (auto simp: running_def)

lemma running_step:
  assumes "running to_str ovf F c tok st" "admitted call"
    and "handle to_str ovf F (local_fs_ops ovf F c) call st = (r, st')" "\<not> as_poisoned st'"
  shows "running to_str ovf F c tok st'"
  using assms served_step [OF _ assms(2,3,4)] handle_keeps_auth [OF assms(3)] by (simp add: running_def authorised_def)

lemma run_route_call:
  assumes "dispatch AX hooks req = Inr call" "rq_method req \<noteq> HEAD"
  shows "run_route to_str AX ovf F B hooks req st = handle to_str ovf F B call st"
  using assms by (simp add: run_route_def head_strip_def split: prod.splits)

text \<open>The outcome of a request that is dispatched to a handler.\<close>

lemma wire_call:
  assumes con: "connected lossy to_str AX ovf F c hooks base send" and st: "running to_str ovf F c tok st"
    and q: "map_of (tq_headers q) ''authorization'' = None" "tq_method q \<noteq> HEAD" "tq_url q = base @ path"
    and path: "starts_with ''/'' path" "list_all plain (split_on CHR ''/'' path)"
    and disp: "\<And>req. arrives AX (auth tok q) path req \<Longrightarrow> dispatch AX hooks req = Inr call"
    and h: "handle to_str ovf F (local_fs_ops ovf F c) call st = (rr, st1)"
    and run: "send (auth tok q) st = (r, st')"
  shows "(\<exists>rs tp. rr = Ok rs \<and> r = Ok tp \<and> resp_matches rs tp \<and> st' = st1) \<or>
     (\<exists>e. r = Err e) \<and> ((\<forall>rs. rr \<noteq> Ok rs) \<and> st' = st1 \<or> lossy \<and> st' \<in> {st, st1})"
proof -
  note con' = connectedD [OF con] and sv = runningD [OF st]
  let ?run = "run_route to_str AX ovf F (local_fs_ops ovf F c) hooks"
  obtain req where req: "arrives AX (auth tok q) path req"
    and alt: "(\<exists>rs tp. ?run req st = (Ok rs, st') \<and> r = Ok tp \<and> resp_matches rs tp) \<or>
       (\<exists>e x. ?run req st = (x, st') \<and> (\<forall>rs. x \<noteq> Ok rs) \<and> r = Err e) \<or>
       lossy \<and> (\<exists>e. r = Err e) \<and> st' \<in> {st, snd (?run req st)}"
    by (rule link_call [OF con'(7) sv(2) con'(3) q(1,3) path run])
  have "?run req st = (rr, st1)"
    using run_route_call [OF disp [OF req], of to_str ovf F "local_fs_ops ovf F c" st] h method_arrives [OF req] q(2) by simp
  then show ?thesis using alt by auto
qed

lemma ucast_u32_u64 [simp]: "ucast (ucast (i :: u32) :: u64) = i"
  by (rule bit_word_eqI) (auto simp: bit_simps)

text \<open>A chunk query answers with the location in the index and changes nothing but a counter.\<close>

lemma global_dedup_value:
  assumes "hex_ok F" "\<not> as_poisoned st" "global_dedup F (hex F h) st = (rr, st1)"
  shows "as_index st1 = as_index st \<and> as_blob st1 = as_blob st \<and> \<not> as_poisoned st1 \<and>
     (case hm_get (ix_chunk_index (as_index st)) h of
        None \<Rightarrow> rr = Ok (status_only 404)
      | Some l \<Rightarrow> \<exists>more. rr = Ok (ok_json (JObj ((''xorb'', JStr (hex F (cl_xorb l))) # (''chunk_index'', JNum (ucast (cl_index l))) # more))))"
  using assms by (auto simp: global_dedup_def hex_roundtrip [OF assms(1)] split: option.splits)

lemma wire_query:
  assumes con: "connected lossy to_str AX ovf F c hooks base send" and st: "running to_str ovf F c tok st"
    and q: "query_chunk tok send base (hex F h) st = (r, st')"
  shows "running to_str ovf F c tok st' \<and> as_index st' = as_index st \<and> as_blob st' = as_blob st \<and>
     (r = Ok (map_option (\<lambda>l. (hex F (cl_xorb l), cl_index l)) (hm_get (ix_chunk_index (as_index st)) h)) \<or>
      lossy \<and> (\<exists>e. r = Err e))"
proof -
  note con' = connectedD [OF con] and sv = runningD [OF st]
  let ?q = "client_get (base @ chunk_path (hex F h))"
  obtain r1 where s: "send (auth tok ?q) st = (r1, st')"
    using q by (auto simp: query_chunk_def chunk_path_def split: prod.splits)
  obtain rr st1 where gd: "global_dedup F (hex F h) st = (rr, st1)" by fastforce
  note val = global_dedup_value [OF con'(5) served_np [OF sv(1)] gd]
  have st1: "running to_str ovf F c tok st1" by (rule running_step [OF st, of "CGlobalDedup (hex F h)" rr]) (use gd val in auto)
  have alt: "(\<exists>rs tp. rr = Ok rs \<and> r1 = Ok tp \<and> resp_matches rs tp \<and> st' = st1) \<or>
      (\<exists>e. r1 = Err e) \<and> ((\<forall>rs. rr \<noteq> Ok rs) \<and> st' = st1 \<or> lossy \<and> st' \<in> {st, st1})"
    by (rule wire_call [OF con st _ _ _ path_slash(2) path_plain(2) [OF con'(5)] arrives_dispatch(2) [OF con'(1,5)] _ s])
      (simp_all only: auth_simps client_simps, simp_all add: gd)
  show ?thesis
  proof (cases "\<exists>e. r1 = Err e")
    case True
    then have "\<exists>e. r = Err e" using q s by (auto simp: query_chunk_def chunk_path_def)
    moreover have "lossy \<and> st' \<in> {st, st1}"
      using alt True val by (cases "hm_get (ix_chunk_index (as_index st)) h") auto
    ultimately show ?thesis using st st1 val by auto
  next
    case False
    then obtain rs tp where tp: "rr = Ok rs" "st' = st1" "r1 = Ok tp" "resp_matches rs tp" using alt by auto
    have "r = Ok (map_option (\<lambda>l. (hex F (cl_xorb l), cl_index l)) (hm_get (ix_chunk_index (as_index st)) h))"
      using q s tp val by (auto simp: query_chunk_def chunk_path_def resp_matches_def is_success_def
          split: option.splits)
    then show ?thesis using tp(2) st1 val by auto
  qed
qed

text \<open>A body above the limit is refused before any handler runs.\<close>

lemma wire_upload_large:
  assumes con: "connected lossy to_str AX ovf F c hooks base send" and st: "running to_str ovf F c tok st"
    and large: "\<not> length b \<le> MAX_BODY_BYTES"
    and q: "upload_xorb tok send base (hex F h) b st = (r, st')"
  shows "st' = st \<and> (\<exists>e. r = Err e)"
proof -
  note con' = connectedD [OF con] and sv = runningD [OF st]
  let ?B = "local_fs_ops ovf F c"
  let ?q = "client_post (base @ xorb_path (hex F h)) (TxBytes b)"
  obtain r1 where s: "send (auth tok ?q) st = (r1, st')"
    using q by (auto simp: upload_xorb_def xorb_path_def split: prod.splits)
  have r: "r = bind_res (context_res ''upload xorb'' r1) (\<lambda>resp. if is_success (tp_status resp) then Ok ()
      else Err (''xorb upload failed: HTTP '' @ tp_status_text resp))"
    using q s by (simp add: upload_xorb_def xorb_path_def)
  obtain req where req: "arrives AX (auth tok ?q) (xorb_path (hex F h)) req"
    and alt: "(\<exists>rs tp. run_route to_str AX ovf F ?B hooks req st = (Ok rs, st') \<and> r1 = Ok tp \<and> resp_matches rs tp) \<or>
       (\<exists>e x. run_route to_str AX ovf F ?B hooks req st = (x, st') \<and> (\<forall>rs. x \<noteq> Ok rs) \<and> r1 = Err e) \<or>
       lossy \<and> (\<exists>e. r1 = Err e) \<and> st' \<in> {st, snd (run_route to_str AX ovf F ?B hooks req st)}"
    by (rule link_call [OF con'(7) sv(2) con'(3) _ _ path_slash(3) path_plain(3) [OF con'(5)] s]) auto
  have "dispatch AX hooks req = Inl (ax_reject AX 413)"
    using arrives_dispatch(3) [OF con'(1,5) req, of b hooks] large by simp
  then have "run_route to_str AX ovf F ?B hooks req st = (Ok (ax_reject AX 413), st)"
    using method_arrives [OF req] by (simp add: run_route_def head_strip_def)
  moreover have "rs_status (ax_reject AX 413) = 413" using con'(1) by (simp add: axum_ok_def)
  ultimately show ?thesis using alt r by (auto simp: resp_matches_def is_success_def)
qed

text \<open>An upload of a valid xorb stores it unless an object with that name is there already.\<close>

lemma put_xorb_frame:
  "put_xorb ovf F B hh body st = (r, st') \<Longrightarrow>
     ix_files (as_index st') = ix_files (as_index st) \<and> ix_catalog (as_index st') = ix_catalog (as_index st)"
  by (auto simp: put_xorb_def Let_def dest: index_upload_frame(1,2) split: option.splits res.splits prod.splits if_splits)

lemma wire_upload:
  assumes con: "connected lossy to_str AX ovf F c hooks base send" and st: "running to_str ovf F c tok st"
    and gate: "validate_xorb_object F b h = Ok (Some info)"
    and q: "upload_xorb tok send base (hex F h) b st = (r, st')"
  shows "running to_str ovf F c tok st' \<and> ix_files (as_index st') = ix_files (as_index st) \<and>
     ix_catalog (as_index st') = ix_catalog (as_index st) \<and>
     objects F c st' \<in> {objects F c st, if objects F c st h = None then (objects F c st)(h \<mapsto> b) else objects F c st} \<and>
     (r = Ok () \<longrightarrow> h \<in> dom (objects F c st')) \<and>
     (r = Ok () \<or> (\<exists>e. r = Err e) \<and> (lossy \<or> MAX_BODY_BYTES < length b))"
proof -
  note con' = connectedD [OF con] and sv = runningD [OF st]
  let ?B = "local_fs_ops ovf F c"
  let ?q = "client_post (base @ xorb_path (hex F h)) (TxBytes b)"
  obtain r1 where s: "send (auth tok ?q) st = (r1, st')"
    using q by (auto simp: upload_xorb_def xorb_path_def split: prod.splits)
  have r: "r = bind_res (context_res ''upload xorb'' r1) (\<lambda>resp. if is_success (tp_status resp) then Ok ()
      else Err (''xorb upload failed: HTTP '' @ tp_status_text resp))"
    using q s by (simp add: upload_xorb_def xorb_path_def)
  show ?thesis
  proof (cases "length b \<le> MAX_BODY_BYTES")
    case small: True
    obtain rr st1 where p: "put_xorb ovf F ?B (hex F h) b st = (rr, st1)" by fastforce
    have len: "blob_len_ok b" using small by (simp add: MAX_BODY_BYTES_def)
    from lfs.put_xorb_sync [OF served_sync [OF sv(1) con'(4)] con'(4) len served_np [OF sv(1)] hex_roundtrip [OF con'(5)] gate,
        of ovf ovf] p
    have val: "rr = Ok (ok_json (JObj [(''was_inserted'', JBool (objects F c st h = None))]))" "\<not> as_poisoned st1"
        "objects F c st1 = (if objects F c st h = None then (objects F c st)(h \<mapsto> b) else objects F c st)" by auto
    have st1: "running to_str ovf F c tok st1"
      by (rule running_step [OF st, of "CPutXorb (hex F h) b" rr]) (use p val(2) small in auto)
    have disp: "dispatch AX hooks req = Inr (CPutXorb (hex F h) b)" if "arrives AX (auth tok ?q) (xorb_path (hex F h)) req" for req
      using arrives_dispatch(3) [OF con'(1,5) that, of b hooks] small by simp
    have alt: "(\<exists>rs tp. rr = Ok rs \<and> r1 = Ok tp \<and> resp_matches rs tp \<and> st' = st1) \<or>
        (\<exists>e. r1 = Err e) \<and> ((\<forall>rs. rr \<noteq> Ok rs) \<and> st' = st1 \<or> lossy \<and> st' \<in> {st, st1})"
      by (rule wire_call [OF con st _ _ _ path_slash(3) path_plain(3) [OF con'(5)] disp _ s])
        (simp_all only: auth_simps client_simps, simp_all add: p)
    have stst: "st' \<in> {st, st1}" using alt by auto
    have "r = Ok () \<longrightarrow> st' = st1" using alt r by (auto simp: res_simps)
    moreover have "r = Ok () \<or> (\<exists>e. r = Err e) \<and> lossy"
      using alt r val(1) by (auto simp: resp_matches_def is_success_def)
    moreover have "h \<in> dom (objects F c st1)" unfolding val(3) by (auto simp: dom_def)
    ultimately show ?thesis using stst st st1 val(3) put_xorb_frame [OF p] by auto
  next
    case large: False
    from wire_upload_large [OF con st this q] show ?thesis using st large by auto
  qed
qed

text \<open>
  A registration records the file and its catalog entry or changes nothing. Its answer says which, unless the link lost it.
\<close>

abbreviation files_path :: string where
  "files_path \<equiv> ''/api/v1/files''"

definition register_json :: "fork \<Rightarrow> hash \<Rightarrow> u64 \<Rightarrow> register_term list \<Rightarrow> string \<Rightarrow> string \<Rightarrow> json" where
  "register_json F fh n ts volume dest =
     JObj [(''file_hash'', JStr (hex F fh)), (''total_size'', JNum n), (''terms'', JArr (map json_of_register_term ts)),
           (''volume'', JStr volume), (''path'', JStr dest)]"

lemma register_file_value:
  assumes "hex_ok F" "\<not> as_poisoned st" "rf_file_hash req = hex F fh" "rf_volume req = Some v" "rf_path req = Some p"
    and "register_file F req st = (rr, st1)"
  shows "\<not> as_poisoned st1 \<and> as_blob st1 = as_blob st \<and> ix_xorbs (as_index st1) = ix_xorbs (as_index st) \<and>
     ix_chunk_index (as_index st1) = ix_chunk_index (as_index st) \<and>
     ((\<exists>msg. rr = Ok (with_text 400 msg)) \<and> st1 = st \<or>
      (\<exists>j. rr = Ok (ok_json j)) \<and> (\<forall>t \<in> set (rf_terms req). registrable F (as_index st) t) \<and>
      ix_files (as_index st1) = hm_insert fh \<lparr>fr_total_size = rf_total_size req, fr_terms = map (file_term_of F) (rf_terms req)\<rparr>
        (ix_files (as_index st)) \<and>
      ix_catalog (as_index st1) = hm_insert (v, p) fh (ix_catalog (as_index st)))"
proof (cases "register_terms F (ix_xorbs (as_index st)) (rf_terms req)")
  case (Inl e)
  then show ?thesis using assms by (auto simp: register_file_def hex_roundtrip)
next
  case (Inr ts)
  have "\<forall>t \<in> set (rf_terms req). registrable F (as_index st) t" using register_terms_ok [of "rf_terms req" F "as_index st"] Inr by auto
  then show ?thesis
    using Inr assms register_terms_value [OF Inr] by (auto simp: register_file_def hex_roundtrip Let_def)
qed

lemma wire_register:
  assumes con: "connected lossy to_str AX ovf F c hooks base send" and st: "running to_str ovf F c tok st"
    and s: "send (auth tok (client_post (base @ files_path) (TxJson (register_json F fh n ts volume dest)))) st = (r, st')"
  shows "running to_str ovf F c tok st' \<and> as_blob st' = as_blob st \<and> ix_xorbs (as_index st') = ix_xorbs (as_index st) \<and>
     ix_chunk_index (as_index st') = ix_chunk_index (as_index st) \<and>
     (ix_files (as_index st') = ix_files (as_index st) \<and> ix_catalog (as_index st') = ix_catalog (as_index st) \<and>
        (\<forall>tp. r = Ok tp \<longrightarrow> \<not> is_success (tp_status tp)) \<or>
      (\<forall>t \<in> set ts. registrable F (as_index st) t) \<and>
        ix_files (as_index st') = hm_insert fh \<lparr>fr_total_size = n, fr_terms = map (file_term_of F) ts\<rparr> (ix_files (as_index st)) \<and>
        ix_catalog (as_index st') = hm_insert (volume, dest) fh (ix_catalog (as_index st)) \<and>
        (lossy \<or> (\<exists>tp. r = Ok tp \<and> is_success (tp_status tp))))"
proof -
  note con' = connectedD [OF con] and sv = runningD [OF st]
  let ?j = "register_json F fh n ts volume dest" and ?B = "local_fs_ops ovf F c"
  let ?q = "client_post (base @ files_path) (TxJson ?j)"
  let ?rf = "\<lparr>rf_file_hash = hex F fh, rf_total_size = n, rf_terms = ts, rf_volume = Some volume, rf_path = Some dest\<rparr>"
  have sj: "ax_register AX ?j = Some ?rf" using con'(2) by (simp add: serde_ok_def register_json_def)
  obtain req where req: "arrives AX (auth tok ?q) files_path req"
    and alt: "(\<exists>rs tp. run_route to_str AX ovf F ?B hooks req st = (Ok rs, st') \<and> r = Ok tp \<and> resp_matches rs tp) \<or>
       (\<exists>e x. run_route to_str AX ovf F ?B hooks req st = (x, st') \<and> (\<forall>rs. x \<noteq> Ok rs) \<and> r = Err e) \<or>
       lossy \<and> (\<exists>e. r = Err e) \<and> st' \<in> {st, snd (run_route to_str AX ovf F ?B hooks req st)}"
    by (rule link_call [OF con'(7) sv(2) con'(3) _ _ _ path_plain(5) [OF con'(5)] s]) (auto simp: starts_with_def)
  have disp: "dispatch AX hooks req = (if length (rq_body req) \<le> MAX_BODY_BYTES then Inr (CRegisterFile ?rf) else Inl (ax_reject AX 413))"
    by (rule arrives_dispatch(5) [OF con'(1,5) req _ _ sj]) simp_all
  show ?thesis
  proof (cases "length (rq_body req) \<le> MAX_BODY_BYTES")
    case True
    obtain rr st1 where rg: "register_file F ?rf st = (rr, st1)" by fastforce
    note val = register_file_value [OF con'(5) served_np [OF sv(1)] _ _ _ rg, of fh volume dest, simplified]
    have st1: "running to_str ovf F c tok st1"
      by (rule running_step [OF st, of "CRegisterFile ?rf" rr]) (use rg val in auto)
    have "run_route to_str AX ovf F ?B hooks req st = (rr, st1)"
      using run_route_call [of AX hooks req "CRegisterFile ?rf" to_str ovf F ?B st] disp True rg method_arrives [OF req] by simp
    then show ?thesis using alt st st1 val by (auto simp: resp_matches_def is_success_def)
  next
    case False
    then have "run_route to_str AX ovf F ?B hooks req st = (Ok (ax_reject AX 413), st)"
      using disp method_arrives [OF req] by (simp add: run_route_def head_strip_def)
    moreover have "rs_status (ax_reject AX 413) = 413" using con'(1) by (simp add: axum_ok_def)
    ultimately show ?thesis using alt st by (auto simp: resp_matches_def is_success_def)
  qed
qed

end
