(* ===== verification/Cas_Service.thy ===== *)
theory Cas_Service
  imports Http_Link
begin

text \<open>
  What the agent's ingest relies on of the service it talks to, as the locale \<open>cas_service\<close>: the state of the service is
  seen as the chunk hashes of its stored xorbs, its file records and its catalog. Inside it, an ingest is shown to
  be all or nothing: it registers a file whose terms name the chunks of the bytes in order, or no file. The
  interpretation on the HTTP server over the local file system discharges the laws.
\<close>

lemma ucast_of_nat_u32: "n < 2 ^ 32 \<Longrightarrow> ucast (of_nat n :: u32) = (of_nat n :: u64)"
  by (simp add: word_unat_eq_iff unat_of_nat_u32 unat_of_nat_u64)

section \<open>The contract\<close>

locale cas_service =
  fixes lossy :: bool
    and tok :: "string option"
    and send :: "tx_req \<Rightarrow> 'w \<Rightarrow> tx_resp res \<times> 'w"
    and F :: fork
    and base :: string
    and ready :: "'w \<Rightarrow> bool"
    and stored :: "'w \<Rightarrow> hash \<Rightarrow> hash list option"
    and files :: "'w \<Rightarrow> hash \<Rightarrow> file_record option"
    and catalog :: "'w \<Rightarrow> string \<times> string \<Rightarrow> hash option"
    and genuine :: "chunk \<Rightarrow> bool"
  assumes hex_law: "ready w \<Longrightarrow> from_hex F (hex F h) = Some h"
    and stored_law: "\<lbrakk>ready w; stored w x = Some hs\<rbrakk> \<Longrightarrow> length hs < 2 ^ 32"
    and query_law: "\<lbrakk>ready w; query_chunk tok send base (hex F h) w = (rq, w')\<rbrakk> \<Longrightarrow>
        ready w' \<and> stored w' = stored w \<and> files w' = files w \<and> catalog w' = catalog w \<and>
        (\<forall>xh i. rq = Ok (Some (xh, i)) \<longrightarrow> (\<exists>x hs. xh = hex F x \<and> stored w x = Some hs \<and> unat i < length hs \<and> hs ! unat i = h))"
    and upload_law: "\<lbrakk>ready w; cs \<noteq> []; \<forall>ch \<in> set cs. genuine ch; from_xorb F cs = Ok (h, b);
          upload_xorb tok send base (hex F h) b w = (ru, w')\<rbrakk> \<Longrightarrow>
        ready w' \<and> stored w \<subseteq>\<^sub>m stored w' \<and> files w' = files w \<and> catalog w' = catalog w"
    and register_law: "\<lbrakk>ready w; send (auth tok (client_post (base @ files_path) (TxJson (register_json F fh n ts v p)))) w = (r, w')\<rbrakk> \<Longrightarrow>
        ready w' \<and> stored w' = stored w \<and>
        (files w' = files w \<and> catalog w' = catalog w \<and> (\<forall>tp. r = Ok tp \<longrightarrow> \<not> is_success (tp_status tp)) \<or>
         files w' = (files w)(fh \<mapsto> \<lparr>fr_total_size = n, fr_terms = map (file_term_of F) ts\<rparr>) \<and>
         catalog w' = (catalog w)((v, p) \<mapsto> fh) \<and> (\<forall>t \<in> set ts. \<exists>x. from_hex F (rg_xorb t) = Some x \<and> x \<in> dom (stored w)) \<and>
         (lossy \<or> (\<exists>tp. r = Ok tp \<and> is_success (tp_status tp))))"
begin

text \<open>A location that the service gave out for the chunk hash \<open>h\<close> is right.\<close>

definition right_loc :: "'w \<Rightarrow> hash \<Rightarrow> (string \<times> u32) option \<Rightarrow> bool" where
  "right_loc w h loc \<longleftrightarrow>
     (\<forall>xh i. loc = Some (xh, i) \<longrightarrow> (\<exists>x hs. xh = hex F x \<and> stored w x = Some hs \<and> unat i < length hs \<and> hs ! unat i = h))"

lemma right_loc_mono: "right_loc w h loc \<Longrightarrow> stored w \<subseteq>\<^sub>m stored w' \<Longrightarrow> right_loc w' h loc"
  unfolding right_loc_def by (metis map_le_def domI)

lemma query_all_keeps:
  "\<lbrakk>query_all tok send F base cs w = (r, w'); ready w\<rbrakk> \<Longrightarrow>
     ready w' \<and> stored w' = stored w \<and> files w' = files w \<and> catalog w' = catalog w"
proof (induction cs arbitrary: r w)
  case (Cons ch cs)
  obtain r1 w1 where q: "query_chunk tok send base (hex F (ck_hash ch)) w = (r1, w1)" by fastforce
  then have "w' = w1 \<or> (\<exists>r2. query_all tok send F base cs w1 = (r2, w'))"
    using Cons.prems(1) by (auto split: res.splits prod.splits)
  then show ?case using Cons.IH query_law [OF Cons.prems(2) q] by auto
qed simp

lemma query_all_right:
  "\<lbrakk>query_all tok send F base cs w = (Ok locs, w'); ready w\<rbrakk> \<Longrightarrow>
     list_all2 (\<lambda>ch loc. right_loc w (ck_hash ch) loc) cs locs"
proof (induction cs arbitrary: locs w)
  case (Cons ch cs)
  obtain r1 w1 where q: "query_chunk tok send base (hex F (ck_hash ch)) w = (r1, w1)" by fastforce
  then obtain loc locs' where l: "r1 = Ok loc" "query_all tok send F base cs w1 = (Ok locs', w')" "locs = loc # locs'"
    using Cons.prems(1) by (auto split: res.splits prod.splits)
  note law = query_law [OF Cons.prems(2) q]
  have "right_loc w (ck_hash ch) loc" using law l(1) by (simp add: right_loc_def)
  moreover have "list_all2 (\<lambda>ch loc. right_loc w (ck_hash ch) loc) cs locs'"
    using Cons.IH [OF l(2)] law by (simp add: right_loc_def)
  ultimately show ?case using l(3) by simp
qed simp

text \<open>Packing only adds objects, whether it gets to the end or not.\<close>

lemma ingest_loop_grows:
  "\<lbrakk>ingest_loop tok send ovf F base chunks locs i terms w = (r, w'); ready w; \<forall>ch \<in> set chunks. genuine ch\<rbrakk> \<Longrightarrow>
     ready w' \<and> stored w \<subseteq>\<^sub>m stored w' \<and> files w' = files w \<and> catalog w' = catalog w"
proof (induction "length chunks - i" arbitrary: i terms w rule: less_induct)
  case less
  note run = less.prems(1) [unfolded ingest_loop.simps [of tok send ovf F base chunks locs i terms w]]
  have stay: ?case if "w' = w" using that less.prems(2) by simp
  show ?case
  proof (cases "i < length chunks")
    case i: True
    show ?thesis
    proof (cases "locs ! i")
      case (Some xs)
      obtain x s where xs: "xs = (x, s)" by fastforce
      show ?thesis
      proof (cases "bind_res (add_res ovf s 1) (dedup_run ovf locs x (Suc i))")
        case (Ok je)
        obtain j e where je: "je = (j, e)" by fastforce
        then obtain terms1 where rest: "ingest_loop tok send ovf F base chunks locs j terms1 w = (r, w')"
          using run i Some xs Ok by simp
        have "Suc i \<le> j" using Ok je dedup_run_ge by (auto simp: res_simps)
        then show ?thesis using less.hyps [OF _ rest] less.prems i by auto
      qed (use run i Some xs stay in auto)
    next
      case None
      define j where "j = novel_end chunks locs i"
      show ?thesis
      proof (cases "from_xorb F (slice i j chunks)")
        case (Ok hb)
        obtain h b where fx: "from_xorb F (slice i j chunks) = Ok (h, b)" using Ok by (cases hb) simp
        obtain ru w1 where up: "upload_xorb tok send base (hex F h) b w = (ru, w1)" by fastforce
        have j: "i < j" using novel_end_gt by (simp add: j_def)
        then have "slice i j chunks \<noteq> []" "set (slice i j chunks) \<subseteq> set chunks"
          using i by (auto simp: slice_def dest: in_set_takeD in_set_dropD)
        then have law: "ready w1 \<and> stored w \<subseteq>\<^sub>m stored w1 \<and> files w1 = files w \<and> catalog w1 = catalog w"
          using upload_law [OF less.prems(2) _ _ fx up] less.prems(3) by blast
        have "w' = w1 \<or> (\<exists>terms1. ingest_loop tok send ovf F base chunks locs j terms1 w1 = (r, w'))"
          using run i None fx up by (cases ru) (auto simp: j_def Let_def)
        moreover have "ready w' \<and> stored w1 \<subseteq>\<^sub>m stored w' \<and> files w' = files w1 \<and> catalog w' = catalog w1"
          if "ingest_loop tok send ovf F base chunks locs j terms1 w1 = (r, w')" for terms1
          using less.hyps [OF diff_less_mono2 [OF j i] that] law less.prems(3) by blast
        ultimately consider "w' = w1" | "ready w'" "stored w1 \<subseteq>\<^sub>m stored w'" "files w' = files w1" "catalog w' = catalog w1" by blast
        then show ?thesis by cases (use law map_le_trans [of "stored w" "stored w1" "stored w'"] in simp_all)
      qed (use run i None stay in \<open>auto simp: j_def Let_def\<close>)
    qed
  qed (use run stay in auto)
qed

text \<open>The chunk hashes that a registered term stands for.\<close>

definition term_hashes :: "'w \<Rightarrow> file_term \<Rightarrow> hash list" where
  "term_hashes w t = (case stored w (ft_xorb t) of None \<Rightarrow> [] | Some hs \<Rightarrow> slice (unat (ft_start t)) (unat (ft_end t)) hs)"

definition term_fits :: "'w \<Rightarrow> file_term \<Rightarrow> bool" where
  "term_fits w t \<longleftrightarrow> ft_start t < ft_end t \<and> (\<exists>hs. stored w (ft_xorb t) = Some hs \<and> unat (ft_end t) \<le> length hs)"

text \<open>No stored xorb has the name of a run of these chunks without holding that run.\<close>

definition no_root_clash :: "'w \<Rightarrow> chunk list \<Rightarrow> bool" where
  "no_root_clash w chunks \<longleftrightarrow>
     (\<forall>i j x b hs. from_xorb F (slice i j chunks) = Ok (x, b) \<and> stored w x = Some hs \<longrightarrow> hs = map ck_hash (slice i j chunks))"

text \<open>A run of locations at consecutive indices of one xorb lies inside that xorb.\<close>

lemma known_run:
  assumes w: "ready w" and ij: "i < j" "j \<le> length chunks"
    and locs: "\<forall>k. i \<le> k \<and> k < j \<longrightarrow> locs ! k = Some (xh, s + of_nat (k - i))"
    and right: "list_all2 (\<lambda>ch loc. right_loc w (ck_hash ch) loc) chunks locs"
  obtains x hs where "xh = hex F x" "stored w x = Some hs" "unat s + (j - i) \<le> length hs"
    "unat (s + of_nat (j - i)) = unat s + (j - i)" "slice (unat s) (unat s + (j - i)) hs = map ck_hash (slice i j chunks)"
proof -
  have loc: "\<exists>x hs. xh = hex F x \<and> stored w x = Some hs \<and> unat (s + of_nat n) < length hs \<and> hs ! unat (s + of_nat n) = ck_hash (chunks ! (i + n))"
    if "n < j - i" for n
    using list_all2_nthD [OF right, of "i + n"] locs [rule_format, of "i + n"] that ij by (auto simp: right_loc_def)
  from loc [of 0] ij obtain x hs where x: "xh = hex F x" "stored w x = Some hs" by auto
  have loc': "unat (s + of_nat n) < length hs \<and> hs ! unat (s + of_nat n) = ck_hash (chunks ! (i + n))" if "n < j - i" for n
    using loc [OF that] x hex_law [OF w] by (metis option.inject)
  have small: "length hs < 2 ^ 32" using stored_law [OF w x(2)] .
  have plus: "unat (s + of_nat n) = unat s + n" if "n \<le> j - i" for n
    using that
  proof (induction n)
    case (Suc n)
    then have "unat s + n < 2 ^ 32 - 1" using loc' [of n] small by simp
    then show ?case using Suc by (simp add: unat_word_ariths unsigned_of_nat take_bit_eq_mod)
  qed simp
  define m where "m = j - i - 1"
  have m: "m < j - i" "m \<le> j - i" "j - i = Suc m" using ij by (auto simp: m_def)
  have e: "unat s + (j - i) \<le> length hs" using loc' [OF m(1)] plus [OF m(2)] unfolding m(3) by simp
  have "slice (unat s) (unat s + (j - i)) hs = map ck_hash (slice i j chunks)"
    by (rule nth_equalityI) (use e ij loc' plus in \<open>auto simp: slice_def\<close>)
  then show thesis using that x e plus by blast
qed

text \<open>
  The terms of the chunks from \<open>i\<close> on: they start at 0 when no chunk was known, and when every xorb they name is stored they list
  exactly the hashes of the chunks.
\<close>

definition terms_from :: "'w \<Rightarrow> chunk list \<Rightarrow> (string \<times> u32) option list \<Rightarrow> nat \<Rightarrow> register_term list \<Rightarrow> bool" where
  "terms_from w chunks locs i rts \<longleftrightarrow>
     ((\<forall>k < length chunks. locs ! k = None) \<longrightarrow> (\<forall>t \<in> set rts. rg_start t = 0)) \<and>
     (no_root_clash w chunks \<and> (\<forall>t \<in> set rts. \<exists>x. from_hex F (rg_xorb t) = Some x \<and> x \<in> dom (stored w)) \<longrightarrow>
      concat (map (\<lambda>t. term_hashes w (file_term_of F t)) rts) = map ck_hash (drop i chunks) \<and>
      (\<forall>t \<in> set rts. term_fits w (file_term_of F t)))"

lemma terms_from_Cons:
  assumes "terms_from w chunks locs j rts" and ij: "i < j" "j \<le> length chunks"
    and "(\<forall>k < length chunks. locs ! k = None) \<Longrightarrow> rg_start t = 0"
    and "\<And>x. no_root_clash w chunks \<Longrightarrow> from_hex F (rg_xorb t) = Some x \<Longrightarrow> x \<in> dom (stored w) \<Longrightarrow>
      term_hashes w (file_term_of F t) = map ck_hash (slice i j chunks) \<and> term_fits w (file_term_of F t)"
  shows "terms_from w chunks locs i (t # rts)"
proof -
  have "slice i j chunks @ drop j chunks = drop i chunks"
    using slice_append [of i j "length chunks" chunks] ij by (simp add: slice_def)
  from arg_cong [OF this, of "map ck_hash", symmetric]
  have cut: "map ck_hash (drop i chunks) = map ck_hash (slice i j chunks) @ map ck_hash (drop j chunks)" by simp
  have "term_hashes w (file_term_of F t) = map ck_hash (slice i j chunks) \<and> term_fits w (file_term_of F t)"
    if "no_root_clash w chunks" "\<exists>x. from_hex F (rg_xorb t) = Some x \<and> x \<in> dom (stored w)" using that assms(5) by blast
  then show ?thesis using assms(1,4) unfolding terms_from_def cut by simp
qed

lemma known_term:
  assumes w: "ready w" and "i < j" "j \<le> length chunks"
    and "\<forall>k. i \<le> k \<and> k < j \<longrightarrow> locs ! k = Some (xh, s + of_nat (k - i))"
    and "list_all2 (\<lambda>ch loc. right_loc w (ck_hash ch) loc) chunks locs"
    and t: "t = \<lparr>rg_xorb = xh, rg_start = s, rg_end = s + of_nat (j - i), rg_unpacked_length = n\<rparr>"
  shows "term_hashes w (file_term_of F t) = map ck_hash (slice i j chunks) \<and> term_fits w (file_term_of F t)"
proof -
  obtain x hs where "xh = hex F x" "stored w x = Some hs" "unat s + (j - i) \<le> length hs"
      "unat (s + of_nat (j - i)) = unat s + (j - i)" "slice (unat s) (unat s + (j - i)) hs = map ck_hash (slice i j chunks)"
    by (rule known_run [OF assms(1-5)])
  then show ?thesis
    unfolding term_hashes_def term_fits_def file_term_of_def t
    using hex_law [OF w] assms(2) by (simp add: word_less_nat_alt del: of_nat_diff)
qed

lemma novel_term:
  assumes w: "ready w" and ij: "i < j" "j \<le> length chunks" "j - i \<le> MAX_XORB_CHUNKS" and x: "from_xorb F (slice i j chunks) = Ok (h, b)"
    and hd: "h \<in> dom (stored w)" and clash: "no_root_clash w chunks"
    and t: "t = \<lparr>rg_xorb = hex F h, rg_start = 0, rg_end = of_nat (j - i), rg_unpacked_length = n\<rparr>"
  shows "term_hashes w (file_term_of F t) = map ck_hash (slice i j chunks) \<and> term_fits w (file_term_of F t)"
proof -
  obtain hs where hs: "stored w h = Some hs" using hd by blast
  then have "hs = map ck_hash (slice i j chunks)" using clash x unfolding no_root_clash_def by blast
  moreover have "unat (of_nat (j - i) :: u32) = j - i"
    using ij(3) by (simp add: MAX_XORB_CHUNKS_def unat_of_nat_u32 del: of_nat_diff)
  ultimately show ?thesis
    unfolding term_hashes_def term_fits_def file_term_of_def t
    using hs hex_law [OF w] ij(1,2) by (simp add: word_less_nat_alt length_slice slice_def del: of_nat_diff)
qed

lemma walk_terms:
  assumes w: "ready w"
    and right: "list_all2 (\<lambda>ch loc. right_loc w (ck_hash ch) loc) chunks locs"
  shows "walk F chunks locs i ts \<Longrightarrow>
     i \<le> length chunks \<and> (\<exists>rts. ts = map json_of_register_term rts \<and> terms_from w chunks locs i rts)"
proof (induction rule: walk.induct)
  case finish
  then show ?case by (auto simp: terms_from_def intro: exI [of _ "[]"])
next
  case (known i j xh s ts)
  then obtain rts where rts: "ts = map json_of_register_term rts" "terms_from w chunks locs j rts" by blast
  let ?t = "\<lparr>rg_xorb = xh, rg_start = s, rg_end = s + of_nat (j - i), rg_unpacked_length = unpacked_len (slice i j chunks)\<rparr>"
  have "i < length chunks" "locs ! i \<noteq> None" using known.hyps(1,2,3) by auto
  then have nz: "\<not> (\<forall>k < length chunks. locs ! k = None)" by (intro notI) simp
  have "terms_from w chunks locs i (?t # rts)"
    by (rule terms_from_Cons [OF rts(2) known.hyps(1,2) notE [OF nz]]) (assumption, rule known_term [OF w known.hyps(1,2,3) right refl])
  then show ?case
    using rts(1) known.hyps(1,2) by (intro conjI exI [of _ "?t # rts"]) (auto simp: json_of_register_term_def)
next
  case (novel i j h b ts)
  then obtain rts where rts: "ts = map json_of_register_term rts" "terms_from w chunks locs j rts" by blast
  let ?t = "\<lparr>rg_xorb = hex F h, rg_start = 0, rg_end = of_nat (j - i), rg_unpacked_length = unpacked_len (slice i j chunks)\<rparr>"
  have u: "ucast (of_nat (j - i) :: u32) = (of_nat (j - i) :: u64)"
    using novel.hyps(4) by (simp add: MAX_XORB_CHUNKS_def ucast_of_nat_u32 del: of_nat_diff)
  have fit: "term_hashes w (file_term_of F ?t) = map ck_hash (slice i j chunks) \<and> term_fits w (file_term_of F ?t)"
    if "no_root_clash w chunks" "from_hex F (rg_xorb ?t) = Some x" "x \<in> dom (stored w)" for x
    by (rule novel_term [OF w novel.hyps(1,2,4,6) _ that(1) refl]) (use that(2,3) hex_law [OF w, of h] in simp)
  have "terms_from w chunks locs i (?t # rts)"
  proof (rule terms_from_Cons [OF rts(2) novel.hyps(1,2)])
    show "rg_start ?t = 0" by simp
  qed (rule fit)
  then show ?case
    using rts(1) novel.hyps(1,2) u
    by (intro conjI exI [of _ "?t # rts"]) (auto simp: json_of_register_term_def simp del: of_nat_diff)
qed

text \<open>When no stored chunk is one of the file, no location was found.\<close>

lemma fresh_locs:
  assumes "list_all2 (\<lambda>ch loc. right_loc w (ck_hash ch) loc) chunks locs"
    and "\<forall>ch \<in> set chunks. \<forall>x hs. stored w x = Some hs \<longrightarrow> ck_hash ch \<notin> set hs"
  shows "\<forall>k < length chunks. locs ! k = None"
proof (intro allI impI)
  fix k assume k: "k < length chunks"
  then have "right_loc w (ck_hash (chunks ! k)) (locs ! k)" using assms(1) by (auto simp: list_all2_conv_all_nth)
  then show "locs ! k = None" using assms(2) k nth_mem unfolding right_loc_def by (metis option.exhaust surj_pair)
qed

text \<open>What the registration of a file has to record: its terms name the chunks in order.\<close>

definition registered :: "'w \<Rightarrow> chunk list \<Rightarrow> 'w \<Rightarrow> file_record \<Rightarrow> bool" where
  "registered w chunks w' f \<longleftrightarrow>
     fr_total_size f = unpacked_len chunks \<and>
     (no_root_clash w' chunks \<longrightarrow>
        (\<forall>t \<in> set (fr_terms f). term_fits w' t) \<and> concat (map (term_hashes w') (fr_terms f)) = map ck_hash chunks) \<and>
     ((\<forall>ch \<in> set chunks. \<forall>x hs. stored w x = Some hs \<longrightarrow> ck_hash ch \<notin> set hs) \<longrightarrow> (\<forall>t \<in> set (fr_terms f). ft_start t = 0))"

text \<open>
  All or nothing: whatever happens on the way, an ingest leaves the file records and the catalog as they were or
  records the whole file. Its result says which, unless the link lost the answer.
\<close>

lemma ingest_outcome:
  assumes w: "ready w" and gen: "\<forall>ch \<in> set (next_block F b). genuine ch"
    and run: "ingest_bytes tok send ovf F base volume dest b w = (r, w')"
  shows "ready w' \<and> stored w \<subseteq>\<^sub>m stored w' \<and>
    (files w' = files w \<and> catalog w' = catalog w \<and> (\<forall>hh. r \<noteq> Ok hh) \<or>
     (\<exists>fh f. fh = file_hash F (map (\<lambda>c. (ck_hash c, of_nat (length (ck_data c)))) (next_block F b)) \<and>
        files w' = (files w)(fh \<mapsto> f) \<and> catalog w' = (catalog w)((volume, dest) \<mapsto> fh) \<and> registered w (next_block F b) w' f \<and>
        (r = Ok (hex F fh) \<or> lossy \<and> (\<forall>hh. r \<noteq> Ok hh))))"
  using run
proof (cases rule: ingest_stages)
  case (query r1)
  then show ?thesis using query_all_keeps [OF query(1) w] by simp
next
  case (pack locs w1 r2)
  then show ?thesis using query_all_keeps [OF pack(1) w] ingest_loop_grows [OF pack(2) _ gen] by simp
next
  case (register fh locs w1 terms w2 r3)
  let ?chunks = "next_block F b"
  note qa = query_all_keeps [OF register(2) w] and right = query_all_right [OF register(2) w]
  have w2: "ready w2" "stored w \<subseteq>\<^sub>m stored w2" "files w2 = files w" "catalog w2 = catalog w"
    using ingest_loop_grows [OF register(4) _ gen] qa by auto
  have right2: "list_all2 (\<lambda>ch loc. right_loc w2 (ck_hash ch) loc) ?chunks locs"
    by (rule list_all2_mono [OF right]) (use right_loc_mono w2(2) in blast)
  obtain rts where rts: "terms = map json_of_register_term rts" "terms_from w2 ?chunks locs 0 rts"
    using walk_terms [OF w2(1) right2 register(5)] by blast
  let ?f = "\<lparr>fr_total_size = unpacked_len ?chunks, fr_terms = map (file_term_of F) rts\<rparr>"
  have "send (auth tok (client_post (base @ files_path)
      (TxJson (register_json F fh (unpacked_len ?chunks) rts volume dest)))) w2 = (r3, w')"
    using register(6) by (simp add: register_json_def rts(1))
  note rl = register_law [OF w2(1) this]
  then have same: "stored w' = stored w2" by blast
  have reg: "registered w ?chunks w' ?f" if "\<forall>t \<in> set rts. \<exists>x. from_hex F (rg_xorb t) = Some x \<and> x \<in> dom (stored w2)"
    using rts(2) that fresh_locs [OF right]
    unfolding terms_from_def registered_def term_hashes_def term_fits_def no_root_clash_def same
    by (auto simp: comp_def file_term_of_def)
  have w': "ready w'" "stored w \<subseteq>\<^sub>m stored w'" using rl w2 same by simp_all
  have r: "(\<exists>tp. r3 = Ok tp \<and> is_success (tp_status tp)) \<and> r = Ok (hex F fh) \<or>
      (\<forall>tp. r3 = Ok tp \<longrightarrow> \<not> is_success (tp_status tp)) \<and> (\<forall>hh. r \<noteq> Ok hh)"
    using register(7) by (cases r3) simp_all
  from rl consider (no) "files w' = files w" "catalog w' = catalog w" "\<forall>tp. r3 = Ok tp \<longrightarrow> \<not> is_success (tp_status tp)"
    | (yes) "files w' = (files w)(fh \<mapsto> ?f)" "catalog w' = (catalog w)((volume, dest) \<mapsto> fh)" "registered w ?chunks w' ?f"
        "lossy \<or> (\<exists>tp. r3 = Ok tp \<and> is_success (tp_status tp))"
    using reg w2(3,4) by auto
  then show ?thesis
  proof cases
    case no
    then show ?thesis using w' r by blast
  next
    case yes
    have "r = Ok (hex F fh) \<or> lossy \<and> (\<forall>hh. r \<noteq> Ok hh)" using r yes(4) by blast
    then show ?thesis using w' yes(1-3) register(1) by blast
  qed
qed

text \<open>A successful ingest has registered the file under its hash and path.\<close>

lemma ingest_registers:
  assumes "ready w" and "\<forall>ch \<in> set (next_block F b). genuine ch"
    and "ingest_bytes tok send ovf F base volume dest b w = (Ok hh, w')"
  obtains fh f where "hh = hex F fh" "ready w'" "files w' = (files w)(fh \<mapsto> f)" "catalog w' = (catalog w)((volume, dest) \<mapsto> fh)"
    "registered w (next_block F b) w' f"
  using ingest_outcome [OF assms] by auto

end

section \<open>The HTTP server fulfils it\<close>

text \<open>
  Documented behaviour of the fork's packer: a chunk carries the hash of its data, and the serialized form of
  such chunks passes the integrity gate under its own name with their hashes in the footer.
\<close>

definition genuine :: "fork \<Rightarrow> chunk \<Rightarrow> bool" where
  "genuine F ch \<longleftrightarrow> ck_hash ch = compute_data_hash F (ck_data ch)"

definition serialize_ok :: "fork \<Rightarrow> bool" where
  "serialize_ok F \<longleftrightarrow>
     (\<forall>cs h b. cs \<noteq> [] \<and> (\<forall>ch \<in> set cs. genuine F ch) \<and> from_xorb F cs = Ok (h, b) \<longrightarrow>
        (\<exists>info. validate_xorb_object F b h = Ok (Some info) \<and> xi_chunk_hashes info = map ck_hash cs))"

text \<open>The chunk hashes of a stored object, as its footer lists them.\<close>

definition stored_hashes :: "fork \<Rightarrow> local_fs_blob_store \<Rightarrow> fs app_state \<Rightarrow> hash \<Rightarrow> hash list option" where
  "stored_hashes F c st x =
     (case objects F c st x of
        None \<Rightarrow> None
      | Some b \<Rightarrow> (case validate_xorb_object F b x of Ok (Some info) \<Rightarrow> Some (xi_chunk_hashes info) | _ \<Rightarrow> None))"

definition online ::
  "bool \<Rightarrow> (string \<Rightarrow> string option) \<Rightarrow> axum \<Rightarrow> bool \<Rightarrow> fork \<Rightarrow> local_fs_blob_store \<Rightarrow> bool \<Rightarrow> string
     \<Rightarrow> (tx_req \<Rightarrow> fs app_state \<Rightarrow> tx_resp res \<times> fs app_state) \<Rightarrow> string option \<Rightarrow> fs app_state \<Rightarrow> bool" where
  "online lossy to_str AX ovf F c hooks base send tok st \<longleftrightarrow>
     connected lossy to_str AX ovf F c hooks base send \<and> serialize_ok F \<and> running to_str ovf F c tok st"

lemma stored_hashes_Some:
  "stored_hashes F c st x = Some hs \<longleftrightarrow>
     (\<exists>b info. objects F c st x = Some b \<and> validate_xorb_object F b x = Ok (Some info) \<and> hs = xi_chunk_hashes info)"
  by (auto simp: stored_hashes_def split: option.splits res.splits)

lemma stored_hashes_cong: "as_blob st' = as_blob st \<Longrightarrow> stored_hashes F c st' = stored_hashes F c st"
  by (simp add: stored_hashes_def fun_eq_iff)

lemma online_indexed:
  assumes "online lossy to_str AX ovf F c hooks base send tok st" "x \<in> dom (hm_get (ix_xorbs (as_index st)))"
  shows "x \<in> dom (stored_hashes F c st)"
proof -
  have "served to_str ovf F c st" "validate_wf F"
    using assms(1) by (auto simp: online_def connected_def running_def)
  note agr = served_facts(4) [OF this]
  obtain m where "hm_get (ix_xorbs (as_index st)) x = Some m" using assms(2) by blast
  then have "xorb_agrees F (objects F c st) x m" using agr by (simp add: index_agrees_def)
  then show ?thesis using stored_hashes_Some by (fastforce simp: xorb_agrees_def)
qed

interpretation cas: cas_service lossy tok send F base "online lossy to_str AX ovf F c hooks base send tok"
    "stored_hashes F c" "\<lambda>st. hm_get (ix_files (as_index st))" "\<lambda>st. hm_get (ix_catalog (as_index st))" "genuine F"
  for tok send F base lossy to_str AX ovf c hooks
proof unfold_locales
  fix w h
  assume "online lossy to_str AX ovf F c hooks base send tok w"
  then show "from_hex F (hex F h) = Some h" by (auto simp: online_def connected_def hex_roundtrip)
next
  fix w x hs
  assume on: "online lossy to_str AX ovf F c hooks base send tok w" and "stored_hashes F c w x = Some hs"
  then obtain b info where "validate_xorb_object F b x = Ok (Some info)" "hs = xi_chunk_hashes info"
    by (auto simp: stored_hashes_Some)
  moreover have "validate_wf F" using on by (simp add: online_def connected_def)
  ultimately show "length hs < 2 ^ 32"
    using info_wf_lengths(3) [OF valid_xorb_info_wf] unat_u32_less by metis
next
  fix w h rq w'
  assume on: "online lossy to_str AX ovf F c hooks base send tok w" and q: "query_chunk tok send base (hex F h) w = (rq, w')"
  then have con: "connected lossy to_str AX ovf F c hooks base send" and run: "running to_str ovf F c tok w" by (auto simp: online_def)
  note wq = wire_query [OF con run q]
  have agr: "index_agrees F (objects F c w) (as_index w)"
    using served_facts(4) [OF runningD(1) [OF run] connectedD(4) [OF con]] .
  have "\<exists>x hs. xh = hex F x \<and> stored_hashes F c w x = Some hs \<and> unat i < length hs \<and> hs ! unat i = h"
    if hit: "rq = Ok (Some (xh, i))" for xh i
  proof -
    from wq hit obtain l where l: "hm_get (ix_chunk_index (as_index w)) h = Some l" "xh = hex F (cl_xorb l)" "i = cl_index l"
      by (cases "hm_get (ix_chunk_index (as_index w)) h") auto
    then have "loc_agrees F (objects F c w) h l" using agr by (simp add: index_agrees_def)
    then show ?thesis using l(2,3) by (auto simp: loc_agrees_def stored_hashes_Some)
  qed
  then show "online lossy to_str AX ovf F c hooks base send tok w' \<and> stored_hashes F c w' = stored_hashes F c w \<and>
      hm_get (ix_files (as_index w')) = hm_get (ix_files (as_index w)) \<and> hm_get (ix_catalog (as_index w')) = hm_get (ix_catalog (as_index w)) \<and>
      (\<forall>xh i. rq = Ok (Some (xh, i)) \<longrightarrow> (\<exists>x hs. xh = hex F x \<and> stored_hashes F c w x = Some hs \<and> unat i < length hs \<and> hs ! unat i = h))"
    using wq on stored_hashes_cong [of w' w F c] by (auto simp: online_def)
next
  fix w cs h b ru w'
  assume on: "online lossy to_str AX ovf F c hooks base send tok w" and cs: "cs \<noteq> []" "\<forall>ch \<in> set cs. genuine F ch" "from_xorb F cs = Ok (h, b)"
    and up: "upload_xorb tok send base (hex F h) b w = (ru, w')"
  then have con: "connected lossy to_str AX ovf F c hooks base send" and run: "running to_str ovf F c tok w" by (auto simp: online_def)
  obtain info where gate: "validate_xorb_object F b h = Ok (Some info)" using on cs unfolding online_def serialize_ok_def by blast
  note wu = wire_upload [OF con run gate up]
  have "stored_hashes F c w \<subseteq>\<^sub>m stored_hashes F c w'"
    unfolding map_le_def using wu by (auto simp: stored_hashes_def split: if_splits)
  then show "online lossy to_str AX ovf F c hooks base send tok w' \<and> stored_hashes F c w \<subseteq>\<^sub>m stored_hashes F c w' \<and>
      hm_get (ix_files (as_index w')) = hm_get (ix_files (as_index w)) \<and> hm_get (ix_catalog (as_index w')) = hm_get (ix_catalog (as_index w))"
    using wu on by (simp add: online_def)
next
  fix w fh n ts v p r w'
  assume on: "online lossy to_str AX ovf F c hooks base send tok w"
    and s: "send (auth tok (client_post (base @ files_path) (TxJson (register_json F fh n ts v p)))) w = (r, w')"
  then have con: "connected lossy to_str AX ovf F c hooks base send" and run: "running to_str ovf F c tok w" by (auto simp: online_def)
  note wr = wire_register [OF con run s]
  have dom: "\<exists>x. from_hex F (rg_xorb t) = Some x \<and> x \<in> dom (stored_hashes F c w)" if "registrable F (as_index w) t" for t
    using that online_indexed [OF on] unfolding registrable_def by blast
  have "online lossy to_str AX ovf F c hooks base send tok w'" "stored_hashes F c w' = stored_hashes F c w"
    using wr on stored_hashes_cong [of w' w F c] by (simp_all add: online_def)
  then show "online lossy to_str AX ovf F c hooks base send tok w' \<and> stored_hashes F c w' = stored_hashes F c w \<and>
      (hm_get (ix_files (as_index w')) = hm_get (ix_files (as_index w)) \<and> hm_get (ix_catalog (as_index w')) = hm_get (ix_catalog (as_index w)) \<and>
        (\<forall>tp. r = Ok tp \<longrightarrow> \<not> is_success (tp_status tp)) \<or>
       hm_get (ix_files (as_index w')) = (hm_get (ix_files (as_index w)))(fh \<mapsto> \<lparr>fr_total_size = n, fr_terms = map (file_term_of F) ts\<rparr>) \<and>
       hm_get (ix_catalog (as_index w')) = (hm_get (ix_catalog (as_index w)))((v, p) \<mapsto> fh) \<and>
       (\<forall>t \<in> set ts. \<exists>x. from_hex F (rg_xorb t) = Some x \<and> x \<in> dom (stored_hashes F c w)) \<and>
       (lossy \<or> (\<exists>tp. r = Ok tp \<and> is_success (tp_status tp))))"
    using wr dom by auto
qed

end
