(* ===== verification/Fetch.thy ===== *)
theory Fetch
  imports Cas_Service
begin

text \<open>
  The agent's reconstruction against the server: what its range requests return, which chunks it decodes from them,
  and hence the bytes it delivers for a registered file.
\<close>

section \<open>Layout of a serialized xorb\<close>

text \<open>The bytes of the chunks \<open>[s, e)\<close> of a serialized xorb with these boundaries.\<close>

definition segment :: "bytes \<Rightarrow> u32 list \<Rightarrow> nat \<Rightarrow> nat \<Rightarrow> bytes" where
  "segment b offs s e = take (chunk_start offs e - chunk_start offs s) (drop (chunk_start offs s) b)"

text \<open>
  Documented behaviour of the fork: in an object that passes the gate every chunk is stored with a header that delimits it,
  so that it can be decoded from the front of any buffer, and its data has the hash that the footer lists.
\<close>

definition layout_ok :: "fork \<Rightarrow> bool" where
  "layout_ok F \<longleftrightarrow>
     (\<forall>b x info i. validate_xorb_object F b x = Ok (Some info) \<and> i < length (xi_chunk_hashes info) \<longrightarrow>
        (\<exists>d. compute_data_hash F d = xi_chunk_hashes info ! i \<and>
           (\<forall>rest. deserialize_chunk F (segment b (xi_chunk_boundary_offsets info) i (Suc i) @ rest) = Ok (d, rest))))"

text \<open>The data of chunk \<open>i\<close>, and of a run of chunks.\<close>

definition chunk_bytes :: "fork \<Rightarrow> bytes \<Rightarrow> u32 list \<Rightarrow> nat \<Rightarrow> bytes" where
  "chunk_bytes F b offs i = (case deserialize_chunk F (segment b offs i (Suc i)) of Ok (d, _) \<Rightarrow> d | _ \<Rightarrow> [])"

definition chunk_run :: "fork \<Rightarrow> local_fs_blob_store \<Rightarrow> fs app_state \<Rightarrow> hash \<Rightarrow> nat \<Rightarrow> nat \<Rightarrow> bytes" where
  "chunk_run F c st x i n =
     (case (objects F c st x, hm_get (ix_xorbs (as_index st)) x) of
        (Some b, Some m) \<Rightarrow> concat (map (chunk_bytes F b (xm_boundary_offsets m)) [i..<i + n])
      | _ \<Rightarrow> [])"

lemma chunk_bytes_decode:
  assumes "layout_ok F" "validate_xorb_object F b x = Ok (Some info)" "i < length (xi_chunk_hashes info)"
  shows "deserialize_chunk F (segment b (xi_chunk_boundary_offsets info) i (Suc i) @ rest) =
      Ok (chunk_bytes F b (xi_chunk_boundary_offsets info) i, rest)"
    and "compute_data_hash F (chunk_bytes F b (xi_chunk_boundary_offsets info) i) = xi_chunk_hashes info ! i"
proof -
  obtain d where d: "compute_data_hash F d = xi_chunk_hashes info ! i"
      "\<And>rest. deserialize_chunk F (segment b (xi_chunk_boundary_offsets info) i (Suc i) @ rest) = Ok (d, rest)"
    using assms unfolding layout_ok_def by blast
  have "chunk_bytes F b (xi_chunk_boundary_offsets info) i = d" using d(2) [of "[]"] by (simp add: chunk_bytes_def)
  with d show "deserialize_chunk F (segment b (xi_chunk_boundary_offsets info) i (Suc i) @ rest) =
      Ok (chunk_bytes F b (xi_chunk_boundary_offsets info) i, rest)"
    "compute_data_hash F (chunk_bytes F b (xi_chunk_boundary_offsets info) i) = xi_chunk_hashes info ! i" by simp_all
qed

lemma chunk_start_mono:
  assumes wf: "info_wf info n" and "i \<le> j" "j \<le> length (xi_chunk_hashes info)"
  shows "chunk_start (xi_chunk_boundary_offsets info) i \<le> chunk_start (xi_chunk_boundary_offsets info) j"
  using assms(2,3)
proof (induction j)
  case (Suc j)
  have "chunk_start (xi_chunk_boundary_offsets info) j < unat (xi_chunk_boundary_offsets info ! j)"
    using wf Suc.prems info_wf_lengths(1) [OF wf] unfolding info_wf_def by auto
  then show ?case using Suc by (cases "i = Suc j") (auto simp: chunk_start_def)
qed simp

lemma segment_append:
  assumes wf: "info_wf info n" and "i \<le> j" "j \<le> k" "k \<le> length (xi_chunk_hashes info)"
  shows "segment b (xi_chunk_boundary_offsets info) i j @ segment b (xi_chunk_boundary_offsets info) j k =
     segment b (xi_chunk_boundary_offsets info) i k"
proof -
  let ?p = "chunk_start (xi_chunk_boundary_offsets info)"
  have m: "?p i \<le> ?p j" "?p j \<le> ?p k"
    using chunk_start_mono [OF wf assms(2)] chunk_start_mono [OF wf assms(3,4)] assms(3,4) by auto
  then have "?p k - ?p i = (?p j - ?p i) + (?p k - ?p j)" "drop (?p j) b = drop (?p j - ?p i) (drop (?p i) b)" by simp_all
  then show ?thesis unfolding segment_def by (simp only: take_add)
qed

lemma decode_run:
  assumes "layout_ok F" "validate_xorb_object F b x = Ok (Some info)" and wf: "info_wf info (length b)"
    and "i + n \<le> length (xi_chunk_hashes info)"
  shows "decode_chunks F n (segment b (xi_chunk_boundary_offsets info) i (i + n) @ rest) =
     Ok (concat (map (chunk_bytes F b (xi_chunk_boundary_offsets info)) [i..<i + n]))"
  using assms(4)
proof (induction n arbitrary: i)
  case (Suc n)
  let ?o = "xi_chunk_boundary_offsets info"
  have "segment b ?o i (i + Suc n) @ rest = segment b ?o i (Suc i) @ segment b ?o (Suc i) (Suc i + n) @ rest"
    using segment_append [OF wf, of i "Suc i" "i + Suc n" b] Suc.prems by simp
  moreover have "[i..<i + Suc n] = i # [Suc i..<Suc i + n]" by (simp add: upt_conv_Cons del: upt_Suc)
  ultimately show ?case
    using chunk_bytes_decode(1) [OF assms(1,2), of i] Suc.IH [of "Suc i"] Suc.prems by (simp del: upt_Suc)
qed simp

section \<open>One range request\<close>

lemma xorb_data_value:
  assumes "hex_ok F" "local_fs_healthy (as_blob st)" "objects F c st h = Some b"
    and rng: "parse_range to_str rng (of_nat (length b)) = Some (i, j)"
  obtains resp where "xorb_data to_str F (local_fs_ops ovf F c) (hex F h) rng st = (Ok resp, st\<lparr>as_blob := fs_tick (fs_tick (as_blob st))\<rparr>)"
    "rs_status resp = 206" "rs_body resp = Raw (byte_range b i j)"
proof -
  have "local_fs_contents F c (fs_tick (as_blob st)) h = Some b" using assms(1,3) by simp
  from local_fs_get_healthy [OF assms(1) healthy_tick [OF assms(2)] this parse_range_below_max [OF rng]]
  show thesis
    using assms that by (simp add: xorb_data_def local_fs_ops_def local_fs_head_healthy hex_roundtrip)
qed

lemma show_u64_visible: "visible (show_u64 n)"
  unfolding visible_def list_all_iff
proof
  fix ch assume "ch \<in> set (show_u64 n)"
  then have "digit_val ch \<noteq> None" by (rule show_u64_digits)
  then show "32 \<le> (of_char ch :: nat) \<and> (of_char ch :: nat) < 127" by (auto simp: digit_val_def Let_def split: if_splits)
qed

text \<open>The state of the service as far as reading is concerned.\<close>

abbreviation same_content :: "fork \<Rightarrow> local_fs_blob_store \<Rightarrow> fs app_state \<Rightarrow> fs app_state \<Rightarrow> bool" where
  "same_content F c st st' \<equiv> as_index st' = as_index st \<and> objects F c st' = objects F c st"

lemma wire_data:
  assumes con: "connected False to_str AX ovf F c hooks base send" and st: "running to_str ovf F c tok st"
    and b: "objects F c st x = Some b" and bs: "bs \<le> be" "unat be < length b"
  obtains tp st' where
    "send (auth tok (add_header ''range'' (''bytes='' @ show_u64 bs @ ''-'' @ show_u64 be) (client_get (base @ data_path (hex F x))))) st = (Ok tp, st')"
    "tp_bytes tp = Ok (byte_range b bs be)" "running to_str ovf F c tok st'" "same_content F c st st'"
proof -
  note con' = connectedD [OF con] and sv = runningD [OF st] and f = served_facts [OF runningD(1) [OF st] connectedD(4) [OF con]]
  let ?h = "''bytes='' @ show_u64 bs @ ''-'' @ show_u64 be"
  let ?q = "add_header ''range'' ?h (client_get (base @ data_path (hex F x)))"
  have len: "blob_len_ok b" using f(1) b by (rule lfs.contents_len)
  then have n: "unat (of_nat (length b) :: u64) = length b" by (intro unat_of_nat_u64) simp
  have "visible ?h" using show_u64_visible by (simp add: visible_def)
  then have h: "to_str ?h = Some ?h" using con'(3) unfolding to_str_ok_def by blast
  have lt: "bs < of_nat (length b)" "min be (saturating_sub (of_nat (length b)) 1) = be"
  proof -
    show "bs < of_nat (length b)" using bs n by (simp add: word_less_nat_alt word_le_nat_alt)
    then have "0 < (of_nat (length b) :: u64)" using order_le_less_trans word_zero_le by blast
    then have "saturating_sub (of_nat (length b)) 1 = (of_nat (length b) :: u64) - 1" "unat ((of_nat (length b) :: u64) - 1) = length b - 1"
      using saturating_sub_one unat_pred [of "of_nat (length b) :: u64"] n by auto
    moreover have "unat be \<le> length b - 1" using bs(2) by simp
    ultimately show "min be (saturating_sub (of_nat (length b)) 1) = be" by (simp add: min_def word_le_nat_alt)
  qed
  have rng: "parse_range to_str (Some ?h) (of_nat (length b)) = Some (bs, be)"
    using parse_range_header [of to_str ?h bs be "of_nat (length b)"] h bs(1) lt by simp
  obtain resp where xd: "xorb_data to_str F (local_fs_ops ovf F c) (hex F x) (Some ?h) st =
      (Ok resp, st\<lparr>as_blob := fs_tick (fs_tick (as_blob st))\<rparr>)" "rs_status resp = 206" "rs_body resp = Raw (byte_range b bs be)"
    by (rule xorb_data_value [OF con'(5) f(2) b rng])
  obtain r st' where s: "send (auth tok ?q) st = (r, st')" by fastforce
  let ?st1 = "st\<lparr>as_blob := fs_tick (fs_tick (as_blob st))\<rparr>"
  have disp: "dispatch AX hooks req = Inr (CXorbData (hex F x) (Some ?h))" if "arrives AX (auth tok ?q) (data_path (hex F x)) req" for req
    using arrives_dispatch(4) [OF con'(1,5) that, of hooks] by simp
  have "(\<exists>rs tp. Ok resp = Ok rs \<and> r = Ok tp \<and> resp_matches rs tp \<and> st' = ?st1) \<or>
      (\<exists>e. r = Err e) \<and> ((\<forall>rs. Ok resp \<noteq> Ok rs) \<and> st' = ?st1 \<or> False \<and> st' \<in> {st, ?st1})"
    by (rule wire_call [OF con st _ _ _ path_slash(4) path_plain(4) [OF con'(5)] disp _ s]) (use xd in auto)
  then obtain tp where tp: "r = Ok tp" "tp_bytes tp = Ok (byte_range b bs be)" "st' = ?st1"
    using xd(3) by (auto simp: resp_matches_def)
  have "running to_str ovf F c tok ?st1"
    by (rule running_step [OF st, of "CXorbData (hex F x) (Some ?h)" "Ok resp"]) (use xd(1) served_np [OF sv(1)] in auto)
  moreover have "objects F c ?st1 = objects F c st" using con'(5) by (simp add: fun_eq_iff)
  ultimately show thesis using that [OF s [unfolded tp(1)]] tp by simp
qed

section \<open>One term\<close>

text \<open>The term whose byte span the agent fetches for \<open>t\<close>: the first one of the same xorb that covers it.\<close>

definition fetched_from :: "file_term list \<Rightarrow> file_term \<Rightarrow> file_term" where
  "fetched_from ts t =
     (case find (\<lambda>u. ft_xorb u = ft_xorb t \<and> ft_start u \<le> ft_start t \<and> ft_end t \<le> ft_end u) ts of Some u \<Rightarrow> u | None \<Rightarrow> t)"

text \<open>The bytes that the agent takes for \<open>t\<close>: as many chunks as it has, from the start of the fetched span.\<close>

definition term_output :: "fork \<Rightarrow> local_fs_blob_store \<Rightarrow> fs app_state \<Rightarrow> file_term list \<Rightarrow> file_term \<Rightarrow> bytes" where
  "term_output F c st ts t =
     chunk_run F c st (ft_xorb t) (unat (ft_start (fetched_from ts t))) (unat (ft_end t) - unat (ft_start t))"

lemma find_map_filter: "find P (map f (filter Q xs)) = map_option f (find (\<lambda>x. Q x \<and> P (f x)) xs)"
  by (induction xs) auto

lemma fetched_from_spec:
  assumes "t \<in> set ts"
  defines "u \<equiv> fetched_from ts t"
  shows "find (\<lambda>u. ft_xorb u = ft_xorb t \<and> ft_start u \<le> ft_start t \<and> ft_end t \<le> ft_end u) ts = Some u"
    and "u \<in> set ts" "ft_xorb u = ft_xorb t" "ft_start u \<le> ft_start t" "ft_end t \<le> ft_end u"
proof -
  let ?P = "\<lambda>u. ft_xorb u = ft_xorb t \<and> ft_start u \<le> ft_start t \<and> ft_end t \<le> ft_end u"
  have "find ?P ts \<noteq> None" using assms(1) by (auto simp: find_None_iff)
  then show f: "find ?P ts = Some u" by (auto simp: u_def fetched_from_def)
  then show "u \<in> set ts" "ft_xorb u = ft_xorb t" "ft_start u \<le> ft_start t" "ft_end t \<le> ft_end u"
    by (auto simp: find_Some_iff)
qed

definition fetch_info_json :: "(string, fetch_info list) hashmap \<Rightarrow> json" where
  "fetch_info_json fi = JObj (map (\<lambda>(k, es). (k, JArr (map json_of_fetch_info es))) fi)"

lemma fetch_info_get:
  "entries_of fi k \<noteq> [] \<Longrightarrow> jget (fetch_info_json fi) k = JArr (map json_of_fetch_info (entries_of fi k))"
  by (auto simp: fetch_info_json_def map_of_map entries_of_def split: option.splits)

lemma covers_entry: "covers s e (json_of_fetch_info x) \<longleftrightarrow> cr_start (fi_range x) \<le> s \<and> e \<le> cr_end (fi_range x)"
  by (simp add: covers_def json_of_fetch_info_def json_of_chunk_range_def)

lemma entry_gets:
  "jget (json_of_fetch_info x) ''url'' = JStr (fi_url x)"
  "jget (jget (json_of_fetch_info x) ''url_range'') ''start'' = JNum (br_start (fi_url_range x))"
  "jget (jget (json_of_fetch_info x) ''url_range'') ''end'' = JNum (br_end (fi_url_range x))"
  "jget (json_of_recon_term y) ''hash'' = JStr (rt_hash y)"
  "jget (jget (json_of_recon_term y) ''range'') ''start'' = JNum (ucast (cr_start (rt_range y)))"
  "jget (jget (json_of_recon_term y) ''range'') ''end'' = JNum (ucast (cr_end (rt_range y)))"
  by (simp_all add: json_of_fetch_info_def json_of_byte_span_def json_of_recon_term_def json_of_chunk_range_def)

lemma span_segment:
  assumes wf: "info_wf info (length b)" and x: "hm_get xorbs (ft_xorb u) = Some (from_info info)"
    and r: "term_in_range xorbs u" "ft_start u < ft_end u"
  shows "byte_range b (br_start (term_span xorbs u)) (br_end (term_span xorbs u)) =
     segment b (xi_chunk_boundary_offsets info) (unat (ft_start u)) (unat (ft_end u))"
proof -
  let ?o = "xi_chunk_boundary_offsets info"
  have e: "0 < unat (ft_end u)" "unat (ft_end u) - 1 < length ?o"
    using r x by (auto simp: term_in_range_def from_info_def word_less_nat_alt)
  define p q where "p = chunk_start ?o (unat (ft_start u))" and "q = unat (?o ! (unat (ft_end u) - 1))"
  have "p < 2 ^ 64" "q < 2 ^ 64"
    using unat_u32_less by (fastforce simp: p_def q_def chunk_start_def intro: order_less_trans)+
  moreover have "0 < q" using wf e(2) unfolding info_wf_def q_def by (metis gr_zeroI not_less_zero)
  ultimately have "unat (of_nat p :: u64) = p" "Suc (unat (of_nat (q - 1) :: u64)) = q"
    by (simp_all add: unat_of_nat_u64 del: of_nat_diff)
  moreover have "br_start (term_span xorbs u) = of_nat p" "br_end (term_span xorbs u) = of_nat (q - 1)"
    by (simp_all add: term_span_def Let_def x from_info_def p_def q_def del: of_nat_diff)
  moreover have "chunk_start ?o (unat (ft_end u)) = q" using e(1) by (simp add: chunk_start_def q_def)
  ultimately show ?thesis unfolding byte_range_def segment_def p_def [symmetric] by (simp only:)
qed

lemma fetch_term_value:
  assumes con: "connected False to_str AX ovf F c hooks base send" and st: "running to_str ovf F c tok st" and lay: "layout_ok F"
    and ts: "\<forall>u \<in> set ts. term_in_range (ix_xorbs (as_index st)) u \<and> ft_start u < ft_end u" and t: "t \<in> set ts"
    and fi: "\<And>x. entries_of fi (hex F x) = map (fetch_out F c (ix_xorbs (as_index st))) (filter (\<lambda>u. ft_xorb u = x) ts)"
  obtains st' where
    "fetch_term tok send F (fetch_info_json fi) (json_of_recon_term (term_out F t)) st = (Ok (term_output F c st ts t), st')"
    "running to_str ovf F c tok st'" "same_content F c st st'"
proof -
  let ?xorbs = "ix_xorbs (as_index st)" and ?x = "ft_xorb t"
  define u where "u = fetched_from ts t"
  note con' = connectedD [OF con] and f = served_facts [OF runningD(1) [OF st] connectedD(4) [OF con]]
  note u = fetched_from_spec [OF t, folded u_def]
  have ru: "term_in_range ?xorbs u" "ft_start u < ft_end u" using ts u(2) by auto
  obtain m where m: "hm_get ?xorbs ?x = Some m" using ru(1) u(3) by (auto simp: term_in_range_def split: option.splits)
  obtain b info where b: "objects F c st ?x = Some b" "validate_xorb_object F b ?x = Ok (Some info)" "m = from_info info"
      and wf: "info_wf info (length b)"
    by (rule agrees_footer [OF f(4) con'(4) m])
  let ?o = "xi_chunk_boundary_offsets info"
  let ?sp = "term_span ?xorbs u"
  have sp: "br_start ?sp \<le> br_end ?sp" "unat (br_end ?sp) < length b"
    using term_span_inside [OF f(4) con'(4) ru] b(1) u(3) by (auto simp: word_le_nat_alt)
  obtain tp st' where s: "send (auth tok (add_header ''range'' (''bytes='' @ show_u64 (br_start ?sp) @ ''-'' @ show_u64 (br_end ?sp))
      (client_get (base @ data_path (hex F ?x))))) st = (Ok tp, st')" "tp_bytes tp = Ok (byte_range b (br_start ?sp) (br_end ?sp))"
      "running to_str ovf F c tok st'" "same_content F c st st'"
    by (rule wire_data [OF con st b(1) sp])
  have "find (covers (ft_start t) (ft_end t)) (map json_of_fetch_info (entries_of fi (hex F ?x))) = Some (json_of_fetch_info (fetch_out F c ?xorbs u))"
    unfolding fi map_map find_map_filter using u(1) by (simp add: covers_entry fetch_out_def)
  moreover have "entries_of fi (hex F ?x) \<noteq> []" using t by (auto simp: fi filter_empty_conv)
  moreover have url: "fi_url (fetch_out F c ?xorbs u) = base @ data_path (hex F ?x)" "fi_url_range (fetch_out F c ?xorbs u) = ?sp"
    using u(3) con'(6) by (simp_all add: fetch_out_def data_path_def)
  moreover have "decode_chunks F (unat (ft_end t) - unat (ft_start t)) (byte_range b (br_start ?sp) (br_end ?sp)) = Ok (term_output F c st ts t)"
  proof -
    define n where "n = unat (ft_end t) - unat (ft_start t)"
    have le: "unat (ft_start u) + n \<le> unat (ft_end u)" "unat (ft_end u) \<le> length (xi_chunk_hashes info)"
      using u(4,5) ts t ru m b(3) u(3) info_wf_lengths(1) [OF wf]
      by (auto simp: n_def word_le_nat_alt word_less_nat_alt term_in_range_def from_info_def)
    have "byte_range b (br_start ?sp) (br_end ?sp) =
        segment b ?o (unat (ft_start u)) (unat (ft_start u) + n) @ segment b ?o (unat (ft_start u) + n) (unat (ft_end u))"
      using span_segment [OF wf _ ru] m b(3) u(3) segment_append [OF wf _ le] by simp
    then show ?thesis
      using decode_run [OF lay b(2) wf, of "unat (ft_start u)" n] le m b(1,3)
      by (simp add: term_output_def chunk_run_def from_info_def flip: u_def n_def)
  qed
  ultimately have "fetch_term tok send F (fetch_info_json fi) (json_of_recon_term (term_out F t)) st = (Ok (term_output F c st ts t), st')"
    using s(1,2) by (simp add: fetch_term_def entry_gets term_out_def fetch_info_get)
  then show thesis using that s(3,4) by blast
qed

section \<open>A whole file\<close>

lemma term_output_cong: "same_content F c st st' \<Longrightarrow> term_output F c st' ts = term_output F c st ts"
  by (simp add: fun_eq_iff term_output_def chunk_run_def)

lemma fetch_terms_value:
  assumes con: "connected False to_str AX ovf F c hooks base send" and lay: "layout_ok F"
  shows "running to_str ovf F c tok st \<Longrightarrow>
     \<forall>u \<in> set ts. term_in_range (ix_xorbs (as_index st)) u \<and> ft_start u < ft_end u \<Longrightarrow> set ts' \<subseteq> set ts \<Longrightarrow>
     (\<And>x. entries_of fi (hex F x) = map (fetch_out F c (ix_xorbs (as_index st))) (filter (\<lambda>u. ft_xorb u = x) ts)) \<Longrightarrow>
     \<exists>st'. fetch_terms tok send F (fetch_info_json fi) (map (\<lambda>t. json_of_recon_term (term_out F t)) ts') out st =
         (Ok (out @ concat (map (term_output F c st ts) ts')), st') \<and> running to_str ovf F c tok st' \<and> same_content F c st st'"
proof (induction ts' arbitrary: out st)
  case (Cons t ts')
  obtain st1 where st1: "fetch_term tok send F (fetch_info_json fi) (json_of_recon_term (term_out F t)) st = (Ok (term_output F c st ts t), st1)"
      "running to_str ovf F c tok st1" "same_content F c st st1"
    by (rule fetch_term_value [OF con Cons.prems(1) lay Cons.prems(2) _ Cons.prems(4)]) (use Cons.prems(3) in auto)
  obtain st' where "fetch_terms tok send F (fetch_info_json fi) (map (\<lambda>t. json_of_recon_term (term_out F t)) ts') (out @ term_output F c st ts t) st1 =
      (Ok ((out @ term_output F c st ts t) @ concat (map (term_output F c st1 ts) ts')), st')"
      "running to_str ovf F c tok st'" "same_content F c st1 st'"
    using Cons.IH [OF st1(2), of "out @ term_output F c st ts t"] Cons.prems st1(3) by auto
  then show ?case using st1 term_output_cong [OF st1(3), of ts] by auto
qed simp

lemma agent_reconstruct_value:
  assumes con: "connected False to_str AX ovf F c hooks base send" and st: "running to_str ovf F c tok st" and lay: "layout_ok F"
    and f: "hm_get (ix_files (as_index st)) fh = Some f"
    and ts: "\<forall>u \<in> set (fr_terms f). term_in_range (ix_xorbs (as_index st)) u \<and> ft_start u < ft_end u"
  obtains st' where
    "agent_reconstruct tok send F base (hex F fh) st = (Ok (concat (map (term_output F c st (fr_terms f)) (fr_terms f))), st')"
    "running to_str ovf F c tok st'" "same_content F c st st'"
proof -
  note con' = connectedD [OF con] and sv = runningD [OF st]
  define fi where "fi = fold (push_resolved F c) (map (resolved_out (ix_xorbs (as_index st))) (fr_terms f)) []"
  define recon where "recon = json_of_recon_response \<lparr>rr_offset_into_first_range = 0, rr_terms = map (term_out F) (fr_terms f), rr_fetch_info = fi\<rparr>"
  have rr: "reconstruct ovf F (local_fs_ops ovf F c) (hex F fh) st = (Ok (ok_json recon), st)"
    and ent: "entries_of fi (hex F x) = map (fetch_out F c (ix_xorbs (as_index st))) (filter (\<lambda>t. ft_xorb t = x) (fr_terms f))" for x
    using reconstruct_registered [OF sv(1) con'(4) hex_roundtrip [OF con'(5)] f] ts by (auto simp: fi_def recon_def)
  let ?q = "client_get (base @ recon_path (hex F fh))"
  obtain r st1 where s: "send (auth tok ?q) st = (r, st1)" by fastforce
  have "(\<exists>rs tp. Ok (ok_json recon) = Ok rs \<and> r = Ok tp \<and> resp_matches rs tp \<and> st1 = st) \<or>
      (\<exists>e. r = Err e) \<and> ((\<forall>rs. Ok (ok_json recon) \<noteq> Ok rs) \<and> st1 = st \<or> False \<and> st1 \<in> {st, st})"
    by (rule wire_call [OF con st _ _ _ path_slash(1) path_plain(1) [OF con'(5)] arrives_dispatch(1) [OF con'(1,5)] _ s])
      (simp_all only: auth_simps client_simps, simp_all add: rr)
  then obtain tp where tp: "r = Ok tp" "tp_status tp = 200" "tp_json tp = Ok recon" "st1 = st" by (auto simp: resp_matches_def)
  have gets: "jget recon ''terms'' = JArr (map (\<lambda>t. json_of_recon_term (term_out F t)) (fr_terms f))"
      "jget recon ''fetch_info'' = fetch_info_json fi" "jget recon ''offset_into_first_range'' = JNum 0"
    by (simp_all add: recon_def json_of_recon_response_def fetch_info_json_def comp_def)
  obtain st' where "fetch_terms tok send F (fetch_info_json fi) (map (\<lambda>t. json_of_recon_term (term_out F t)) (fr_terms f)) [] st =
         (Ok ([] @ concat (map (term_output F c st (fr_terms f)) (fr_terms f))), st')" "running to_str ovf F c tok st'" "same_content F c st st'"
    using fetch_terms_value [OF con lay st ts subset_refl, of fi "[]"] ent by blast
  then show thesis
    using that s tp gets by (simp add: agent_reconstruct_def recon_path_def is_success_def drain_offset_def)
qed

end
