(* ===== verification/Staging_Buffer.thy ===== *)
theory Staging_Buffer
  imports Prelude
begin

text \<open>
  The byte buffers of \<open>crates/xetfs/src/lib.rs\<close>: the slice that a read returns, the positional write and
  the resize of a staging buffer, against a specification of files as byte strings. The locale \<open>byte_buffer\<close>
  is what the callbacks rely on; it is interpreted on the operations of the code.
\<close>

section \<open>Operations\<close>

text \<open>\<open>usize::saturating_add\<close>, and the slice that a read of \<open>size\<close> bytes at \<open>off\<close> returns.\<close>

definition saturating_add :: "nat \<Rightarrow> nat \<Rightarrow> nat" where
  "saturating_add a b = min (a + b) (2 ^ 64 - 1)"

definition read_slice :: "bytes \<Rightarrow> nat \<Rightarrow> u32 \<Rightarrow> bytes" where
  "read_slice b off sz =
     (let start = min off (length b);
          stop = min (saturating_add start (unat sz)) (length b)
      in take (stop - start) (drop start b))"

text \<open>\<open>Vec::resize\<close> with zero bytes: a capacity above \<open>isize::MAX\<close> panics.\<close>

definition vec_resize :: "nat \<Rightarrow> bytes \<Rightarrow> bytes res" where
  "vec_resize n b = (if n < 2 ^ 63 then Ok (take n b @ replicate (n - length b) 0) else Panic)"

text \<open>
  The block of \<open>write\<close> that borrows the staging buffer: extend it to the end of the write, then
  \<open>copy_from_slice\<close>. The offset is at most \<open>i64::MAX\<close>, so that the end does not overflow \<open>usize\<close>.
\<close>

definition buf_write :: "nat \<Rightarrow> bytes \<Rightarrow> bytes \<Rightarrow> bytes res" where
  "buf_write off data b =
     (let stop = off + length data
      in bind_res (if length b < stop then vec_resize stop b else Ok b) (\<lambda>b1. Ok (take off b1 @ data @ drop stop b1)))"

section \<open>Specification\<close>

text \<open>The reference: a positional write into a byte string, with zero bytes for a gap.\<close>

definition pwrite :: "bytes \<Rightarrow> nat \<Rightarrow> bytes \<Rightarrow> bytes" where
  "pwrite b off d = map (\<lambda>k. if off \<le> k \<and> k < off + length d then d ! (k - off) else if k < length b then b ! k else 0)
     [0..<max (length b) (off + length d)]"

text \<open>The reference for a change of size: cut off, or pad with zero bytes.\<close>

definition ptruncate :: "bytes \<Rightarrow> nat \<Rightarrow> bytes" where
  "ptruncate b n = map (\<lambda>k. if k < length b then b ! k else 0) [0..<n]"

lemma length_pwrite [simp]: "length (pwrite b off d) = max (length b) (off + length d)"
  by (simp add: pwrite_def)

lemma length_ptruncate [simp]: "length (ptruncate b n) = n"
  by (simp add: ptruncate_def)

lemma nth_pwrite:
  "k < max (length b) (off + length d) \<Longrightarrow>
     pwrite b off d ! k = (if off \<le> k \<and> k < off + length d then d ! (k - off) else if k < length b then b ! k else 0)"
  by (simp add: pwrite_def)

lemma pwrite_window: "take (length d) (drop off (pwrite b off d)) = d"
  by (rule nth_equalityI) (auto simp: nth_pwrite)

lemma pwrite_before: "k \<le> off \<Longrightarrow> k \<le> length b \<Longrightarrow> take k (pwrite b off d) = take k b"
  by (rule nth_equalityI) (auto simp: nth_pwrite)

lemma pwrite_after: "drop (off + length d) (pwrite b off d) = drop (off + length d) b"
  by (rule nth_equalityI) (auto simp: nth_pwrite)

lemma pwrite_pwrite: "length d = length e \<Longrightarrow> pwrite (pwrite b off d) off e = pwrite b off e"
  by (rule nth_equalityI) (auto simp: nth_pwrite)

lemma pwrite_commute:
  "off + length d \<le> off' \<Longrightarrow> pwrite (pwrite b off d) off' e = pwrite (pwrite b off' e) off d"
  by (rule nth_equalityI) (auto simp: nth_pwrite)

text \<open>Writing a byte string in order of its pieces, each at the end of the previous one.\<close>

fun pwrites :: "nat \<Rightarrow> bytes list \<Rightarrow> bytes \<Rightarrow> bytes" where
  "pwrites off [] b = b"
| "pwrites off (d # ds) b = pwrites (off + length d) ds (pwrite b off d)"

lemma pwrite_append: "pwrite (pwrite b off d) (off + length d) e = pwrite b off (d @ e)"
  by (rule nth_equalityI) (auto simp: nth_pwrite nth_append)

lemma pwrites_concat: "ds \<noteq> [] \<Longrightarrow> pwrites off ds b = pwrite b off (concat ds)"
proof (induction ds arbitrary: off b)
  case (Cons d ds)
  then show ?case by (cases "ds = []") (auto simp: pwrite_append)
qed simp

lemma write_buffer:
  assumes "length b < off + length d" "vec_resize (off + length d) b = Ok b1"
  shows "take off b1 @ d @ drop (off + length d) b1 = pwrite b off d"
proof (rule nth_equalityI)
  have b1: "b1 = b @ replicate (off + length d - length b) 0"
    using assms by (simp add: vec_resize_def split: if_splits)
  show "length (take off b1 @ d @ drop (off + length d) b1) = length (pwrite b off d)"
    using assms(1) by (simp add: b1 pwrite_def)
  have mid: "min (length b) off + (off - length b) = off" by simp
  fix k assume "k < length (take off b1 @ d @ drop (off + length d) b1)"
  then show "(take off b1 @ d @ drop (off + length d) b1) ! k = pwrite b off d ! k"
    using assms(1) mid by (auto simp: b1 pwrite_def nth_append)
qed

lemma write_inside:
  assumes "off + length d \<le> length b"
  shows "take off b @ d @ drop (off + length d) b = pwrite b off d"
proof (rule nth_equalityI)
  show "length (take off b @ d @ drop (off + length d) b) = length (pwrite b off d)"
    using assms by (simp add: pwrite_def)
  fix k assume "k < length (take off b @ d @ drop (off + length d) b)"
  then show "(take off b @ d @ drop (off + length d) b) ! k = pwrite b off d ! k"
    using assms by (auto simp: pwrite_def nth_append)
qed

lemma vec_resize_ptruncate: "n < 2 ^ 63 \<Longrightarrow> vec_resize n b = Ok (ptruncate b n)"
proof -
  have "take n b @ replicate (n - length b) 0 = ptruncate b n"
    by (rule nth_equalityI) (auto simp: ptruncate_def nth_append)
  then show "n < 2 ^ 63 \<Longrightarrow> ?thesis" by (simp add: vec_resize_def)
qed

lemma buf_write_pwrite: "off + length d < 2 ^ 63 \<Longrightarrow> buf_write off d b = Ok (pwrite b off d)"
  using write_buffer [of b off d] write_inside [of off d b] vec_resize_ptruncate [of "off + length d" b]
  by (auto simp: buf_write_def Let_def)

lemma read_slice_window: "length b < 2 ^ 63 \<Longrightarrow> read_slice b off n = take (unat n) (drop off b)"
  using unat_u32_less [of n] by (cases "off < length b") (auto simp: read_slice_def saturating_add_def Let_def min_def)

section \<open>The interface of the callbacks\<close>

text \<open>
  What the callbacks rely on: an operation that stays below the size limit succeeds and changes the contents as
  specified; reads return the bytes of a window.
\<close>

locale byte_buffer =
  fixes write_at :: "nat \<Rightarrow> bytes \<Rightarrow> 'b \<Rightarrow> 'b res"
    and resize :: "nat \<Rightarrow> 'b \<Rightarrow> 'b res"
    and read_at :: "'b \<Rightarrow> nat \<Rightarrow> u32 \<Rightarrow> bytes"
    and content :: "'b \<Rightarrow> bytes"
    and limit :: nat
  assumes write_at: "off + length d < limit \<Longrightarrow> \<exists>b'. write_at off d b = Ok b' \<and> content b' = pwrite (content b) off d"
    and resize: "m < limit \<Longrightarrow> \<exists>b'. resize m b = Ok b' \<and> content b' = ptruncate (content b) m"
    and read_at: "length (content b) < limit \<Longrightarrow> read_at b off n = take (unat n) (drop off (content b))"
begin

lemma read_own_write:
  assumes "off + length d < limit" "length (content b) < limit" "unat n = length d"
  shows "\<exists>b'. write_at off d b = Ok b' \<and> read_at b' off n = d"
  using write_at [OF assms(1), of b] assms by (auto simp: read_at pwrite_window)

lemma read_before_write:
  assumes "off + length d < limit" "length (content b) < limit" "k + unat n \<le> off" "k + unat n \<le> length (content b)"
  shows "\<exists>b'. write_at off d b = Ok b' \<and> read_at b' k n = read_at b k n"
proof -
  obtain b' where b': "write_at off d b = Ok b'" "content b' = pwrite (content b) off d"
    using write_at [OF assms(1)] by blast
  have "take (unat n) (drop k (pwrite (content b) off d)) = take (unat n) (drop k (content b))"
    using pwrite_before [of "k + unat n" off "content b" d] assms(3,4) by (metis drop_take add_diff_cancel_left')
  then show ?thesis using b' assms by (auto simp: read_at)
qed

lemma read_after_write:
  assumes "off + length d < limit" "length (content b) < limit" "off + length d \<le> k"
  shows "\<exists>b'. write_at off d b = Ok b' \<and> read_at b' k n = read_at b k n"
proof -
  obtain b' where b': "write_at off d b = Ok b'" "content b' = pwrite (content b) off d"
    using write_at [OF assms(1)] by blast
  have "drop k (pwrite (content b) off d) = drop k (content b)"
    using arg_cong [OF pwrite_after [of off d "content b"], of "drop (k - (off + length d))"] assms(3) by simp
  then show ?thesis using b' assms by (auto simp: read_at)
qed

lemma resize_reads_zero:
  assumes "length (content b) \<le> k" "k + unat n \<le> m" "m < limit"
  shows "\<exists>b'. resize m b = Ok b' \<and> read_at b' k n = replicate (unat n) 0"
proof -
  obtain b' where b': "resize m b = Ok b'" "content b' = ptruncate (content b) m" using resize [OF assms(3)] by blast
  have "take (unat n) (drop k (ptruncate (content b) m)) = replicate (unat n) 0"
    by (rule nth_equalityI) (use assms in \<open>auto simp: ptruncate_def\<close>)
  then show ?thesis using b' assms by (auto simp: read_at)
qed

end

interpretation stg: byte_buffer buf_write vec_resize read_slice "\<lambda>b. b" "2 ^ 63"
  by unfold_locales (simp_all add: buf_write_pwrite vec_resize_ptruncate read_slice_window)

end
