(* ===== verification/Xetfs.thy ===== *)
theory Xetfs
  imports Agent Staging_Buffer
begin

text \<open>
  \<open>crates/xetfs/src/lib.rs\<close>: the write-back file system over the agent. The state is the inode table, the
  staging buffers of files open for write and the byte cache; the world behind the network and the HTTP
  client are those of the agent. Each callback of the \<open>Filesystem\<close> trait is one function that
  returns its reply; names arrive as decoded strings. Inode numbers are natural numbers: each
  one below the counter has a node in memory, so the 64-bit counter does not overflow.
\<close>

section \<open>State\<close>

type_synonym ino = nat

datatype kind = Dir | File

record node =
  nd_name :: string
  nd_kind :: kind
  nd_parent :: ino
  nd_children :: "ino list"
  nd_file_hash :: "string option"
  nd_size :: u64

record staging =
  sg_buf :: bytes
  sg_dirty :: bool

record xetfs =
  xf_base_url :: string
  xf_volume :: string
  xf_nodes :: "(ino, node) hashmap"
  xf_open_files :: "(ino, staging) hashmap"
  xf_cache :: "(ino, bytes) hashmap"
  xf_next :: ino
  xf_uid :: u32
  xf_gid :: u32

definition ROOT :: ino where
  "ROOT = 1"

text \<open>The network and the fork, as the agent sees them.\<close>

record 'w env =
  en_tok :: "string option"
  en_send :: "tx_req \<Rightarrow> 'w \<Rightarrow> tx_resp res \<times> 'w"
  en_ovf :: bool
  en_fork :: fork

section \<open>Building the tree\<close>

record tree =
  tr_nodes :: "(ino, node) hashmap"
  tr_dirs :: "(string, ino) hashmap"
  tr_next :: ino

text \<open>Insert a node and append it to the children of its parent (\<open>get_mut(..).unwrap()\<close>).\<close>

definition add_node :: "ino \<Rightarrow> node \<Rightarrow> (ino, node) hashmap \<Rightarrow> (ino, node) hashmap res" where
  "add_node i n m =
     (let m1 = hm_insert i n m
      in (case hm_get m1 (nd_parent n) of
            None \<Rightarrow> Panic
          | Some p \<Rightarrow> Ok (hm_insert (nd_parent n) (p\<lparr>nd_children := nd_children p @ [i]\<rparr>) m1)))"

text \<open>The loop over the components of one catalog path.\<close>

fun add_comps :: "string \<Rightarrow> u64 \<Rightarrow> string list \<Rightarrow> ino \<Rightarrow> string \<Rightarrow> tree \<Rightarrow> tree res" where
  "add_comps fh_hex sz [] parent accum t = Ok t"
| "add_comps fh_hex sz (cname # cnames) parent accum t =
     (let accum1 = (if accum \<noteq> [] then accum @ ''/'' else accum) @ cname
      in if cnames = []
         then bind_res (add_node (tr_next t)
                \<lparr>nd_name = cname, nd_kind = File, nd_parent = parent, nd_children = [], nd_file_hash = Some fh_hex,
                 nd_size = sz\<rparr> (tr_nodes t))
                (\<lambda>m. add_comps fh_hex sz cnames parent accum1 (t\<lparr>tr_nodes := m, tr_next := tr_next t + 1\<rparr>))
         else (case hm_get (tr_dirs t) accum1 of
             Some i \<Rightarrow> add_comps fh_hex sz cnames i accum1 t
           | None \<Rightarrow>
               bind_res (add_node (tr_next t)
                 \<lparr>nd_name = cname, nd_kind = Dir, nd_parent = parent, nd_children = [], nd_file_hash = None, nd_size = 0\<rparr>
                 (tr_nodes t))
                 (\<lambda>m. add_comps fh_hex sz cnames (tr_next t) accum1
                        (t\<lparr>tr_nodes := m, tr_dirs := hm_insert accum1 (tr_next t) (tr_dirs t), tr_next := tr_next t + 1\<rparr>))))"

definition str_or_empty :: "json \<Rightarrow> string" where
  "str_or_empty j = (case as_str j of None \<Rightarrow> [] | Some s \<Rightarrow> s)"

definition add_entry :: "json \<Rightarrow> tree \<Rightarrow> tree res" where
  "add_entry e t =
     (let path = trim_start_matches CHR ''/'' (str_or_empty (jget e ''path''))
      in if path = [] then Ok t
         else add_comps (str_or_empty (jget e ''file_hash''))
                (case as_u64 (jget e ''size'') of None \<Rightarrow> 0 | Some n \<Rightarrow> n) (split_on CHR ''/'' path) ROOT [] t)"

fun add_entries :: "json list \<Rightarrow> tree \<Rightarrow> tree res" where
  "add_entries [] t = Ok t"
| "add_entries (e # es) t = bind_res (add_entry e t) (add_entries es)"

definition empty_tree :: tree where
  "empty_tree =
     \<lparr>tr_nodes = [(ROOT, \<lparr>nd_name = ''/'', nd_kind = Dir, nd_parent = ROOT, nd_children = [], nd_file_hash = None, nd_size = 0\<rparr>)],
      tr_dirs = [], tr_next = 2\<rparr>"

text \<open>The catalog request of \<open>connect\<close> and \<open>catalog_file_hash\<close>; it is sent without a bearer token.\<close>

definition fetch_entries :: "'w env \<Rightarrow> string \<Rightarrow> string \<Rightarrow> 'w \<Rightarrow> json list res \<times> 'w" where
  "fetch_entries E base_url volume w =
     (case en_send E (client_get (base_url @ ''/api/v1/volumes/'' @ volume @ ''/entries'')) w of
        (r, w1) \<Rightarrow>
          (bind_res r (\<lambda>resp. bind_res (tp_json resp) (\<lambda>entries.
             Ok (case as_array entries of None \<Rightarrow> [] | Some es \<Rightarrow> es))), w1))"

definition connect :: "'w env \<Rightarrow> u32 \<Rightarrow> u32 \<Rightarrow> string \<Rightarrow> string \<Rightarrow> 'w \<Rightarrow> xetfs res \<times> 'w" where
  "connect E uid gid base_url volume w =
     (case fetch_entries E base_url volume w of
        (r, w1) \<Rightarrow>
          (bind_res r (\<lambda>es. bind_res (add_entries es empty_tree) (\<lambda>t.
             Ok \<lparr>xf_base_url = base_url, xf_volume = volume, xf_nodes = tr_nodes t, xf_open_files = [], xf_cache = [],
                 xf_next = tr_next t, xf_uid = uid, xf_gid = gid\<rparr>)), w1))"

definition catalog_file_hash :: "'w env \<Rightarrow> string \<Rightarrow> string \<Rightarrow> string \<Rightarrow> 'w \<Rightarrow> string res \<times> 'w" where
  "catalog_file_hash E base_url volume path w =
     (case fetch_entries E base_url volume w of
        (r, w1) \<Rightarrow>
          (bind_res r (\<lambda>es.
             (case find (\<lambda>e. as_str (jget e ''path'') = Some path \<and> as_str (jget e ''file_hash'') \<noteq> None) es of
                Some e \<Rightarrow> Ok (str_or_empty (jget e ''file_hash''))
              | None \<Rightarrow> Err (''no catalog entry for '' @ volume @ '':'' @ path))), w1))"

section \<open>Attributes\<close>

record file_attr =
  fa_ino :: ino
  fa_size :: u64
  fa_blocks :: u64
  fa_atime :: nat
  fa_mtime :: nat
  fa_ctime :: nat
  fa_crtime :: nat
  fa_kind :: kind
  fa_perm :: nat
  fa_nlink :: nat
  fa_uid :: u32
  fa_gid :: u32
  fa_rdev :: u32
  fa_blksize :: u32
  fa_flags :: u32

text \<open>The time stamps are seconds since the epoch.\<close>

definition attr :: "xetfs \<Rightarrow> ino \<Rightarrow> file_attr option" where
  "attr x i =
     (case hm_get (xf_nodes x) i of
        None \<Rightarrow> None
      | Some n \<Rightarrow>
          Some \<lparr>fa_ino = i, fa_size = nd_size n, fa_blocks = of_nat ((unat (nd_size n) + 511) div 512),
                fa_atime = 0, fa_mtime = 0, fa_ctime = 0, fa_crtime = 0, fa_kind = nd_kind n,
                fa_perm = (case nd_kind n of Dir \<Rightarrow> 493 | File \<Rightarrow> 420), fa_nlink = (case nd_kind n of Dir \<Rightarrow> 2 | File \<Rightarrow> 1),
                fa_uid = xf_uid x, fa_gid = xf_gid x, fa_rdev = 0, fa_blksize = 512, fa_flags = 0\<rparr>)"

section \<open>Contents\<close>

text \<open>The bytes of a file, cached per inode.\<close>

definition file_bytes :: "'w env \<Rightarrow> ino \<Rightarrow> xetfs \<Rightarrow> 'w \<Rightarrow> bytes option res \<times> xetfs \<times> 'w" where
  "file_bytes E i x w =
     (case hm_get (xf_cache x) i of
        Some b \<Rightarrow> (Ok (Some b), x, w)
      | None \<Rightarrow>
          (case Option.bind (hm_get (xf_nodes x) i) nd_file_hash of
             None \<Rightarrow> (Ok None, x, w)
           | Some fh \<Rightarrow>
               (case agent_reconstruct (en_tok E) (en_send E) (en_fork E) (xf_base_url x) fh w of
                  (Ok b, w1) \<Rightarrow> (Ok (Some b), x\<lparr>xf_cache := hm_insert i b (xf_cache x)\<rparr>, w1)
                | (Err _, w1) \<Rightarrow> (Ok None, x, w1)
                | (Panic, w1) \<Rightarrow> (Panic, x, w1))))"

definition ensure_staging :: "'w env \<Rightarrow> ino \<Rightarrow> xetfs \<Rightarrow> 'w \<Rightarrow> unit res \<times> xetfs \<times> 'w" where
  "ensure_staging E i x w =
     (if hm_contains_key i (xf_open_files x) then (Ok (), x, w)
      else (case file_bytes E i x w of
         (Ok b, x1, w1) \<Rightarrow>
           (Ok (), x1\<lparr>xf_open_files := hm_insert i
              \<lparr>sg_buf = (case b of None \<Rightarrow> [] | Some d \<Rightarrow> d), sg_dirty = False\<rparr> (xf_open_files x1)\<rparr>, w1)
       | (Err e, x1, w1) \<Rightarrow> (Err e, x1, w1)
       | (Panic, x1, w1) \<Rightarrow> (Panic, x1, w1)))"

text \<open>
  The path of an inode: names up to the root. The loop follows parent pointers and ends only if they lead to the
  root or to a missing inode; not ending is \<open>None\<close>.
\<close>

partial_function (option) path_parts :: "(ino, node) hashmap \<Rightarrow> ino \<Rightarrow> string list option" where
  "path_parts m cur =
     (if cur = ROOT then Some []
      else (case hm_get m cur of
              None \<Rightarrow> Some []
            | Some n \<Rightarrow> Option.bind (path_parts m (nd_parent n)) (\<lambda>ps. Some (ps @ [nd_name n]))))"

definition full_path :: "xetfs \<Rightarrow> ino \<Rightarrow> string option" where
  "full_path x i = map_option (\<lambda>ps. ''/'' @ join ''/'' ps) (path_parts (xf_nodes x) i)"

text \<open>Re-ingest staged bytes; an error is only printed. \<open>None\<close> is a call that does not return.\<close>

definition flush_bytes :: "'w env \<Rightarrow> ino \<Rightarrow> bytes \<Rightarrow> xetfs \<Rightarrow> 'w \<Rightarrow> (unit res \<times> xetfs \<times> 'w) option" where
  "flush_bytes E i buf x w =
     (case full_path x i of
        None \<Rightarrow> None
      | Some path \<Rightarrow>
          Some (case ingest_bytes (en_tok E) (en_send E) (en_ovf E) (en_fork E) (xf_base_url x) (xf_volume x) path buf w of
             (Ok fh, w1) \<Rightarrow>
               (let x1 = (case hm_get (xf_nodes x) i of
                            None \<Rightarrow> x
                          | Some n \<Rightarrow> x\<lparr>xf_nodes := hm_insert i
                              (n\<lparr>nd_file_hash := Some fh, nd_size := of_nat (length buf)\<rparr>) (xf_nodes x)\<rparr>)
                in (Ok (), x1\<lparr>xf_cache := hm_remove i (xf_cache x1)\<rparr>, w1))
           | (Err _, w1) \<Rightarrow> (Ok (), x, w1)
           | (Panic, w1) \<Rightarrow> (Panic, x, w1)))"

definition flush_if_dirty :: "'w env \<Rightarrow> ino \<Rightarrow> xetfs \<Rightarrow> 'w \<Rightarrow> (unit res \<times> xetfs \<times> 'w) option" where
  "flush_if_dirty E i x w =
     (case hm_get (xf_open_files x) i of
        None \<Rightarrow> Some (Ok (), x, w)
      | Some s \<Rightarrow>
          if sg_dirty s
          then flush_bytes E i (sg_buf s) (x\<lparr>xf_open_files := hm_insert i (s\<lparr>sg_dirty := False\<rparr>) (xf_open_files x)\<rparr>) w
          else Some (Ok (), x, w))"

section \<open>Callbacks\<close>

datatype reply =
    REntry file_attr
  | RAttr file_attr
  | ROpened
  | RCreated file_attr
  | RData bytes
  | RWritten u32
  | RDirectory "(ino \<times> nat \<times> kind \<times> string) list"
  | ROk
  | RError nat

definition ENOENT :: nat where "ENOENT = 2"
definition EIO :: nat where "EIO = 5"
definition ENOTDIR :: nat where "ENOTDIR = 20"

definition find_child :: "xetfs \<Rightarrow> ino \<Rightarrow> string \<Rightarrow> ino option" where
  "find_child x parent name =
     find (\<lambda>c. case hm_get (xf_nodes x) c of None \<Rightarrow> False | Some n \<Rightarrow> nd_name n = name)
       (case hm_get (xf_nodes x) parent of None \<Rightarrow> [] | Some p \<Rightarrow> nd_children p)"

definition lookup :: "ino \<Rightarrow> string \<Rightarrow> xetfs \<Rightarrow> reply" where
  "lookup parent name x =
     (case Option.bind (find_child x parent name) (attr x) of Some a \<Rightarrow> REntry a | None \<Rightarrow> RError ENOENT)"

definition getattr :: "ino \<Rightarrow> xetfs \<Rightarrow> reply" where
  "getattr i x = (case attr x i of Some a \<Rightarrow> RAttr a | None \<Rightarrow> RError ENOENT)"

definition fs_open :: "ino \<Rightarrow> xetfs \<Rightarrow> reply" where
  "fs_open i x = ROpened"

definition create :: "ino \<Rightarrow> string \<Rightarrow> xetfs \<Rightarrow> reply res \<times> xetfs" where
  "create parent name x =
     (let made = (case find_child x parent name of
            Some i \<Rightarrow> (Ok i, x)
          | None \<Rightarrow>
              (let i = xf_next x;
                   n = \<lparr>nd_name = name, nd_kind = File, nd_parent = parent, nd_children = [], nd_file_hash = None, nd_size = 0\<rparr>
               in (case add_node i n (xf_nodes x) of
                     Ok m \<Rightarrow> (Ok i, x\<lparr>xf_next := i + 1, xf_nodes := m\<rparr>)
                   | _ \<Rightarrow> (Panic, x\<lparr>xf_next := i + 1, xf_nodes := hm_insert i n (xf_nodes x)\<rparr>))))
      in (case made of
            (Ok i, x1) \<Rightarrow>
              (let x2 = x1\<lparr>xf_open_files := hm_insert i \<lparr>sg_buf = [], sg_dirty = True\<rparr> (xf_open_files x1)\<rparr>
               in (Ok (case attr x2 i of Some a \<Rightarrow> RCreated a | None \<Rightarrow> RError EIO), x2))
          | (Err e, x1) \<Rightarrow> (Err e, x1)
          | (Panic, x1) \<Rightarrow> (Panic, x1)))"

definition fs_read_file :: "'w env \<Rightarrow> ino \<Rightarrow> int \<Rightarrow> u32 \<Rightarrow> xetfs \<Rightarrow> 'w \<Rightarrow> reply res \<times> xetfs \<times> 'w" where
  "fs_read_file E i offset sz x w =
     (let off = nat (max offset 0)
      in (case hm_get (xf_open_files x) i of
            Some s \<Rightarrow> (Ok (RData (read_slice (sg_buf s) off sz)), x, w)
          | None \<Rightarrow>
              (case file_bytes E i x w of
                 (Ok (Some b), x1, w1) \<Rightarrow> (Ok (RData (read_slice b off sz)), x1, w1)
               | (Ok None, x1, w1) \<Rightarrow> (Ok (RError ENOENT), x1, w1)
               | (Err e, x1, w1) \<Rightarrow> (Err e, x1, w1)
               | (Panic, x1, w1) \<Rightarrow> (Panic, x1, w1))))"

definition set_size :: "ino \<Rightarrow> u64 \<Rightarrow> xetfs \<Rightarrow> xetfs" where
  "set_size i n x =
     (case hm_get (xf_nodes x) i of
        None \<Rightarrow> x
      | Some d \<Rightarrow> x\<lparr>xf_nodes := hm_insert i (d\<lparr>nd_size := n\<rparr>) (xf_nodes x)\<rparr>)"

definition fs_write_file :: "'w env \<Rightarrow> ino \<Rightarrow> int \<Rightarrow> bytes \<Rightarrow> xetfs \<Rightarrow> 'w \<Rightarrow> reply res \<times> xetfs \<times> 'w" where
  "fs_write_file E i offset data x w =
     (case ensure_staging E i x w of
        (Ok _, x1, w1) \<Rightarrow>
          (case hm_get (xf_open_files x1) i of
             None \<Rightarrow> (Panic, x1, w1)
           | Some s \<Rightarrow>
               (case buf_write (nat (max offset 0)) data (sg_buf s) of
                  Ok b \<Rightarrow>
                    (let x2 = x1\<lparr>xf_open_files := hm_insert i \<lparr>sg_buf = b, sg_dirty = True\<rparr> (xf_open_files x1)\<rparr>
                     in (Ok (RWritten (of_nat (length data))), set_size i (of_nat (length b)) x2, w1))
                | Err e \<Rightarrow> (Err e, x1, w1)
                | Panic \<Rightarrow> (Panic, x1, w1)))
      | (Err e, x1, w1) \<Rightarrow> (Err e, x1, w1)
      | (Panic, x1, w1) \<Rightarrow> (Panic, x1, w1))"

definition attr_reply :: "ino \<Rightarrow> xetfs \<Rightarrow> reply" where
  "attr_reply i x = (case attr x i of Some a \<Rightarrow> RAttr a | None \<Rightarrow> RError ENOENT)"

definition setattr :: "'w env \<Rightarrow> ino \<Rightarrow> u64 option \<Rightarrow> xetfs \<Rightarrow> 'w \<Rightarrow> reply res \<times> xetfs \<times> 'w" where
  "setattr E i sz x w =
     (case sz of
        None \<Rightarrow> (Ok (attr_reply i x), x, w)
      | Some n \<Rightarrow>
          (case ensure_staging E i x w of
             (Ok _, x1, w1) \<Rightarrow>
               (case hm_get (xf_open_files x1) i of
                  None \<Rightarrow> (Panic, x1, w1)
                | Some s \<Rightarrow>
                    (case vec_resize (unat n) (sg_buf s) of
                       Ok b \<Rightarrow>
                         (let x2 = set_size i n (x1\<lparr>xf_open_files := hm_insert i \<lparr>sg_buf = b, sg_dirty = True\<rparr> (xf_open_files x1)\<rparr>)
                          in (Ok (attr_reply i x2), x2, w1))
                     | Err e \<Rightarrow> (Err e, x1, w1)
                     | Panic \<Rightarrow> (Panic, x1, w1)))
           | (Err e, x1, w1) \<Rightarrow> (Err e, x1, w1)
           | (Panic, x1, w1) \<Rightarrow> (Panic, x1, w1)))"

definition fsync :: "'w env \<Rightarrow> ino \<Rightarrow> xetfs \<Rightarrow> 'w \<Rightarrow> (reply res \<times> xetfs \<times> 'w) option" where
  "fsync E i x w = map_option (\<lambda>(r, x1, w1). (bind_res r (\<lambda>_. Ok ROk), x1, w1)) (flush_if_dirty E i x w)"

definition flush :: "'w env \<Rightarrow> ino \<Rightarrow> xetfs \<Rightarrow> 'w \<Rightarrow> (reply res \<times> xetfs \<times> 'w) option" where
  "flush E i x w = map_option (\<lambda>(r, x1, w1). (bind_res r (\<lambda>_. Ok ROk), x1, w1)) (flush_if_dirty E i x w)"

definition release :: "'w env \<Rightarrow> ino \<Rightarrow> xetfs \<Rightarrow> 'w \<Rightarrow> (reply res \<times> xetfs \<times> 'w) option" where
  "release E i x w =
     map_option (\<lambda>(r, x1, w1).
       (case r of
          Ok _ \<Rightarrow> (Ok ROk, x1\<lparr>xf_open_files := hm_remove i (xf_open_files x1)\<rparr>, w1)
        | Err e \<Rightarrow> (Err e, x1, w1)
        | Panic \<Rightarrow> (Panic, x1, w1))) (flush_if_dirty E i x w)"

text \<open>
  The entries of a directory, then the page that starts at an offset; \<open>fits\<close> is the number of entries for which
  the reply buffer has room. An offset is the position of the next entry; a negative one is cast to
  a huge index, which skips everything.
\<close>

definition dir_entries :: "ino \<Rightarrow> node \<Rightarrow> xetfs \<Rightarrow> (ino \<times> kind \<times> string) list res" where
  "dir_entries i n x =
     bind_res (traverse_res (\<lambda>c. (case hm_get (xf_nodes x) c of
                  None \<Rightarrow> Panic
                | Some cn \<Rightarrow> Ok (c, nd_kind cn, nd_name cn))) (nd_children n))
       (\<lambda>cs. Ok ([(i, Dir, ''.''), (nd_parent n, Dir, ''..'')] @ cs))"

definition readdir :: "ino \<Rightarrow> int \<Rightarrow> nat \<Rightarrow> xetfs \<Rightarrow> reply res" where
  "readdir i offset fits x =
     (case hm_get (xf_nodes x) i of
        None \<Rightarrow> Ok (RError ENOENT)
      | Some n \<Rightarrow>
          if nd_kind n \<noteq> Dir then Ok (RError ENOTDIR)
          else bind_res (dir_entries i n x) (\<lambda>es.
            let off = nat (if offset < 0 then offset + 2 ^ 64 else offset)
            in Ok (RDirectory (take fits
                 (drop off (map (\<lambda>(k, c, knd, name). (c, k + 1, knd, name)) (enumerate 0 es)))))))"

end
