(* ===== verification/Xetfs_Tree.thy ===== *)
theory Xetfs_Tree
  imports Xetfs
begin

text \<open>
  The inode table of the file system as a tree: its invariant, the paths it stores, and what \<open>connect\<close> and \<open>create\<close>
  do to it.
\<close>

section \<open>The invariant\<close>

text \<open>
  The root is a directory and its own parent; every other node has a smaller inode as its parent, a
  directory that lists it; children point back to their parent and are listed once; files
  have no children; all inodes are below the counter.
\<close>

definition tree_ok :: "(ino, node) hashmap \<Rightarrow> ino \<Rightarrow> bool" where
  "tree_ok m nxt \<longleftrightarrow>
     hm_ok m \<and> ROOT < nxt \<and>
     (\<exists>r. hm_get m ROOT = Some r \<and> nd_kind r = Dir \<and> nd_parent r = ROOT) \<and>
     (\<forall>i n. hm_get m i = Some n \<longrightarrow>
        i < nxt \<and> distinct (nd_children n) \<and> (nd_kind n = File \<longrightarrow> nd_children n = []) \<and>
        (\<forall>c \<in> set (nd_children n). c \<noteq> ROOT \<and> (\<exists>cn. hm_get m c = Some cn \<and> nd_parent cn = i)) \<and>
        (i \<noteq> ROOT \<longrightarrow> nd_parent n < i \<and>
           (\<exists>p. hm_get m (nd_parent n) = Some p \<and> nd_kind p = Dir \<and> i \<in> set (nd_children p))))"

lemma tree_ok_below: "tree_ok m nxt \<Longrightarrow> hm_get m i = Some n \<Longrightarrow> i < nxt"
  by (simp add: tree_ok_def)

lemma tree_ok_node:
  assumes "tree_ok m nxt" "hm_get m i = Some n"
  shows tree_ok_distinct: "distinct (nd_children n)"
    and tree_ok_file: "nd_kind n = File \<Longrightarrow> nd_children n = []"
    and tree_ok_child: "c \<in> set (nd_children n) \<Longrightarrow> c \<noteq> ROOT \<and> (\<exists>cn. hm_get m c = Some cn \<and> nd_parent cn = i)"
    and tree_ok_parent_less: "i \<noteq> ROOT \<Longrightarrow> nd_parent n < i"
    and tree_ok_parent: "i \<noteq> ROOT \<Longrightarrow> \<exists>p. hm_get m (nd_parent n) = Some p \<and> nd_kind p = Dir \<and> i \<in> set (nd_children p)"
  using assms unfolding tree_ok_def by blast+

lemma tree_ok_root: "tree_ok m nxt \<Longrightarrow> \<exists>r. hm_get m ROOT = Some r \<and> nd_kind r = Dir"
  by (auto simp: tree_ok_def)

lemma tree_ok_fresh: "tree_ok m nxt \<Longrightarrow> hm_get m nxt = None"
  using tree_ok_below [of m nxt nxt] by (cases "hm_get m nxt") auto

section \<open>Paths\<close>

lemma path_parts_root [simp]: "path_parts m ROOT = Some []"
  by (subst path_parts.simps) simp

lemma path_parts_node:
  "i \<noteq> ROOT \<Longrightarrow> hm_get m i = Some n \<Longrightarrow>
     path_parts m i = Option.bind (path_parts m (nd_parent n)) (\<lambda>ps. Some (ps @ [nd_name n]))"
  by (subst path_parts.simps) simp

text \<open>On a tree the loop of \<open>full_path\<close> ends.\<close>

lemma path_parts_total: "tree_ok m nxt \<Longrightarrow> \<exists>ps. path_parts m i = Some ps"
proof (induction i rule: less_induct)
  case (less i)
  show ?case
  proof (cases "i = ROOT \<or> hm_get m i = None")
    case True
    then show ?thesis by (subst path_parts.simps) auto
  next
    case False
    then obtain n where n: "hm_get m i = Some n" "i \<noteq> ROOT" by auto
    then have "nd_parent n < i" using tree_ok_parent_less [OF less.prems] by blast
    then obtain ps where "path_parts m (nd_parent n) = Some ps" using less by blast
    then show ?thesis using path_parts_node [OF n(2,1)] by simp
  qed
qed

text \<open>Paths depend on names and parents only.\<close>

lemma path_parts_cong:
  assumes "tree_ok m nxt"
    and same: "\<And>i n. hm_get m i = Some n \<Longrightarrow> \<exists>n'. hm_get m' i = Some n' \<and> nd_name n' = nd_name n \<and> nd_parent n' = nd_parent n"
    and "hm_get m i = Some n"
  shows "path_parts m' i = path_parts m i"
  using assms(3)
proof (induction i arbitrary: n rule: less_induct)
  case (less i)
  show ?case
  proof (cases "i = ROOT")
    case False
    obtain p where p: "nd_parent n < i" "hm_get m (nd_parent n) = Some p"
      using tree_ok_parent_less [OF assms(1) less.prems False] tree_ok_parent [OF assms(1) less.prems False] by blast
    obtain n' where n': "hm_get m' i = Some n'" "nd_name n' = nd_name n" "nd_parent n' = nd_parent n"
      using same [OF less.prems] by blast
    show ?thesis
      using less.IH [OF p] path_parts_node [OF False less.prems] path_parts_node [OF False n'(1)] n'(2,3) by simp
  qed simp
qed

section \<open>Adding a node\<close>

text \<open>The conditions of the invariant on one node.\<close>

definition node_ok :: "(ino, node) hashmap \<Rightarrow> ino \<Rightarrow> ino \<Rightarrow> node \<Rightarrow> bool" where
  "node_ok m nxt i n \<longleftrightarrow>
     i < nxt \<and> distinct (nd_children n) \<and> (nd_kind n = File \<longrightarrow> nd_children n = []) \<and>
     (\<forall>c \<in> set (nd_children n). c \<noteq> ROOT \<and> (\<exists>cn. hm_get m c = Some cn \<and> nd_parent cn = i)) \<and>
     (i \<noteq> ROOT \<longrightarrow> nd_parent n < i \<and> (\<exists>p. hm_get m (nd_parent n) = Some p \<and> nd_kind p = Dir \<and> i \<in> set (nd_children p)))"

lemma tree_ok_nodes:
  "tree_ok m nxt \<longleftrightarrow> hm_ok m \<and> ROOT < nxt \<and> (\<exists>r. hm_get m ROOT = Some r \<and> nd_kind r = Dir \<and> nd_parent r = ROOT) \<and>
     (\<forall>i n. hm_get m i = Some n \<longrightarrow> node_ok m nxt i n)"
  by (simp add: tree_ok_def node_ok_def)

text \<open>Every node is still there, at the same place, and has kept its children.\<close>

definition keeps_nodes :: "(ino, node) hashmap \<Rightarrow> (ino, node) hashmap \<Rightarrow> bool" where
  "keeps_nodes m m' \<longleftrightarrow> (\<forall>i k. hm_get m i = Some k \<longrightarrow>
     (\<exists>k'. hm_get m' i = Some k' \<and> nd_name k' = nd_name k \<and> nd_parent k' = nd_parent k \<and> nd_kind k' = nd_kind k \<and>
        set (nd_children k) \<subseteq> set (nd_children k')))"

lemma node_ok_keeps:
  assumes "node_ok m nxt i n" and "keeps_nodes m m'" and "nxt \<le> nxt'"
  shows "node_ok m' nxt' i n"
proof -
  have "\<forall>c \<in> set (nd_children n). c \<noteq> ROOT \<and> (\<exists>cn. hm_get m' c = Some cn \<and> nd_parent cn = i)"
    using assms(1,2) unfolding node_ok_def keeps_nodes_def by metis
  moreover have "\<exists>p. hm_get m' (nd_parent n) = Some p \<and> nd_kind p = Dir \<and> i \<in> set (nd_children p)" if "i \<noteq> ROOT"
  proof -
    have "\<exists>p. hm_get m (nd_parent n) = Some p \<and> nd_kind p = Dir \<and> i \<in> set (nd_children p)"
      using assms(1) that by (simp add: node_ok_def)
    then obtain p where "hm_get m (nd_parent n) = Some p" "nd_kind p = Dir" "i \<in> set (nd_children p)" by blast
    then show ?thesis using assms(2) unfolding keeps_nodes_def by (metis subsetD)
  qed
  ultimately show ?thesis using assms(1,3) by (simp add: node_ok_def)
qed

lemma add_node_get:
  assumes ok: "tree_ok m nxt" and p: "hm_get m (nd_parent n) = Some p"
  obtains m' where "add_node nxt n m = Ok m'" "hm_ok m'"
    "hm_get m' = (hm_get m)(nxt \<mapsto> n, nd_parent n \<mapsto> p\<lparr>nd_children := nd_children p @ [nxt]\<rparr>)" "keeps_nodes m m'"
proof -
  let ?p = "p\<lparr>nd_children := nd_children p @ [nxt]\<rparr>"
  define m' where "m' = hm_insert (nd_parent n) ?p (hm_insert nxt n m)"
  have "nd_parent n \<noteq> nxt" using tree_ok_below [OF ok p] by simp
  then have "add_node nxt n m = Ok m'" using p by (simp add: add_node_def m'_def)
  moreover have get: "hm_get m' = (hm_get m)(nxt \<mapsto> n, nd_parent n \<mapsto> ?p)" by (simp add: m'_def)
  moreover have "hm_ok m'" using ok by (auto simp: tree_ok_def m'_def intro: hm.ok_insert)
  moreover have "keeps_nodes m m'" using tree_ok_fresh [OF ok] p by (auto simp: keeps_nodes_def get)
  ultimately show thesis using that by blast
qed

lemma add_node_ok:
  assumes ok: "tree_ok m nxt" and p: "hm_get m (nd_parent n) = Some p" "nd_kind p = Dir" and n: "nd_children n = []"
    and get: "hm_get m' = (hm_get m)(nxt \<mapsto> n, nd_parent n \<mapsto> p\<lparr>nd_children := nd_children p @ [nxt]\<rparr>)"
    and "hm_ok m'" and keeps: "keeps_nodes m m'"
  shows "tree_ok m' (nxt + 1)"
proof -
  let ?p = "p\<lparr>nd_children := nd_children p @ [nxt]\<rparr>"
  have lt: "nd_parent n < nxt" and nr: "nxt \<noteq> ROOT" using tree_ok_below [OF ok p(1)] ok by (auto simp: tree_ok_def)
  have old: "node_ok m' (nxt + 1) i k" if "hm_get m i = Some k" for i k
    using node_ok_keeps [OF _ keeps, of nxt i k "nxt + 1"] ok that by (simp add: tree_ok_nodes)
  have new: "hm_get m' nxt = Some n" "hm_get m' (nd_parent n) = Some ?p" using lt by (auto simp: get)
  have "node_ok m' (nxt + 1) nxt n" using n lt new p(2) by (simp add: node_ok_def)
  moreover have "node_ok m' (nxt + 1) (nd_parent n) ?p"
  proof -
    have "nxt \<notin> set (nd_children p)" using tree_ok_child [OF ok p(1), of nxt] tree_ok_fresh [OF ok] by auto
    then show ?thesis using old [OF p(1)] p(2) nr new(1) by (simp add: node_ok_def)
  qed
  moreover have "\<exists>r. hm_get m' ROOT = Some r \<and> nd_kind r = Dir \<and> nd_parent r = ROOT"
    using ok keeps unfolding tree_ok_def keeps_nodes_def by metis
  ultimately show ?thesis
    unfolding tree_ok_nodes using \<open>hm_ok m'\<close> ok old get by (auto simp: tree_ok_def split: if_splits)
qed

lemma add_node_spec:
  assumes ok: "tree_ok m nxt" and p: "hm_get m (nd_parent n) = Some p" "nd_kind p = Dir" and n: "nd_children n = []"
  obtains m' where "add_node nxt n m = Ok m'" "tree_ok m' (nxt + 1)"
    "hm_get m' = (hm_get m)(nxt \<mapsto> n, nd_parent n \<mapsto> p\<lparr>nd_children := nd_children p @ [nxt]\<rparr>)"
    "\<And>i k. hm_get m i = Some k \<Longrightarrow> path_parts m' i = path_parts m i"
    "path_parts m' nxt = Option.bind (path_parts m (nd_parent n)) (\<lambda>ps. Some (ps @ [nd_name n]))"
proof -
  obtain m' where m': "add_node nxt n m = Ok m'" "hm_ok m'"
    "hm_get m' = (hm_get m)(nxt \<mapsto> n, nd_parent n \<mapsto> p\<lparr>nd_children := nd_children p @ [nxt]\<rparr>)" "keeps_nodes m m'"
    by (rule add_node_get [OF ok p(1)])
  have same: "path_parts m' i = path_parts m i" if "hm_get m i = Some k" for i k
    by (rule path_parts_cong [OF ok _ that]) (use m'(4) in \<open>unfold keeps_nodes_def, blast\<close>)
  have "nxt \<noteq> ROOT" "nd_parent n \<noteq> nxt" using tree_ok_below [OF ok p(1)] ok by (auto simp: tree_ok_def)
  then have "path_parts m' nxt = Option.bind (path_parts m (nd_parent n)) (\<lambda>ps. Some (ps @ [nd_name n]))"
    using path_parts_node [of nxt m' n] same [OF p(1)] by (simp add: m'(3))
  then show thesis using that [OF m'(1) add_node_ok [OF ok p n m'(3,2,4)] m'(3)] same by blast
qed

section \<open>Building the tree from the catalog\<close>

text \<open>A tree keeps every node of another one, except that directories may gain children; paths stay.\<close>

definition extends :: "(ino, node) hashmap \<Rightarrow> (ino, node) hashmap \<Rightarrow> bool" where
  "extends m m' \<longleftrightarrow> (\<forall>i n. hm_get m i = Some n \<longrightarrow>
     (\<exists>cs. hm_get m' i = Some (n\<lparr>nd_children := cs\<rparr>)) \<and> path_parts m' i = path_parts m i)"

lemma extends_refl [simp]: "extends m m"
proof -
  have "n = n\<lparr>nd_children := nd_children n\<rparr>" for n :: node by simp
  then show ?thesis unfolding extends_def by metis
qed

lemma extends_trans: "extends m1 m2 \<Longrightarrow> extends m2 m3 \<Longrightarrow> extends m1 m3"
  unfolding extends_def by (metis (no_types, lifting) node.update_convs(4) node.surjective)

lemma add_node_extends:
  assumes ok: "tree_ok m nxt" and p: "hm_get m (nd_parent n) = Some p" "nd_kind p = Dir" and n: "nd_children n = []"
  obtains m' where "add_node nxt n m = Ok m'" "tree_ok m' (nxt + 1)" "extends m m'" "hm_get m' nxt = Some n"
    "\<And>i k. hm_get m' i = Some k \<Longrightarrow> i \<noteq> nxt \<Longrightarrow> \<exists>cs. hm_get m i = Some (k\<lparr>nd_children := cs\<rparr>)"
    "path_parts m' nxt = Option.bind (path_parts m (nd_parent n)) (\<lambda>ps. Some (ps @ [nd_name n]))"
proof -
  obtain m' where m': "add_node nxt n m = Ok m'" "tree_ok m' (nxt + 1)"
    and get: "hm_get m' = (hm_get m)(nxt \<mapsto> n, nd_parent n \<mapsto> p\<lparr>nd_children := nd_children p @ [nxt]\<rparr>)"
    and pp: "\<And>i k. hm_get m i = Some k \<Longrightarrow> path_parts m' i = path_parts m i"
      "path_parts m' nxt = Option.bind (path_parts m (nd_parent n)) (\<lambda>ps. Some (ps @ [nd_name n]))"
    using add_node_spec [OF assms] by metis
  have ne: "nd_parent n \<noteq> nxt" using tree_ok_below [OF ok p(1)] by simp
  have kk: "k = k\<lparr>nd_children := nd_children k\<rparr>" for k :: node by simp
  have "\<exists>cs. hm_get m' i = Some (k\<lparr>nd_children := cs\<rparr>)" if "hm_get m i = Some k" for i k
  proof (cases "i = nd_parent n")
    case False
    then have "hm_get m' i = Some k" using that tree_ok_fresh [OF ok] by (auto simp: get)
    then show ?thesis using kk by metis
  qed (use that p(1) in \<open>auto simp: get\<close>)
  then have "extends m m'" using pp(1) by (auto simp: extends_def)
  moreover have "\<exists>cs. hm_get m i = Some (k\<lparr>nd_children := cs\<rparr>)" if "hm_get m' i = Some k" "i \<noteq> nxt" for i k
  proof (cases "i = nd_parent n")
    case True
    then have "k\<lparr>nd_children := nd_children p\<rparr> = p" using that by (auto simp: get)
    then show ?thesis using True p(1) by metis
  next
    case False
    then show ?thesis using that kk by (metis get fun_upd_apply)
  qed
  moreover have "hm_get m' nxt = Some n" using ne by (simp add: get)
  ultimately show thesis using that m' pp(2) by blast
qed

abbreviation slash_free :: "string list \<Rightarrow> bool" where
  "slash_free ps \<equiv> \<forall>p \<in> set ps. CHR ''/'' \<notin> set p"

lemma join_snoc: "join sep (ps @ [c]) = (if ps = [] then c else join sep ps @ sep @ c)"
  by (induction sep ps rule: join.induct) auto

definition dirs_ok :: "tree \<Rightarrow> bool" where
  "dirs_ok t \<longleftrightarrow> (\<forall>a i. hm_get (tr_dirs t) a = Some i \<longrightarrow>
     (\<exists>n. hm_get (tr_nodes t) i = Some n \<and> nd_kind n = Dir) \<and> path_parts (tr_nodes t) i = Some (split_on CHR ''/'' a))"

text \<open>A directory whose path from the root is \<open>pps\<close>.\<close>

definition dir_at :: "tree \<Rightarrow> ino \<Rightarrow> string list \<Rightarrow> bool" where
  "dir_at t i pps \<longleftrightarrow> (\<exists>n. hm_get (tr_nodes t) i = Some n \<and> nd_kind n = Dir) \<and> path_parts (tr_nodes t) i = Some pps"

lemma dirs_ok_extend:
  assumes "dirs_ok t" "extends (tr_nodes t) (tr_nodes t')"
    and "\<And>a i. hm_get (tr_dirs t') a = Some i \<Longrightarrow> hm_get (tr_dirs t) a = Some i \<or> dir_at t' i (split_on CHR ''/'' a)"
  shows "dirs_ok t'"
  unfolding dirs_ok_def
proof (intro allI impI)
  fix a i assume a: "hm_get (tr_dirs t') a = Some i"
  from assms(3) [OF a] have "dir_at t' i (split_on CHR ''/'' a)"
  proof
    assume "hm_get (tr_dirs t) a = Some i"
    then obtain n where n: "hm_get (tr_nodes t) i = Some n" "nd_kind n = Dir"
        "path_parts (tr_nodes t) i = Some (split_on CHR ''/'' a)"
      using assms(1) unfolding dirs_ok_def by blast
    obtain cs where "hm_get (tr_nodes t') i = Some (n\<lparr>nd_children := cs\<rparr>)" "path_parts (tr_nodes t') i = path_parts (tr_nodes t) i"
      using assms(2) n(1) unfolding extends_def by blast
    then show ?thesis using n by (simp add: dir_at_def)
  qed
  then show "(\<exists>n. hm_get (tr_nodes t') i = Some n \<and> nd_kind n = Dir) \<and> path_parts (tr_nodes t') i = Some (split_on CHR ''/'' a)"
    by (simp add: dir_at_def)
qed

text \<open>The inodes of the files.\<close>

definition file_inodes :: "(ino, node) hashmap \<Rightarrow> ino set" where
  "file_inodes m = {i. \<exists>n. hm_get m i = Some n \<and> nd_kind n = File}"

lemma file_inodes_below: "tree_ok m nxt \<Longrightarrow> i \<in> file_inodes m \<Longrightarrow> i < nxt"
  using tree_ok_below unfolding file_inodes_def by blast

lemma add_node_files:
  assumes "extends m m'" "hm_get m' nxt = Some n" "hm_get m nxt = None"
    and "\<And>i k. hm_get m' i = Some k \<Longrightarrow> i \<noteq> nxt \<Longrightarrow> \<exists>cs. hm_get m i = Some (k\<lparr>nd_children := cs\<rparr>)"
  shows "file_inodes m' = (if nd_kind n = File then insert nxt (file_inodes m) else file_inodes m)"
proof -
  have "i \<in> file_inodes m' \<longleftrightarrow> i \<in> file_inodes m" if "i \<noteq> nxt" for i
  proof
    assume "i \<in> file_inodes m'"
    then show "i \<in> file_inodes m" using assms(4) that by (fastforce simp: file_inodes_def)
  next
    assume "i \<in> file_inodes m"
    then show "i \<in> file_inodes m'" using assms(1) by (fastforce simp: file_inodes_def extends_def)
  qed
  moreover have "nxt \<in> file_inodes m' \<longleftrightarrow> nd_kind n = File" "nxt \<notin> file_inodes m"
    using assms(2,3) by (simp_all add: file_inodes_def)
  ultimately show ?thesis by (simp add: set_eq_iff) metis
qed

lemma add_node_at:
  assumes "tree_ok (tr_nodes t) (tr_next t)" "dir_at t (nd_parent n) pps" "nd_children n = []"
  shows "\<exists>m'. add_node (tr_next t) n (tr_nodes t) = Ok m' \<and> tree_ok m' (tr_next t + 1) \<and> extends (tr_nodes t) m' \<and>
     hm_get m' (tr_next t) = Some n \<and> path_parts m' (tr_next t) = Some (pps @ [nd_name n]) \<and>
     file_inodes m' = (if nd_kind n = File then insert (tr_next t) (file_inodes (tr_nodes t)) else file_inodes (tr_nodes t))"
proof -
  obtain p where p: "hm_get (tr_nodes t) (nd_parent n) = Some p" "nd_kind p = Dir"
      "path_parts (tr_nodes t) (nd_parent n) = Some pps"
    using assms(2) by (auto simp: dir_at_def)
  show ?thesis
    by (rule add_node_extends [OF assms(1) p(1,2) assms(3)]) (use p(3) add_node_files tree_ok_fresh [OF assms(1)] in auto)
qed

text \<open>One catalog path: the walk creates what is missing and one file at the end of the path.\<close>

lemma add_comps_leaf:
  assumes "tree_ok (tr_nodes t) (tr_next t)" "dirs_ok t" "dir_at t parent pps"
  shows "\<exists>t' f n. add_comps fh sz [c] parent acc t = Ok t' \<and>
     tree_ok (tr_nodes t') (tr_next t') \<and> dirs_ok t' \<and> extends (tr_nodes t) (tr_nodes t') \<and>
     tr_next t \<le> f \<and> hm_get (tr_nodes t') f = Some n \<and> nd_kind n = File \<and> nd_file_hash n = Some fh \<and> nd_size n = sz \<and>
     path_parts (tr_nodes t') f = Some (pps @ [c]) \<and> file_inodes (tr_nodes t') = insert f (file_inodes (tr_nodes t))"
proof -
  let ?n = "\<lparr>nd_name = c, nd_kind = File, nd_parent = parent, nd_children = [], nd_file_hash = Some fh, nd_size = sz\<rparr>"
  obtain m' where m': "add_node (tr_next t) ?n (tr_nodes t) = Ok m'" "tree_ok m' (tr_next t + 1)" "extends (tr_nodes t) m'"
    "hm_get m' (tr_next t) = Some ?n" "path_parts m' (tr_next t) = Some (pps @ [c])"
    "file_inodes m' = insert (tr_next t) (file_inodes (tr_nodes t))"
    using add_node_at [OF assms(1), of ?n pps] assms(3) by auto
  let ?t = "t\<lparr>tr_nodes := m', tr_next := tr_next t + 1\<rparr>"
  have "dirs_ok ?t" by (rule dirs_ok_extend [OF assms(2)]) (use m'(3) in auto)
  then show ?thesis
    using m' by (intro exI [of _ ?t] exI [of _ "tr_next t"] exI [of _ ?n]) simp
qed

text \<open>A missing directory is created under its parent and entered under its full path.\<close>

lemma add_dir:
  assumes "tree_ok (tr_nodes t) (tr_next t)" "dirs_ok t" "dir_at t parent pps" "split_on CHR ''/'' a = pps @ [c]"
  obtains m' where
    "add_node (tr_next t) \<lparr>nd_name = c, nd_kind = Dir, nd_parent = parent, nd_children = [], nd_file_hash = None, nd_size = 0\<rparr>
       (tr_nodes t) = Ok m'"
    "tree_ok m' (tr_next t + 1)" "extends (tr_nodes t) m'" "file_inodes m' = file_inodes (tr_nodes t)"
    "dir_at (t\<lparr>tr_nodes := m', tr_dirs := hm_insert a (tr_next t) (tr_dirs t), tr_next := tr_next t + 1\<rparr>) (tr_next t) (pps @ [c])"
    "dirs_ok (t\<lparr>tr_nodes := m', tr_dirs := hm_insert a (tr_next t) (tr_dirs t), tr_next := tr_next t + 1\<rparr>)"
proof -
  let ?n = "\<lparr>nd_name = c, nd_kind = Dir, nd_parent = parent, nd_children = [], nd_file_hash = None, nd_size = 0\<rparr>"
  obtain m' where m': "add_node (tr_next t) ?n (tr_nodes t) = Ok m'" "tree_ok m' (tr_next t + 1)" "extends (tr_nodes t) m'"
    "hm_get m' (tr_next t) = Some ?n" "path_parts m' (tr_next t) = Some (pps @ [c])"
    "file_inodes m' = file_inodes (tr_nodes t)"
    using add_node_at [OF assms(1), of ?n pps] assms(3) by auto
  let ?t = "t\<lparr>tr_nodes := m', tr_dirs := hm_insert a (tr_next t) (tr_dirs t), tr_next := tr_next t + 1\<rparr>"
  have d: "dir_at ?t (tr_next t) (pps @ [c])" using m'(4,5) by (simp add: dir_at_def)
  have "dirs_ok ?t"
    by (rule dirs_ok_extend [OF assms(2)]) (use m'(3) d assms(4) in \<open>auto split: if_splits\<close>)
  then show thesis using that m' d by blast
qed

lemma add_comps_spec:
  assumes "tree_ok (tr_nodes t) (tr_next t)" "dirs_ok t" "dir_at t parent pps" "slash_free (pps @ cnames)"
    and "cnames \<noteq> []" "pps = [] \<Longrightarrow> hd cnames \<noteq> []" "pps \<noteq> [] \<Longrightarrow> join ''/'' pps \<noteq> []"
  shows "\<exists>t' f n. add_comps fh sz cnames parent (join ''/'' pps) t = Ok t' \<and>
     tree_ok (tr_nodes t') (tr_next t') \<and> dirs_ok t' \<and> extends (tr_nodes t) (tr_nodes t') \<and>
     tr_next t \<le> f \<and> hm_get (tr_nodes t') f = Some n \<and> nd_kind n = File \<and> nd_file_hash n = Some fh \<and> nd_size n = sz \<and>
     path_parts (tr_nodes t') f = Some (pps @ cnames) \<and> file_inodes (tr_nodes t') = insert f (file_inodes (tr_nodes t))"
  using assms
proof (induction cnames arbitrary: parent pps t)
  case Nil
  then show ?case by simp
next
  case (Cons c cs)
  let ?a = "join ''/'' (pps @ [c])"
  have acc: "(if join ''/'' pps \<noteq> [] then join ''/'' pps @ ''/'' else join ''/'' pps) @ c = ?a"
    using Cons.prems(7) by (cases "pps = []") (auto simp: join_snoc)
  have a_ne: "?a \<noteq> []" using Cons.prems(6) by (auto simp: join_snoc)
  have a_split: "split_on CHR ''/'' ?a = pps @ [c]"
    using Cons.prems(4) by (intro split_on_join) auto
  show ?case
  proof (cases "cs = []")
    case True
    then show ?thesis using add_comps_leaf [OF Cons.prems(1-3)] by blast
  next
    case False
    show ?thesis
    proof (cases "hm_get (tr_dirs t) ?a")
      case (Some i)
      then have "dir_at t i (pps @ [c])" using Cons.prems(2) a_split by (auto simp: dirs_ok_def dir_at_def)
      from Cons.IH [OF Cons.prems(1,2) this] Cons.prems(4) False a_ne
      show ?thesis using Some False acc by (simp add: Let_def)
    next
      case None
      obtain m' where m':
        "add_node (tr_next t) \<lparr>nd_name = c, nd_kind = Dir, nd_parent = parent, nd_children = [], nd_file_hash = None, nd_size = 0\<rparr>
           (tr_nodes t) = Ok m'"
        "tree_ok m' (tr_next t + 1)" "extends (tr_nodes t) m'" "file_inodes m' = file_inodes (tr_nodes t)"
        and d: "dir_at (t\<lparr>tr_nodes := m', tr_dirs := hm_insert ?a (tr_next t) (tr_dirs t), tr_next := tr_next t + 1\<rparr>) (tr_next t)
          (pps @ [c])"
        and ds: "dirs_ok (t\<lparr>tr_nodes := m', tr_dirs := hm_insert ?a (tr_next t) (tr_dirs t), tr_next := tr_next t + 1\<rparr>)"
        by (rule add_dir [OF Cons.prems(1-3) a_split])
      let ?t = "t\<lparr>tr_nodes := m', tr_dirs := hm_insert ?a (tr_next t) (tr_dirs t), tr_next := tr_next t + 1\<rparr>"
      from Cons.IH [OF _ ds d] m'(2) Cons.prems(4) False a_ne obtain t' f n where
        t': "add_comps fh sz cs (tr_next t) ?a ?t = Ok t'" "tree_ok (tr_nodes t') (tr_next t')" "dirs_ok t'"
          "extends m' (tr_nodes t')" "Suc (tr_next t) \<le> f" "hm_get (tr_nodes t') f = Some n" "nd_kind n = File"
          "nd_file_hash n = Some fh" "nd_size n = sz" "path_parts (tr_nodes t') f = Some (pps @ c # cs)"
          "file_inodes (tr_nodes t') = insert f (file_inodes (tr_nodes t))"
        by (auto simp: m'(4))
      moreover have "add_comps fh sz (c # cs) parent (join ''/'' pps) t = Ok t'"
        using None False acc m'(1) t'(1) by (simp add: Let_def)
      ultimately show ?thesis using extends_trans [OF m'(3)] by (metis Suc_leD)
    qed
  qed
qed

lemma empty_tree_ok: "tree_ok (tr_nodes empty_tree) (tr_next empty_tree)" "dirs_ok empty_tree"
  by (auto simp: tree_ok_def dirs_ok_def empty_tree_def ROOT_def hm_ok_def)

text \<open>The path of a catalog entry, as the tree stores it.\<close>

definition entry_path :: "json \<Rightarrow> string" where
  "entry_path e = trim_start_matches CHR ''/'' (str_or_empty (jget e ''path''))"

definition entry_size :: "json \<Rightarrow> u64" where
  "entry_size e = (case as_u64 (jget e ''size'') of None \<Rightarrow> 0 | Some n \<Rightarrow> n)"

text \<open>A file node for an entry: its path, hash and size.\<close>

definition file_for :: "(ino, node) hashmap \<Rightarrow> json \<Rightarrow> ino \<Rightarrow> bool" where
  "file_for m e f \<longleftrightarrow> (\<exists>n. hm_get m f = Some n \<and> nd_kind n = File \<and>
     nd_file_hash n = Some (str_or_empty (jget e ''file_hash'')) \<and> nd_size n = entry_size e \<and>
     path_parts m f = Some (split_on CHR ''/'' (entry_path e)))"

lemma file_for_extends:
  assumes "file_for m e f" "extends m m'"
  shows "file_for m' e f"
proof -
  obtain n where n: "hm_get m f = Some n" "nd_kind n = File" "nd_file_hash n = Some (str_or_empty (jget e ''file_hash''))"
      "nd_size n = entry_size e" "path_parts m f = Some (split_on CHR ''/'' (entry_path e))"
    using assms(1) unfolding file_for_def by blast
  obtain cs where "hm_get m' f = Some (n\<lparr>nd_children := cs\<rparr>)" "path_parts m' f = path_parts m f"
    using assms(2) n(1) unfolding extends_def by blast
  then show ?thesis using n by (simp add: file_for_def)
qed

lemma trim_start_hd: "trim_start_matches c s \<noteq> [] \<Longrightarrow> hd (trim_start_matches c s) \<noteq> c"
  using hd_dropWhile [of "\<lambda>x. x = c" s] by (simp add: trim_start_matches_def)

lemma hd_split_on: "s \<noteq> [] \<Longrightarrow> hd s \<noteq> c \<Longrightarrow> hd (split_on c s) \<noteq> []"
  by (cases s) (auto split: list.splits)

lemma hd_split_entry: "entry_path e \<noteq> [] \<Longrightarrow> hd (split_on CHR ''/'' (entry_path e)) \<noteq> []"
  unfolding entry_path_def by (intro hd_split_on trim_start_hd)

lemma add_entry_spec:
  assumes "tree_ok (tr_nodes t) (tr_next t)" "dirs_ok t" "entry_path e \<noteq> []"
  shows "\<exists>t' f. add_entry e t = Ok t' \<and> tree_ok (tr_nodes t') (tr_next t') \<and> dirs_ok t' \<and> extends (tr_nodes t) (tr_nodes t') \<and>
     file_for (tr_nodes t') e f \<and> tr_next t \<le> f \<and> file_inodes (tr_nodes t') = insert f (file_inodes (tr_nodes t))"
proof -
  have root: "dir_at t ROOT []" using tree_ok_root [OF assms(1)] by (auto simp: dir_at_def)
  have sf: "slash_free ([] @ split_on CHR ''/'' (entry_path e))" using split_on_no_sep_inside by auto
  have run: "add_entry e t = add_comps (str_or_empty (jget e ''file_hash'')) (entry_size e)
      (split_on CHR ''/'' (entry_path e)) ROOT [] t"
    using assms(3) by (simp add: add_entry_def entry_path_def entry_size_def Let_def)
  show ?thesis
    using add_comps_spec [OF assms(1,2) root sf, of "str_or_empty (jget e ''file_hash'')" "entry_size e"]
      hd_split_entry [OF assms(3)] unfolding run file_for_def by fastforce
qed

text \<open>The files that the entries add are in the order of the entries, one for each that has a path.\<close>

lemma add_entries_spec:
  assumes "tree_ok (tr_nodes t) (tr_next t)" "dirs_ok t"
  shows "\<exists>t' fs. add_entries es t = Ok t' \<and> tree_ok (tr_nodes t') (tr_next t') \<and> extends (tr_nodes t) (tr_nodes t') \<and>
     list_all2 (file_for (tr_nodes t')) (filter (\<lambda>e. entry_path e \<noteq> []) es) fs \<and> distinct fs \<and> (\<forall>f \<in> set fs. tr_next t \<le> f) \<and>
     file_inodes (tr_nodes t') = set fs \<union> file_inodes (tr_nodes t)"
  using assms
proof (induction es arbitrary: t)
  case Nil
  then show ?case by (intro exI [of _ t] exI [of _ "[]"]) simp
next
  case (Cons e es)
  show ?case
  proof (cases "entry_path e = []")
    case True
    then have "add_entry e t = Ok t" by (simp add: add_entry_def entry_path_def)
    then show ?thesis using Cons True by simp
  next
    case False
    obtain t1 f where t1: "add_entry e t = Ok t1" "tree_ok (tr_nodes t1) (tr_next t1)" "dirs_ok t1" "extends (tr_nodes t) (tr_nodes t1)"
        "file_for (tr_nodes t1) e f" "tr_next t \<le> f" "file_inodes (tr_nodes t1) = insert f (file_inodes (tr_nodes t))"
      using add_entry_spec [OF Cons.prems False] by blast
    obtain t' fs where t': "add_entries es t1 = Ok t'" "tree_ok (tr_nodes t') (tr_next t')" "extends (tr_nodes t1) (tr_nodes t')"
        "list_all2 (file_for (tr_nodes t')) (filter (\<lambda>e. entry_path e \<noteq> []) es) fs" "distinct fs" "\<forall>f \<in> set fs. tr_next t1 \<le> f"
        "file_inodes (tr_nodes t') = set fs \<union> file_inodes (tr_nodes t1)"
      using Cons.IH [OF t1(2,3)] by blast
    have "f < tr_next t1" using file_inodes_below [OF t1(2)] t1(7) by simp
    then have "distinct (f # fs)" "\<forall>g \<in> set (f # fs). tr_next t \<le> g" using t'(5,6) t1(6) by fastforce+
    then show ?thesis
      using t1(1,7) t'(1,2,4,7) extends_trans [OF t1(4) t'(3)] file_for_extends [OF t1(5) t'(3)] False
      by (intro exI [of _ t'] exI [of _ "f # fs"]) simp
  qed
qed

text \<open>
  Mounting a volume: whatever catalog the server sends, building the inode tree does not fail, the result is a
  well-formed tree, and its file nodes are exactly one for each entry with a non-empty path, with the entry's hash
  and size, at the full path that is a slash followed by the entry's path without its leading slashes.
\<close>

theorem connect_builds_tree:
  assumes "fetch_entries E base volume w = (Ok es, w1)"
  shows "\<exists>x fs. connect E uid gid base volume w = (Ok x, w1) \<and> tree_ok (xf_nodes x) (xf_next x) \<and>
     xf_open_files x = [] \<and> xf_cache x = [] \<and> distinct fs \<and>
     set fs = {i. \<exists>n. hm_get (xf_nodes x) i = Some n \<and> nd_kind n = File} \<and>
     list_all2 (\<lambda>e f. (\<exists>n. hm_get (xf_nodes x) f = Some n \<and> nd_file_hash n = Some (str_or_empty (jget e ''file_hash'')) \<and>
          nd_size n = entry_size e) \<and> full_path x f = Some (''/'' @ entry_path e))
       (filter (\<lambda>e. entry_path e \<noteq> []) es) fs"
proof -
  obtain t fs where t: "add_entries es empty_tree = Ok t" "tree_ok (tr_nodes t) (tr_next t)" "distinct fs"
      "list_all2 (file_for (tr_nodes t)) (filter (\<lambda>e. entry_path e \<noteq> []) es) fs"
      "file_inodes (tr_nodes t) = set fs \<union> file_inodes (tr_nodes empty_tree)"
    using add_entries_spec [OF empty_tree_ok] by blast
  define x where "x = \<lparr>xf_base_url = base, xf_volume = volume, xf_nodes = tr_nodes t, xf_open_files = [],
     xf_cache = [], xf_next = tr_next t, xf_uid = uid, xf_gid = gid\<rparr>"
  have run: "connect E uid gid base volume w = (Ok x, w1)"
    using assms t(1) by (simp add: connect_def x_def)
  have files: "set fs = {i. \<exists>n. hm_get (xf_nodes x) i = Some n \<and> nd_kind n = File}"
    using t(5) by (auto simp: file_inodes_def x_def empty_tree_def)
  have "list_all2 (\<lambda>e f. (\<exists>n. hm_get (xf_nodes x) f = Some n \<and> nd_file_hash n = Some (str_or_empty (jget e ''file_hash'')) \<and>
       nd_size n = entry_size e) \<and> full_path x f = Some (''/'' @ entry_path e)) (filter (\<lambda>e. entry_path e \<noteq> []) es) fs"
    using t(4) by (rule list_all2_mono) (auto simp: file_for_def full_path_def x_def join_split_on)
  then show ?thesis using run files t(2,3) by (intro exI [of _ x] exI [of _ fs]) (simp add: x_def)
qed

definition sample_entry :: json where
  "sample_entry = JObj [(''path'', JStr ''/docs/a.txt''), (''file_hash'', JStr ''ff''), (''size'', JNum 3)]"

definition sample_env :: "nat env" where
  "sample_env = \<lparr>en_tok = None, en_send = (\<lambda>q n. (Ok \<lparr>tp_status = 200, tp_status_text = ''200 OK'',
      tp_json = Ok (JArr [sample_entry, sample_entry]), tp_bytes = Err []\<rparr>, n)), en_ovf = True, en_fork = sample_fork\<rparr>"

text \<open>The sample catalog lists the same path twice: two file nodes.\<close>

theorem connect_builds_tree_witness:
  "\<exists>x f g. connect sample_env 0 0 ''http://h'' ''vol'' 0 = (Ok x, 0) \<and> f \<noteq> g \<and>
     full_path x f = Some ''/docs/a.txt'' \<and> full_path x g = Some ''/docs/a.txt''"
proof -
  have f: "fetch_entries sample_env ''http://h'' ''vol'' 0 = (Ok [sample_entry, sample_entry], 0)"
    by (simp add: fetch_entries_def sample_env_def)
  have e: "entry_path sample_entry = ''docs/a.txt''"
    by (simp add: entry_path_def sample_entry_def str_or_empty_def trim_start_matches_def)
  have two: "filter (\<lambda>e. entry_path e \<noteq> []) [sample_entry, sample_entry] = [sample_entry, sample_entry]" by (simp add: e)
  obtain x fs where x: "connect sample_env 0 0 ''http://h'' ''vol'' 0 = (Ok x, 0)" "distinct fs"
      "list_all2 (\<lambda>e f. (\<exists>n. hm_get (xf_nodes x) f = Some n \<and> nd_file_hash n = Some (str_or_empty (jget e ''file_hash'')) \<and>
          nd_size n = entry_size e) \<and> full_path x f = Some (''/'' @ entry_path e)) [sample_entry, sample_entry] fs"
    using connect_builds_tree [OF f, of 0 0] unfolding two by blast
  have "list_all2 (\<lambda>e f. full_path x f = Some (''/'' @ entry_path e)) [sample_entry, sample_entry] fs"
    using x(3) by (rule list_all2_mono) simp
  then obtain f g where "fs = [f, g]" "full_path x f = Some ''/docs/a.txt''" "full_path x g = Some ''/docs/a.txt''"
    by (auto simp: list_all2_Cons1 e)
  then show ?thesis using x(1,2) by (intro exI [of _ x] exI [of _ f] exI [of _ g]) simp
qed

end
