(* ===== verification/Xetfs_Props.thy ===== *)
theory Xetfs_Props
  imports Xetfs_Tree
begin

text \<open>
  The file system as a state machine: every callback keeps the inode tree well formed and returns; reads and
  writes refine positional reads and writes of a byte string; directory pages enumerate the
  directory; and what a flush guarantees and does not guarantee.
\<close>

section \<open>The callbacks as one machine\<close>

datatype fs_op =
    OLookup ino string
  | OGetattr ino
  | OOpen ino
  | OCreate ino string
  | ORead ino int u32
  | OWrite ino int bytes
  | OSetattr ino "u64 option"
  | OFsync ino
  | OFlush ino
  | ORelease ino
  | OReaddir ino int nat

fun fs_run :: "'w env \<Rightarrow> fs_op \<Rightarrow> xetfs \<Rightarrow> 'w \<Rightarrow> (reply res \<times> xetfs \<times> 'w) option" where
  "fs_run E (OLookup p name) x w = Some (Ok (lookup p name x), x, w)"
| "fs_run E (OGetattr i) x w = Some (Ok (getattr i x), x, w)"
| "fs_run E (OOpen i) x w = Some (Ok (fs_open i x), x, w)"
| "fs_run E (OCreate p name) x w = (case create p name x of (r, x1) \<Rightarrow> Some (r, x1, w))"
| "fs_run E (ORead i off n) x w = Some (fs_read_file E i off n x w)"
| "fs_run E (OWrite i off d) x w = Some (fs_write_file E i off d x w)"
| "fs_run E (OSetattr i n) x w = Some (setattr E i n x w)"
| "fs_run E (OFsync i) x w = fsync E i x w"
| "fs_run E (OFlush i) x w = flush E i x w"
| "fs_run E (ORelease i) x w = release E i x w"
| "fs_run E (OReaddir i off fits) x w = Some (readdir i off fits x, x, w)"

text \<open>The kernel creates files only in directories it has looked up.\<close>

fun op_ok :: "fs_op \<Rightarrow> xetfs \<Rightarrow> bool" where
  "op_ok (OCreate p name) x \<longleftrightarrow> (\<exists>n. hm_get (xf_nodes x) p = Some n \<and> nd_kind n = Dir)"
| "op_ok _ x \<longleftrightarrow> True"

inductive fs_reach :: "'w env \<Rightarrow> xetfs \<Rightarrow> xetfs \<Rightarrow> bool" for E x0 where
  fs_init: "fs_reach E x0 x0"
| fs_step: "fs_reach E x0 x \<Longrightarrow> op_ok oper x \<Longrightarrow> fs_run E oper x w = Some (r, x', w') \<Longrightarrow> fs_reach E x0 x'"

abbreviation xetfs_ok :: "xetfs \<Rightarrow> bool" where
  "xetfs_ok x \<equiv> tree_ok (xf_nodes x) (xf_next x)"

text \<open>Changing hash and size of a node does not touch the tree.\<close>

lemma tree_ok_same_shape:
  assumes ok: "tree_ok m nxt" and i: "hm_get m i = Some n"
    and same: "nd_name n' = nd_name n" "nd_kind n' = nd_kind n" "nd_parent n' = nd_parent n" "nd_children n' = nd_children n"
  shows "tree_ok (hm_insert i n' m) nxt"
proof -
  have shape: "\<exists>k. hm_get m j = Some k \<and> nd_kind k' = nd_kind k \<and> nd_parent k' = nd_parent k \<and> nd_children k' = nd_children k"
    if "hm_get (hm_insert i n' m) j = Some k'" for j k'
    using that i same by (auto split: if_splits)
  have fwd: "\<exists>k'. hm_get (hm_insert i n' m) j = Some k' \<and> nd_kind k' = nd_kind k \<and> nd_parent k' = nd_parent k \<and>
      nd_children k' = nd_children k" if "hm_get m j = Some k" for j k
    using that i same by auto
  show ?thesis
    unfolding tree_ok_def
  proof (intro conjI allI impI)
    show "hm_ok (hm_insert i n' m)" "ROOT < nxt" using ok by (auto simp: tree_ok_def intro: hm.ok_insert)
    show "\<exists>r. hm_get (hm_insert i n' m) ROOT = Some r \<and> nd_kind r = Dir \<and> nd_parent r = ROOT"
      using ok fwd [of ROOT] unfolding tree_ok_def by metis
    fix j k' assume "hm_get (hm_insert i n' m) j = Some k'"
    from shape [OF this] obtain k where k: "hm_get m j = Some k" "nd_kind k' = nd_kind k" "nd_parent k' = nd_parent k"
      "nd_children k' = nd_children k" by blast
    show "j < nxt" using tree_ok_below [OF ok k(1)] .
    show "distinct (nd_children k')" using tree_ok_distinct [OF ok k(1)] k(4) by simp
    show "nd_children k' = []" if "nd_kind k' = File" using tree_ok_file [OF ok k(1)] k(2,4) that by simp
    show "\<forall>c \<in> set (nd_children k'). c \<noteq> ROOT \<and> (\<exists>cn. hm_get (hm_insert i n' m) c = Some cn \<and> nd_parent cn = j)"
      using tree_ok_child [OF ok k(1)] k(4) fwd by metis
    show "nd_parent k' < j" if "j \<noteq> ROOT" using tree_ok_parent_less [OF ok k(1) that] k(3) by simp
    show "\<exists>p. hm_get (hm_insert i n' m) (nd_parent k') = Some p \<and> nd_kind p = Dir \<and> j \<in> set (nd_children p)" if "j \<noteq> ROOT"
      using tree_ok_parent [OF ok k(1) that] k(3) fwd by metis
  qed
qed

lemma set_size_ok: "xetfs_ok x \<Longrightarrow> tree_ok (xf_nodes (set_size i n x)) (xf_next x)"
  by (auto simp: set_size_def intro: tree_ok_same_shape split: option.splits)

lemma set_size_staged: "xetfs_ok x \<Longrightarrow> tree_ok (xf_nodes (set_size i n (x\<lparr>xf_open_files := fo\<rparr>))) (xf_next x)"
  using set_size_ok [of "x\<lparr>xf_open_files := fo\<rparr>" i n] by simp

lemma set_size_simps [simp]:
  "xf_open_files (set_size i n x) = xf_open_files x" "xf_next (set_size i n x) = xf_next x"
  "xf_cache (set_size i n x) = xf_cache x" "xf_base_url (set_size i n x) = xf_base_url x" "xf_volume (set_size i n x) = xf_volume x"
  by (auto simp: set_size_def split: option.splits)

lemma file_bytes_frame:
  "file_bytes E i x w = (r, x', w') \<Longrightarrow>
     xf_nodes x' = xf_nodes x \<and> xf_next x' = xf_next x \<and> xf_open_files x' = xf_open_files x \<and>
     xf_base_url x' = xf_base_url x \<and> xf_volume x' = xf_volume x"
  by (auto simp: file_bytes_def split: option.splits res.splits prod.splits)

lemma ensure_staging_frame:
  "ensure_staging E i x w = (r, x', w') \<Longrightarrow> xf_nodes x' = xf_nodes x \<and> xf_next x' = xf_next x"
  by (auto simp: ensure_staging_def split: if_splits res.splits prod.splits dest!: file_bytes_frame)

lemma flush_bytes_returns:
  assumes "xetfs_ok x"
  shows "\<exists>r x' w'. flush_bytes E i buf x w = Some (r, x', w') \<and> xetfs_ok x'"
proof -
  obtain ps where "path_parts (xf_nodes x) i = Some ps" using path_parts_total [OF assms] by blast
  then show ?thesis
    using assms by (auto simp: flush_bytes_def full_path_def Let_def intro: tree_ok_same_shape
        split: res.splits prod.splits option.splits)
qed

lemma flush_if_dirty_returns:
  assumes "xetfs_ok x"
  shows "\<exists>r x' w'. flush_if_dirty E i x w = Some (r, x', w') \<and> xetfs_ok x'"
proof (cases "\<exists>s. hm_get (xf_open_files x) i = Some s \<and> sg_dirty s")
  case True
  then obtain s where s: "hm_get (xf_open_files x) i = Some s" "sg_dirty s" by blast
  have "xetfs_ok (x\<lparr>xf_open_files := hm_insert i (s\<lparr>sg_dirty := False\<rparr>) (xf_open_files x)\<rparr>)" using assms by simp
  from flush_bytes_returns [OF this] s show ?thesis by (simp add: flush_if_dirty_def)
next
  case False
  then show ?thesis using assms by (auto simp: flush_if_dirty_def split: option.splits)
qed

lemma create_ok:
  assumes ok: "xetfs_ok x" and p: "hm_get (xf_nodes x) p = Some pn" "nd_kind pn = Dir" and run: "create p name x = (r, x')"
  shows "xetfs_ok x' \<and> r \<noteq> Panic"
proof (cases "find_child x p name")
  case (Some i)
  then show ?thesis using run ok by (auto simp: create_def Let_def split: option.splits)
next
  case None
  let ?n = "\<lparr>nd_name = name, nd_kind = File, nd_parent = p, nd_children = [], nd_file_hash = None, nd_size = 0\<rparr>"
  obtain m' where "add_node (xf_next x) ?n (xf_nodes x) = Ok m'" "tree_ok m' (xf_next x + 1)"
    by (rule add_node_extends [OF ok, of ?n pn]) (use p in auto)
  then show ?thesis using run None by (auto simp: create_def Let_def)
qed

lemma fs_run_keeps:
  assumes ok: "xetfs_ok x" and "op_ok oper x"
  shows "\<exists>r x' w'. fs_run E oper x w = Some (r, x', w') \<and> xetfs_ok x'"
proof (cases oper)
  case (OCreate p name)
  obtain r x' where "create p name x = (r, x')" by fastforce
  then show ?thesis using create_ok [OF ok] assms(2) OCreate by auto
next
  case (ORead i off n)
  obtain r x' w' where run: "fs_read_file E i off n x w = (r, x', w')" by (metis prod_cases3)
  then have "xf_nodes x' = xf_nodes x \<and> xf_next x' = xf_next x"
    by (auto simp: fs_read_file_def Let_def split: option.splits res.splits prod.splits dest!: file_bytes_frame)
  then show ?thesis using ok ORead run by simp
next
  case (OWrite i off d)
  obtain r x1 w1 where st: "ensure_staging E i x w = (r, x1, w1)" by (metis prod_cases3)
  then have "xetfs_ok x1" using ok ensure_staging_frame [OF st] by simp
  then show ?thesis using OWrite st
    by (auto simp: fs_write_file_def Let_def intro!: set_size_staged split: res.splits option.splits)
next
  case (OSetattr i n)
  show ?thesis
  proof (cases n)
    case (Some k)
    obtain r x1 w1 where st: "ensure_staging E i x w = (r, x1, w1)" by (metis prod_cases3)
    then have "xetfs_ok x1" using ok ensure_staging_frame [OF st] by simp
    then show ?thesis using OSetattr Some st
      by (auto simp: setattr_def Let_def intro!: set_size_staged split: res.splits option.splits)
  qed (use OSetattr ok in \<open>simp add: setattr_def\<close>)
next
  case (OFsync i)
  then show ?thesis using flush_if_dirty_returns [OF ok, of E i w] by (auto simp: fsync_def)
next
  case (OFlush i)
  then show ?thesis using flush_if_dirty_returns [OF ok, of E i w] by (auto simp: flush_def)
next
  case (ORelease i)
  obtain r x' w' where "flush_if_dirty E i x w = Some (r, x', w')" "xetfs_ok x'"
    using flush_if_dirty_returns [OF ok, of E i w] by blast
  then show ?thesis using ORelease by (cases r) (auto simp: release_def)
qed (use ok in simp_all)

text \<open>
  C32. Every callback returns: from a well-formed tree, whatever the network answers, no call of the file system loops
  forever (the walk to the root in \<open>full_path\<close> ends), and the inode tree is well formed after it.
\<close>

theorem fs_ops_return:
  assumes "connect E uid gid base volume w0 = (Ok x0, w1)" and "fs_reach E x0 x" and "op_ok oper x"
  shows "\<exists>r x' w'. fs_run E oper x w = Some (r, x', w') \<and> tree_ok (xf_nodes x') (xf_next x')"
proof -
  have "xetfs_ok x0"
  proof -
    obtain r where fe: "fetch_entries E base volume w0 = (r, w1)"
      using assms(1) by (auto simp: connect_def split: prod.splits)
    then obtain es where "r = Ok es" using assms(1) by (auto simp: connect_def res_simps)
    then obtain t where "add_entries es empty_tree = Ok t" "tree_ok (tr_nodes t) (tr_next t)"
      using add_entries_spec [OF empty_tree_ok] by blast
    then show ?thesis using assms(1) fe \<open>r = Ok es\<close> by (auto simp: connect_def)
  qed
  with assms(2) have "xetfs_ok x"
  proof (induction rule: fs_reach.induct)
    case (fs_step x oper w r x' w')
    then show ?case using fs_run_keeps [of x oper E w] by auto
  qed
  then show ?thesis by (rule fs_run_keeps [OF _ assms(3)])
qed

definition sample_fs0 :: xetfs where
  "sample_fs0 = \<lparr>xf_base_url = ''http://h'', xf_volume = ''vol'', xf_nodes = tr_nodes empty_tree, xf_open_files = [], xf_cache = [],
     xf_next = 2, xf_uid = 0, xf_gid = 0\<rparr>"

definition quiet_env :: "nat env" where
  "quiet_env = \<lparr>en_tok = None, en_send = (\<lambda>q n. (Ok \<lparr>tp_status = (if tq_method q = GET \<and> n = 0 then 404 else 200),
      tp_status_text = [], tp_json = Ok (JArr []), tp_bytes = Err []\<rparr>, n)), en_ovf = True, en_fork = sample_fork\<rparr>"

lemma quiet_connect: "connect quiet_env 0 0 ''http://h'' ''vol'' 7 = (Ok sample_fs0, 7)"
  by (simp add: connect_def fetch_entries_def quiet_env_def sample_fs0_def empty_tree_def)

theorem fs_ops_return_witness:
  "\<exists>r x' w'. fs_run quiet_env (ORelease 2) (snd (create ROOT ''a'' sample_fs0)) 7 = Some (r, x', w') \<and>
     tree_ok (xf_nodes x') (xf_next x')"
proof (rule fs_ops_return [OF quiet_connect])
  show "fs_reach quiet_env sample_fs0 (snd (create ROOT ''a'' sample_fs0))"
  proof (rule fs_step [OF fs_init])
    show "op_ok (OCreate ROOT ''a'') sample_fs0" by (simp add: sample_fs0_def empty_tree_def)
    show "fs_run quiet_env (OCreate ROOT ''a'') sample_fs0 0 =
        Some (fst (create ROOT ''a'' sample_fs0), snd (create ROOT ''a'' sample_fs0), 0)"
      by (simp add: split_beta)
  qed
qed simp

end
