(* ===== verification/Xetfs_Files.thy ===== *)
theory Xetfs_Files
  imports Xetfs_Props
begin

text \<open>
  Files of the mounted volume: reads, writes and truncation of a file refine the operations on byte strings of
  \<open>Staging_Buffer\<close>, over whole sequences of callbacks; directory pages enumerate the directory; what
  creating, flushing and releasing a file does, and what is lost when the server refuses.
\<close>

section \<open>Reads and writes\<close>

text \<open>What a file holds at the moment: its staging buffer, or the bytes it would be seeded with.\<close>

definition staged :: "'w env \<Rightarrow> ino \<Rightarrow> xetfs \<Rightarrow> 'w \<Rightarrow> bytes" where
  "staged E i x w =
     (case hm_get (xf_open_files x) i of
        Some s \<Rightarrow> sg_buf s
      | None \<Rightarrow> (case fst (file_bytes E i x w) of Ok (Some b) \<Rightarrow> b | _ \<Rightarrow> []))"

text \<open>The node of a file after its size was set.\<close>

abbreviation resized :: "nat \<Rightarrow> node option \<Rightarrow> node option" where
  "resized k \<equiv> map_option (\<lambda>n. n\<lparr>nd_size := of_nat k\<rparr>)"

lemma nodes_set_size:
  "hm_get (xf_nodes (set_size i n x)) = (hm_get (xf_nodes x))(i := map_option (\<lambda>d. d\<lparr>nd_size := n\<rparr>) (hm_get (xf_nodes x) i))"
  by (auto simp: set_size_def split: option.splits)

lemma file_bytes_no_Err: "file_bytes E i x w \<noteq> (Err e, x', w')"
  by (auto simp: file_bytes_def split: option.splits res.splits prod.splits)

lemma ensure_staging_spec:
  assumes "fst (ensure_staging E i x w) \<noteq> Panic"
  obtains x1 w1 s where "ensure_staging E i x w = (Ok (), x1, w1)" "hm_get (xf_open_files x1) i = Some s" "sg_buf s = staged E i x w"
    "\<And>j. j \<noteq> i \<Longrightarrow> hm_get (xf_open_files x1) j = hm_get (xf_open_files x) j"
    "xf_nodes x1 = xf_nodes x" "xf_next x1 = xf_next x"
proof (cases "hm_get (xf_open_files x) i")
  case (Some s)
  then show thesis by (intro that [of x w s]) (auto simp: ensure_staging_def staged_def)
next
  case None
  obtain r x1 w1 where fb: "file_bytes E i x w = (r, x1, w1)" by (metis prod_cases3)
  then obtain b where "r = Ok b"
    using assms None file_bytes_no_Err [of E i x w] by (cases r) (auto simp: ensure_staging_def domIff)
  then show thesis
    using that [of "x1\<lparr>xf_open_files := hm_insert i \<lparr>sg_buf = (case b of None \<Rightarrow> [] | Some d \<Rightarrow> d), sg_dirty = False\<rparr> (xf_open_files x1)\<rparr>" w1]
      None fb file_bytes_frame [OF fb] by (cases b) (auto simp: ensure_staging_def staged_def domIff)
qed

text \<open>One edit of a staged file, as a function on byte strings.\<close>

lemma write_staged:
  assumes "fst (ensure_staging E i x w) \<noteq> Panic" and "nat (max offset 0) + length d < 2 ^ 63"
  defines "b \<equiv> pwrite (staged E i x w) (nat (max offset 0)) d"
  obtains x' w' where "fs_write_file E i offset d x w = (Ok (RWritten (of_nat (length d))), x', w')"
    "hm_get (xf_open_files x') = (hm_get (xf_open_files x))(i \<mapsto> \<lparr>sg_buf = b, sg_dirty = True\<rparr>)"
    "hm_get (xf_nodes x') = (hm_get (xf_nodes x))(i := resized (length b) (hm_get (xf_nodes x) i))" "xf_next x' = xf_next x"
proof -
  obtain x1 w1 s where st: "ensure_staging E i x w = (Ok (), x1, w1)" "hm_get (xf_open_files x1) i = Some s"
      "sg_buf s = staged E i x w" "\<And>j. j \<noteq> i \<Longrightarrow> hm_get (xf_open_files x1) j = hm_get (xf_open_files x) j"
      "xf_nodes x1 = xf_nodes x" "xf_next x1 = xf_next x"
    using ensure_staging_spec [OF assms(1)] by metis
  have "fs_write_file E i offset d x w = (Ok (RWritten (of_nat (length d))),
      set_size i (of_nat (length b)) (x1\<lparr>xf_open_files := hm_insert i \<lparr>sg_buf = b, sg_dirty = True\<rparr> (xf_open_files x1)\<rparr>), w1)"
    using st(1-3) assms(2) by (simp add: fs_write_file_def buf_write_pwrite b_def Let_def)
  then show thesis using that st(4-6) by (force simp: nodes_set_size)
qed

lemma setattr_staged:
  assumes "fst (ensure_staging E i x w) \<noteq> Panic" and "unat n < 2 ^ 63"
  defines "b \<equiv> ptruncate (staged E i x w) (unat n)"
  obtains x' w' where "setattr E i (Some n) x w = (Ok (attr_reply i x'), x', w')"
    "hm_get (xf_open_files x') = (hm_get (xf_open_files x))(i \<mapsto> \<lparr>sg_buf = b, sg_dirty = True\<rparr>)"
    "hm_get (xf_nodes x') = (hm_get (xf_nodes x))(i := resized (length b) (hm_get (xf_nodes x) i))" "xf_next x' = xf_next x"
proof -
  obtain x1 w1 s where st: "ensure_staging E i x w = (Ok (), x1, w1)" "hm_get (xf_open_files x1) i = Some s"
      "sg_buf s = staged E i x w" "\<And>j. j \<noteq> i \<Longrightarrow> hm_get (xf_open_files x1) j = hm_get (xf_open_files x) j"
      "xf_nodes x1 = xf_nodes x" "xf_next x1 = xf_next x"
    using ensure_staging_spec [OF assms(1)] by metis
  define x' where "x' = set_size i n (x1\<lparr>xf_open_files := hm_insert i \<lparr>sg_buf = b, sg_dirty = True\<rparr> (xf_open_files x1)\<rparr>)"
  have "setattr E i (Some n) x w = (Ok (attr_reply i x'), x', w1)"
    using st(1-3) assms(2) by (simp add: setattr_def vec_resize_ptruncate b_def Let_def x'_def)
  then show thesis using that st(4-6) by (force simp: x'_def nodes_set_size b_def)
qed

lemma read_staged:
  "hm_get (xf_open_files x) i = Some s \<Longrightarrow> length (sg_buf s) < 2 ^ 63 \<Longrightarrow>
     fs_read_file E i offset n x w = (Ok (RData (take (unat n) (drop (nat (max offset 0)) (sg_buf s)))), x, w)"
  by (simp add: fs_read_file_def read_slice_window)

text \<open>
  C34. Reads and writes refine the operations on byte strings: a write on any file, whatever its buffer is seeded with,
  leaves exactly the positional write of those bytes in its staging buffer, sets the size of its node and touches
  no other file; every read after it returns the window of the new contents. A write whose end is
  out of the address space panics.
\<close>

theorem write_refines:
  fixes E :: "'w env" and offset :: int and d :: bytes
  assumes "fst (ensure_staging E i x w) \<noteq> Panic" and "length (staged E i x w) < 2 ^ 63"
  defines "off \<equiv> nat (max offset 0)"
  defines "b \<equiv> pwrite (staged E i x w) off d"
  shows "(off + length d < 2 ^ 63 \<longrightarrow>
      (\<exists>x' w'. fs_write_file E i offset d x w = (Ok (RWritten (of_nat (length d))), x', w') \<and>
         hm_get (xf_open_files x') = (hm_get (xf_open_files x))(i \<mapsto> \<lparr>sg_buf = b, sg_dirty = True\<rparr>) \<and>
         hm_get (xf_nodes x') = (hm_get (xf_nodes x))(i := resized (length b) (hm_get (xf_nodes x) i)) \<and>
         (\<forall>pos n (w'' :: 'w). fs_read_file E i pos n x' w'' =
            (Ok (RData (take (unat n) (drop (nat (max pos 0)) b))), x', w'')))) \<and>
     (2 ^ 63 \<le> off + length d \<longrightarrow> fst (fs_write_file E i offset d x w) = Panic)"
proof (intro conjI impI)
  assume lim: "off + length d < 2 ^ 63"
  obtain x' w' where run: "fs_write_file E i offset d x w = (Ok (RWritten (of_nat (length d))), x', w')"
      "hm_get (xf_open_files x') = (hm_get (xf_open_files x))(i \<mapsto> \<lparr>sg_buf = b, sg_dirty = True\<rparr>)"
      "hm_get (xf_nodes x') = (hm_get (xf_nodes x))(i := resized (length b) (hm_get (xf_nodes x) i))"
    using write_staged [OF assms(1) lim [unfolded off_def]] unfolding b_def off_def by metis
  have len: "length b < 2 ^ 63" using assms(2) lim by (simp add: b_def)
  have "fs_read_file E i pos n x' w'' = (Ok (RData (take (unat n) (drop (nat (max pos 0)) b))), x', w'')" for pos n w''
    using read_staged [of x' i "\<lparr>sg_buf = b, sg_dirty = True\<rparr>" E pos n w''] run(2) len by simp
  with run show "\<exists>x' w'. fs_write_file E i offset d x w = (Ok (RWritten (of_nat (length d))), x', w') \<and>
      hm_get (xf_open_files x') = (hm_get (xf_open_files x))(i \<mapsto> \<lparr>sg_buf = b, sg_dirty = True\<rparr>) \<and>
      hm_get (xf_nodes x') = (hm_get (xf_nodes x))(i := resized (length b) (hm_get (xf_nodes x) i)) \<and>
      (\<forall>pos n (w'' :: 'w). fs_read_file E i pos n x' w'' = (Ok (RData (take (unat n) (drop (nat (max pos 0)) b))), x', w''))"
    by blast
next
  assume lim: "2 ^ 63 \<le> off + length d"
  have "buf_write off d (staged E i x w) = Panic"
    using lim assms(2) by (simp add: buf_write_def vec_resize_def)
  moreover obtain x1 w1 s where "ensure_staging E i x w = (Ok (), x1, w1)" "hm_get (xf_open_files x1) i = Some s"
      "sg_buf s = staged E i x w"
    using ensure_staging_spec [OF assms(1)] by metis
  ultimately show "fst (fs_write_file E i offset d x w) = Panic" by (simp add: fs_write_file_def off_def)
qed

definition sample_fs1 :: xetfs where
  "sample_fs1 = snd (create ROOT ''a'' sample_fs0)"

lemma sample_fs1_eval:
  "xf_open_files sample_fs1 = [(2, \<lparr>sg_buf = [], sg_dirty = True\<rparr>)]" "xf_cache sample_fs1 = []" "xf_next sample_fs1 = 3"
  "xf_volume sample_fs1 = ''vol''"
  "xf_nodes sample_fs1 =
     [(ROOT, \<lparr>nd_name = ''/'', nd_kind = Dir, nd_parent = ROOT, nd_children = [2], nd_file_hash = None, nd_size = 0\<rparr>),
      (2, \<lparr>nd_name = ''a'', nd_kind = File, nd_parent = ROOT, nd_children = [], nd_file_hash = None, nd_size = 0\<rparr>)]"
  by (simp_all add: sample_fs1_def sample_fs0_def create_def find_child_def add_node_def empty_tree_def ROOT_def hm_insert_def Let_def)

lemma sample_fs1_staged:
  "fst (ensure_staging quiet_env 2 sample_fs1 0) \<noteq> Panic" "staged quiet_env 2 sample_fs1 0 = []"
  by (simp_all add: ensure_staging_def staged_def sample_fs1_eval)

theorem write_refines_witness:
  "\<exists>x' w'. fs_write_file quiet_env 2 2 [7, 8] sample_fs1 0 = (Ok (RWritten 2), x', w') \<and>
     fs_read_file quiet_env 2 1 9 x' (3 :: nat) = (Ok (RData [0, 7, 8]), x', 3)"
proof -
  have b: "pwrite [] 2 [7, 8 :: u8] = [0, 0, 7, 8]" by (simp add: pwrite_def upt_rec numeral_2_eq_2 numeral_3_eq_3)
  show ?thesis
    using write_refines [of quiet_env 2 sample_fs1 0 2 "[7, 8]"] sample_fs1_staged b by auto
qed

section \<open>Creating a file\<close>

lemma find_child_Some:
  assumes "find_child x p name = Some i"
  shows "\<exists>pn n. hm_get (xf_nodes x) p = Some pn \<and> i \<in> set (nd_children pn) \<and> hm_get (xf_nodes x) i = Some n \<and> nd_name n = name"
  using assms by (auto simp: find_child_def find_Some_iff split: option.splits)

lemma find_snoc: "(\<And>c. c \<in> set xs \<Longrightarrow> \<not> P c) \<Longrightarrow> P i \<Longrightarrow> find P (xs @ [i]) = Some i"
  by (induction xs) auto

lemma find_child_add:
  assumes "find_child x p name = None" and "hm_get (xf_nodes x) p = Some pn" and "extends (xf_nodes x) (xf_nodes x')"
    and "hm_get (xf_nodes x') p = Some (pn\<lparr>nd_children := nd_children pn @ [i]\<rparr>)"
    and "hm_get (xf_nodes x') i = Some n" "nd_name n = name"
    and "\<And>c. c \<in> set (nd_children pn) \<Longrightarrow> \<exists>cn. hm_get (xf_nodes x) c = Some cn"
  shows "find_child x' p name = Some i"
proof -
  let ?P = "\<lambda>c. case hm_get (xf_nodes x') c of None \<Rightarrow> False | Some n \<Rightarrow> nd_name n = name"
  have "\<not> ?P c" if "c \<in> set (nd_children pn)" for c
  proof -
    obtain cn where cn: "hm_get (xf_nodes x) c = Some cn" using assms(7) \<open>c \<in> set (nd_children pn)\<close> by blast
    then obtain cs where "hm_get (xf_nodes x') c = Some (cn\<lparr>nd_children := cs\<rparr>)" using assms(3) by (auto simp: extends_def)
    moreover have "nd_name cn \<noteq> name" using assms(1,2) cn that by (auto simp: find_child_def find_None_iff)
    ultimately show ?thesis by simp
  qed
  then have "find ?P (nd_children pn @ [i]) = Some i" using assms(5,6) by (intro find_snoc) auto
  then show ?thesis using assms(4) by (simp add: find_child_def)
qed

abbreviation opened :: "ino \<Rightarrow> xetfs \<Rightarrow> xetfs" where
  "opened i x \<equiv> x\<lparr>xf_open_files := hm_insert i \<lparr>sg_buf = [], sg_dirty = True\<rparr> (xf_open_files x)\<rparr>"

lemma create_taken:
  assumes "find_child x p name = Some i"
  obtains a where "create p name x = (Ok (RCreated a), opened i x)" "lookup p name (opened i x) = REntry a" "fa_ino a = i"
proof -
  obtain n where "hm_get (xf_nodes x) i = Some n" using find_child_Some [OF assms] by blast
  then obtain a where a: "attr (opened i x) i = Some a" "fa_ino a = i" by (auto simp: attr_def)
  show thesis by (rule that [of a]) (use assms a in \<open>simp_all add: create_def lookup_def find_child_def\<close>)
qed

lemma create_new:
  assumes ok: "tree_ok (xf_nodes x) (xf_next x)" and p: "hm_get (xf_nodes x) p = Some pn" "nd_kind pn = Dir"
    and None: "find_child x p name = None"
  obtains m' a where "create p name x = (Ok (RCreated a), opened (xf_next x) (x\<lparr>xf_next := xf_next x + 1, xf_nodes := m'\<rparr>))"
    "lookup p name (opened (xf_next x) (x\<lparr>xf_next := xf_next x + 1, xf_nodes := m'\<rparr>)) = REntry a"
    "fa_ino a = xf_next x" "fa_size a = 0" "fa_kind a = File" "tree_ok m' (xf_next x + 1)" "extends (xf_nodes x) m'"
    "path_parts m' (xf_next x) = Option.bind (path_parts (xf_nodes x) p) (\<lambda>ps. Some (ps @ [name]))"
proof -
  let ?n = "\<lparr>nd_name = name, nd_kind = File, nd_parent = p, nd_children = [], nd_file_hash = None, nd_size = 0\<rparr>"
  obtain m' where m': "add_node (xf_next x) ?n (xf_nodes x) = Ok m'" "tree_ok m' (xf_next x + 1)" "extends (xf_nodes x) m'"
      "hm_get m' (xf_next x) = Some ?n"
      "path_parts m' (xf_next x) = Option.bind (path_parts (xf_nodes x) p) (\<lambda>ps. Some (ps @ [name]))"
    using add_node_extends [OF ok, of ?n pn] p by (metis node.select_convs(1,3,4))
  have par: "hm_get m' p = Some (pn\<lparr>nd_children := nd_children pn @ [xf_next x]\<rparr>)"
    using m'(1) p tree_ok_below [OF ok p(1)] by (auto simp: add_node_def)
  define x' where "x' = opened (xf_next x) (x\<lparr>xf_next := xf_next x + 1, xf_nodes := m'\<rparr>)"
  obtain a where a: "attr x' (xf_next x) = Some a" "fa_ino a = xf_next x" "fa_size a = 0" "fa_kind a = File"
    using m'(4) by (auto simp: attr_def x'_def)
  have "create p name x = (Ok (RCreated a), x')" using None m'(1) a by (simp add: create_def x'_def Let_def)
  moreover have "find_child x' p name = Some (xf_next x)"
    using find_child_add [OF None p(1), of x' "xf_next x" ?n] m' par tree_ok_child [OF ok p(1)] by (auto simp: x'_def)
  then have "lookup p name x' = REntry a" using a by (simp add: lookup_def)
  ultimately show thesis using that a m' unfolding x'_def by blast
qed

text \<open>
  C35. Creating a file in a directory: a name that is taken opens that inode with an empty buffer and leaves the tree as it is;
  a new name gets the next inode, an empty file that lookup finds under that name, that lies at the path
  of its directory followed by the name and that is waiting to be flushed; every other file
  keeps its node (the directory gains one child), its path and its buffer.
\<close>

theorem create_spec:
  assumes ok: "tree_ok (xf_nodes x) (xf_next x)" and p: "hm_get (xf_nodes x) p = Some pn" "nd_kind pn = Dir"
  shows "\<exists>x' a. create p name x = (Ok (RCreated a), x') \<and> lookup p name x' = REntry a \<and> tree_ok (xf_nodes x') (xf_next x') \<and>
     hm_get (xf_open_files x') = (hm_get (xf_open_files x))(fa_ino a \<mapsto> \<lparr>sg_buf = [], sg_dirty = True\<rparr>) \<and>
     (case find_child x p name of
        Some i \<Rightarrow> fa_ino a = i \<and> xf_nodes x' = xf_nodes x \<and> xf_next x' = xf_next x
      | None \<Rightarrow> fa_ino a = xf_next x \<and> xf_next x' = xf_next x + 1 \<and> fa_size a = 0 \<and> fa_kind a = File \<and> extends (xf_nodes x) (xf_nodes x') \<and>
          path_parts (xf_nodes x') (fa_ino a) = Option.bind (path_parts (xf_nodes x) p) (\<lambda>ps. Some (ps @ [name])))"
proof (cases "find_child x p name")
  case (Some i)
  obtain a where "create p name x = (Ok (RCreated a), opened i x)" "lookup p name (opened i x) = REntry a" "fa_ino a = i"
    by (rule create_taken [OF Some])
  then show ?thesis using Some ok by simp
next
  case None
  obtain m' a where "create p name x = (Ok (RCreated a), opened (xf_next x) (x\<lparr>xf_next := xf_next x + 1, xf_nodes := m'\<rparr>))"
    "lookup p name (opened (xf_next x) (x\<lparr>xf_next := xf_next x + 1, xf_nodes := m'\<rparr>)) = REntry a"
    "fa_ino a = xf_next x" "fa_size a = 0" "fa_kind a = File" "tree_ok m' (xf_next x + 1)" "extends (xf_nodes x) m'"
    "path_parts m' (xf_next x) = Option.bind (path_parts (xf_nodes x) p) (\<lambda>ps. Some (ps @ [name]))"
    by (rule create_new [OF assms None])
  then show ?thesis using None by simp
qed

theorem create_spec_witness: "\<exists>x' a. create ROOT ''b'' sample_fs1 = (Ok (RCreated a), x') \<and> fa_ino a = 3 \<and> lookup ROOT ''b'' x' = REntry a"
proof -
  have "tree_ok (xf_nodes sample_fs1) (xf_next sample_fs1)"
    by (auto simp: tree_ok_def sample_fs1_eval ROOT_def hm_ok_def split: if_splits)
  from create_spec [OF this, of ROOT _ "''b''"] show ?thesis
    by (fastforce simp: sample_fs1_eval find_child_def ROOT_def)
qed

section \<open>A file over a sequence of callbacks\<close>

text \<open>The effect of a callback on the contents of the open file \<open>i\<close>, and which callbacks keep it open and in bounds.\<close>

fun edit :: "ino \<Rightarrow> fs_op \<Rightarrow> bytes \<Rightarrow> bytes" where
  "edit i (OWrite j offset d) b = (if j = i then pwrite b (nat (max offset 0)) d else b)"
| "edit i (OSetattr j (Some n)) b = (if j = i then ptruncate b (unat n) else b)"
| "edit i _ b = b"

fun stays_open :: "ino \<Rightarrow> ino \<Rightarrow> string \<Rightarrow> fs_op \<Rightarrow> bool" where
  "stays_open i p name (OWrite j offset d) \<longleftrightarrow> (j = i \<longrightarrow> nat (max offset 0) + length d < 2 ^ 63)"
| "stays_open i p name (OSetattr j (Some n)) \<longleftrightarrow> (j = i \<longrightarrow> unat n < 2 ^ 63)"
| "stays_open i p name (ORelease j) \<longleftrightarrow> j \<noteq> i"
| "stays_open i p name (OCreate q name') \<longleftrightarrow> \<not> (q = p \<and> name' = name)"
| "stays_open i p name _ \<longleftrightarrow> True"

inductive fs_session :: "'w env \<Rightarrow> xetfs \<Rightarrow> fs_op list \<Rightarrow> xetfs \<Rightarrow> bool" for E where
  session_nil: "fs_session E x [] x"
| session_cons: "op_ok oper x \<Longrightarrow> fs_run E oper x w = Some (Ok r, x1, w') \<Longrightarrow> fs_session E x1 ops x' \<Longrightarrow>
    fs_session E x (oper # ops) x'"

text \<open>The open file \<open>i\<close> with parent \<open>p\<close> and name \<open>name\<close> holds the bytes \<open>b\<close>, and its node has their length.\<close>

definition holds :: "ino \<Rightarrow> ino \<Rightarrow> string \<Rightarrow> bytes \<Rightarrow> xetfs \<Rightarrow> bool" where
  "holds i p name b x \<longleftrightarrow> i \<noteq> ROOT \<and>
     (\<exists>s n. hm_get (xf_open_files x) i = Some s \<and> sg_buf s = b \<and> hm_get (xf_nodes x) i = Some n \<and>
        nd_name n = name \<and> nd_parent n = p \<and> nd_size n = of_nat (length b))"

lemma holds_same:
  "holds i p name b x \<Longrightarrow> hm_get (xf_open_files x') i = hm_get (xf_open_files x) i \<Longrightarrow>
     hm_get (xf_nodes x') i = hm_get (xf_nodes x) i \<Longrightarrow> holds i p name b x'"
  by (simp add: holds_def)

lemma holds_staged:
  assumes "holds i p name b x"
  shows "staged E i x w = b" "fst (ensure_staging E i x w) \<noteq> Panic"
  using assms by (auto simp: holds_def staged_def ensure_staging_def domIff)

lemma holds_edit:
  assumes "holds i p name b x"
    and "hm_get (xf_open_files x') = (hm_get (xf_open_files x))(i \<mapsto> \<lparr>sg_buf = b', sg_dirty = True\<rparr>)"
    and "hm_get (xf_nodes x') = (hm_get (xf_nodes x))(i := resized (length b') (hm_get (xf_nodes x) i))"
  shows "holds i p name b' x'"
  using assms by (auto simp: holds_def)

lemma ensure_staging_others:
  assumes "ensure_staging E j x w = (r, x1, w1)" "i \<noteq> j"
  shows "hm_get (xf_open_files x1) i = hm_get (xf_open_files x) i" "xf_nodes x1 = xf_nodes x"
proof -
  obtain r' x' w' where "file_bytes E j x w = (r', x', w')" by (metis prod_cases3)
  with file_bytes_frame [OF this] assms
  show "hm_get (xf_open_files x1) i = hm_get (xf_open_files x) i" "xf_nodes x1 = xf_nodes x"
    by (auto simp: ensure_staging_def split: if_splits res.splits)
qed

lemma write_others:
  assumes "fs_write_file E j offset d x w = (r, x', w')" "i \<noteq> j"
  shows "hm_get (xf_open_files x') i = hm_get (xf_open_files x) i \<and> hm_get (xf_nodes x') i = hm_get (xf_nodes x) i"
proof -
  obtain r1 x1 w1 where st: "ensure_staging E j x w = (r1, x1, w1)" by (metis prod_cases3)
  from ensure_staging_others [OF st assms(2)] st assms show ?thesis
    by (auto simp: fs_write_file_def Let_def nodes_set_size split: res.splits option.splits)
qed

lemma setattr_others:
  assumes "setattr E j n x w = (r, x', w')" "i \<noteq> j"
  shows "hm_get (xf_open_files x') i = hm_get (xf_open_files x) i \<and> hm_get (xf_nodes x') i = hm_get (xf_nodes x) i"
proof -
  obtain r1 x1 w1 where st: "ensure_staging E j x w = (r1, x1, w1)" by (metis prod_cases3)
  from ensure_staging_others [OF st assms(2)] st assms show ?thesis
    by (auto simp: setattr_def Let_def nodes_set_size split: res.splits option.splits)
qed

lemma flush_bytes_frame:
  assumes "flush_bytes E j buf x w = Some (r, x', w')"
  shows "xf_open_files x' = xf_open_files x \<and> (i \<noteq> j \<longrightarrow> hm_get (xf_nodes x') i = hm_get (xf_nodes x) i) \<and>
     (xf_nodes x' = xf_nodes x \<or>
      (\<exists>fh. hm_get (xf_nodes x') j = map_option (\<lambda>n. n\<lparr>nd_file_hash := Some fh, nd_size := of_nat (length buf)\<rparr>) (hm_get (xf_nodes x) j)))"
  using assms by (auto simp: flush_bytes_def Let_def split: option.splits res.splits prod.splits)

lemma flush_if_dirty_others:
  "flush_if_dirty E j x w = Some (r, x', w') \<Longrightarrow> i \<noteq> j \<Longrightarrow>
     hm_get (xf_open_files x') i = hm_get (xf_open_files x) i \<and> hm_get (xf_nodes x') i = hm_get (xf_nodes x) i"
  by (auto simp: flush_if_dirty_def split: option.splits if_splits dest!: flush_bytes_frame [where i = i])

lemma flush_if_dirty_holds:
  assumes "flush_if_dirty E j x w = Some (r, x', w')" "holds i p name b x"
  shows "holds i p name b x'"
proof (cases "i = j")
  case True
  obtain s where s: "hm_get (xf_open_files x) i = Some s" "sg_buf s = b" using assms(2) by (auto simp: holds_def)
  show ?thesis
  proof (cases "sg_dirty s")
    case True
    let ?x = "x\<lparr>xf_open_files := hm_insert i (s\<lparr>sg_dirty := False\<rparr>) (xf_open_files x)\<rparr>"
    have fb: "flush_bytes E i b ?x w = Some (r, x', w')" using assms(1) s True \<open>i = j\<close> by (simp add: flush_if_dirty_def)
    show ?thesis using flush_bytes_frame [OF fb, of i] assms(2) s by (auto simp: holds_def)
  qed (use assms s \<open>i = j\<close> in \<open>auto simp: flush_if_dirty_def\<close>)
next
  case False
  then show ?thesis using holds_same [OF assms(2)] flush_if_dirty_others [OF assms(1)] by blast
qed

lemma create_holds:
  assumes ok: "xetfs_ok x" and h: "holds i p name b x" and q: "hm_get (xf_nodes x) q = Some qn" "nd_kind qn = Dir"
    and ne: "\<not> (q = p \<and> name' = name)" and run: "create q name' x = (r, x')"
  shows "holds i p name b x'"
proof -
  obtain n where n: "hm_get (xf_nodes x) i = Some n" "nd_name n = name" "nd_parent n = p" "i \<noteq> ROOT"
    using h by (auto simp: holds_def)
  show ?thesis
  proof (cases "find_child x q name'")
    case (Some j)
    have "nd_parent n = q \<and> nd_name n = name'" if "i = j"
      using find_child_Some [OF Some] n tree_ok_child [OF ok q(1)] q(1) that by (metis option.inject)
    then have "i \<noteq> j" using ne n by auto
    moreover have "x' = opened j x" using create_taken [OF Some] run by (metis snd_conv)
    ultimately show ?thesis using holds_same [OF h] by simp
  next
    case None
    obtain m' where x': "x' = opened (xf_next x) (x\<lparr>xf_next := xf_next x + 1, xf_nodes := m'\<rparr>)" "extends (xf_nodes x) m'"
      using create_new [OF ok q None] run by (metis snd_conv)
    then obtain cs where "hm_get m' i = Some (n\<lparr>nd_children := cs\<rparr>)" using n(1) by (auto simp: extends_def)
    moreover have "i \<noteq> xf_next x" using tree_ok_below [OF ok n(1)] by simp
    ultimately show ?thesis using h n x' by (auto simp: holds_def)
  qed
qed

lemma release_frame:
  assumes "release E j x w = Some (r, x', w')"
  obtains r1 x1 where "flush_if_dirty E j x w = Some (r1, x1, w')" "x' = x1 \<or> x' = x1\<lparr>xf_open_files := hm_remove j (xf_open_files x1)\<rparr>"
proof -
  obtain q where q: "flush_if_dirty E j x w = Some q" using assms by (auto simp: release_def)
  obtain r1 x1 w1 where "q = (r1, x1, w1)" by (metis prod_cases3)
  then show thesis using that [of r1 x1] assms q by (cases r1) (auto simp: release_def)
qed

lemma write_holds:
  assumes h: "holds i p name b x" and run: "fs_run E (OWrite j off d) x w = Some (r, x', w')"
    and op: "stays_open i p name (OWrite j off d)"
  shows "holds i p name (edit i (OWrite j off d) b) x'"
proof (cases "j = i")
  case True
  then have lim: "nat (max off 0) + length d < 2 ^ 63" using op by simp
  show ?thesis
    by (rule write_staged [OF holds_staged(2) [OF h, of E w] lim])
      (use run True holds_edit [OF h] holds_staged(1) [OF h, of E w] in auto)
next
  case False
  then show ?thesis using holds_same [OF h] write_others [of E j off d x w r x' w' i] run by simp
qed

lemma setattr_holds:
  assumes h: "holds i p name b x" and run: "fs_run E (OSetattr j sz) x w = Some (r, x', w')"
    and op: "stays_open i p name (OSetattr j sz)"
  shows "holds i p name (edit i (OSetattr j sz) b) x'"
proof (cases "j = i \<and> sz \<noteq> None")
  case True
  then obtain n where n: "sz = Some n" "unat n < 2 ^ 63" using op by auto
  show ?thesis
    by (rule setattr_staged [OF holds_staged(2) [OF h, of E w] n(2)])
      (use run n True holds_edit [OF h] holds_staged(1) [OF h, of E w] in auto)
next
  case False
  then have "hm_get (xf_open_files x') i = hm_get (xf_open_files x) i \<and> hm_get (xf_nodes x') i = hm_get (xf_nodes x) i"
    using setattr_others [of E j sz x w r x' w' i] run by (cases sz) (auto simp: setattr_def)
  then show ?thesis using holds_same [OF h] False by (cases sz) auto
qed

lemma step_holds:
  assumes ok: "xetfs_ok x" and h: "holds i p name b x" and run: "fs_run E oper x w = Some (r, x', w')"
    and op: "op_ok oper x" "stays_open i p name oper"
  shows "holds i p name (edit i oper b) x'"
proof (cases oper)
  case (OCreate q name')
  then show ?thesis using create_holds [OF ok h] run op by (auto split: prod.splits)
next
  case (ORead j off n)
  obtain r1 x1 w1 where "file_bytes E j x w = (r1, x1, w1)" by (metis prod_cases3)
  with file_bytes_frame [OF this] have "xf_nodes x' = xf_nodes x \<and> xf_open_files x' = xf_open_files x"
    using run ORead by (auto simp: fs_read_file_def Let_def split: option.splits res.splits)
  then show ?thesis using holds_same [OF h] ORead by simp
next
  case (OWrite j off d)
  show ?thesis unfolding OWrite by (rule write_holds [OF h run [unfolded OWrite] op(2) [unfolded OWrite]])
next
  case (OSetattr j sz)
  show ?thesis unfolding OSetattr by (rule setattr_holds [OF h run [unfolded OSetattr] op(2) [unfolded OSetattr]])
next
  case (OFsync j)
  then show ?thesis using run flush_if_dirty_holds [OF _ h] by (auto simp: fsync_def)
next
  case (OFlush j)
  then show ?thesis using run flush_if_dirty_holds [OF _ h] by (auto simp: flush_def)
next
  case (ORelease j)
  obtain r1 x1 where fl: "flush_if_dirty E j x w = Some (r1, x1, w')"
      "x' = x1 \<or> x' = x1\<lparr>xf_open_files := hm_remove j (xf_open_files x1)\<rparr>"
    by (rule release_frame [of E j x w]) (use run ORelease in auto)
  have "holds i p name b x1" using flush_if_dirty_holds [OF fl(1) h] .
  then show ?thesis using fl(2) op(2) ORelease by (auto simp: holds_def)
qed (use run h in auto)

lemma edit_length: "stays_open i p name oper \<Longrightarrow> length b < 2 ^ 63 \<Longrightarrow> length (edit i oper b) < 2 ^ 63"
  by (induction i p name oper rule: stays_open.induct) (auto)

lemma session_holds:
  "fs_session E x ops x' \<Longrightarrow> xetfs_ok x \<Longrightarrow> holds i p name b x \<Longrightarrow> length b < 2 ^ 63 \<Longrightarrow>
     \<forall>oper \<in> set ops. stays_open i p name oper \<Longrightarrow>
     holds i p name (fold (edit i) ops b) x' \<and> length (fold (edit i) ops b) < 2 ^ 63"
proof (induction arbitrary: b rule: fs_session.induct)
  case (session_cons oper x w r x1 w' ops x')
  have "xetfs_ok x1" using fs_run_keeps [OF session_cons.prems(1) session_cons.hyps(1), of E w] session_cons.hyps(2) by auto
  moreover have "holds i p name (edit i oper b) x1"
    by (rule step_holds [OF session_cons.prems(1,2) session_cons.hyps(2,1)]) (use session_cons.prems(4) in simp)
  moreover have "length (edit i oper b) < 2 ^ 63" by (rule edit_length) (use session_cons.prems in auto)
  ultimately show ?case using session_cons.IH [of "edit i oper b"] session_cons.prems(4) by simp
qed simp

text \<open>
  C33. An open file over any sequence of callbacks on any files, flushes and failures of the network included: its
  contents are its writes and truncations applied in order to the bytes it held at the start, every
  read returns the window of those contents, and its node reports their length.
\<close>

theorem session_refines:
  fixes E :: "'w env"
  assumes "tree_ok (xf_nodes x) (xf_next x)" and "holds i p name b x" and "length b < 2 ^ 63"
    and "fs_session E x ops x'" and "\<forall>oper \<in> set ops. stays_open i p name oper"
  shows "\<exists>s n. hm_get (xf_open_files x') i = Some s \<and> sg_buf s = fold (edit i) ops b \<and>
     hm_get (xf_nodes x') i = Some n \<and> nd_size n = of_nat (length (fold (edit i) ops b)) \<and>
     (\<forall>pos k (w :: 'w). fs_read_file E i pos k x' w =
        (Ok (RData (take (unat k) (drop (nat (max pos 0)) (fold (edit i) ops b)))), x', w))"
proof -
  have h: "holds i p name (fold (edit i) ops b) x'" "length (fold (edit i) ops b) < 2 ^ 63"
    using session_holds [OF assms(4,1,2,3,5)] by auto
  then show ?thesis using read_staged by (fastforce simp: holds_def)
qed

theorem session_refines_witness:
  "\<exists>x' s. fs_session quiet_env sample_fs1 [OWrite 2 1 [5], OSetattr 2 (Some 3)] x' \<and>
     hm_get (xf_open_files x') 2 = Some s \<and> sg_buf s = [0, 5, 0]"
proof -
  let ?ops = "[OWrite 2 1 [5], OSetattr 2 (Some 3)]"
  have ok: "tree_ok (xf_nodes sample_fs1) (xf_next sample_fs1)"
    by (auto simp: tree_ok_def sample_fs1_eval ROOT_def hm_ok_def split: if_splits)
  have h: "holds 2 ROOT ''a'' [] sample_fs1" by (simp add: holds_def sample_fs1_eval ROOT_def)
  obtain x1 w1 where x1: "fs_write_file quiet_env 2 1 [5] sample_fs1 0 = (Ok (RWritten 1), x1, w1)" "hm_get (xf_open_files x1) 2 \<noteq> None"
    by (rule write_staged [of quiet_env 2 sample_fs1 0 1 "[5]"]) (use sample_fs1_staged in auto)
  then have "fst (ensure_staging quiet_env 2 x1 w1) \<noteq> Panic" by (auto simp: ensure_staging_def domIff)
  then obtain x2 w2 where "setattr quiet_env 2 (Some 3) x1 w1 = (Ok (attr_reply 2 x2), x2, w2)"
    by (rule setattr_staged [of quiet_env 2 x1 w1 3]) auto
  then have "fs_session quiet_env x1 [OSetattr 2 (Some 3)] x2" by (auto intro: session_nil session_cons [where w = w1])
  then have s: "fs_session quiet_env sample_fs1 ?ops x2"
    by (rule session_cons [where w = 0, rotated 2]) (use x1 in simp_all)
  have "pwrite [] 1 [5 :: u8] = [0, 5]" "ptruncate [0, 5] 3 = [0, 5, 0]"
    by (simp_all add: pwrite_def ptruncate_def upt_rec numeral_2_eq_2 numeral_3_eq_3)
  then have "fold (edit 2) ?ops [] = [0, 5, 0]" by simp
  with session_refines [OF ok h _ s] s show ?thesis by auto
qed

section \<open>Listing a directory\<close>

text \<open>
  How the kernel lists a directory: it asks for a page, continues at the offset of the last entry it received and stops
  at an empty page; \<open>fits\<close> gives the number of entries that the buffer of each request holds.
\<close>

fun list_dir :: "ino \<Rightarrow> int \<Rightarrow> nat list \<Rightarrow> xetfs \<Rightarrow> (ino \<times> nat \<times> kind \<times> string) list" where
  "list_dir i off [] x = []"
| "list_dir i off (f # fits) x =
     (case readdir i off f x of
        Ok (RDirectory page) \<Rightarrow>
          if page = [] then [] else page @ list_dir i (int (fst (snd (last page)))) fits x
      | _ \<Rightarrow> [])"

text \<open>The entries of a directory, and with their offsets.\<close>

abbreviation child_entry :: "xetfs \<Rightarrow> ino \<Rightarrow> ino \<times> kind \<times> string" where
  "child_entry x c \<equiv> (c, nd_kind (the (hm_get (xf_nodes x) c)), nd_name (the (hm_get (xf_nodes x) c)))"

definition dir_list :: "ino \<Rightarrow> node \<Rightarrow> xetfs \<Rightarrow> (ino \<times> kind \<times> string) list" where
  "dir_list i n x = (i, Dir, ''.'') # (nd_parent n, Dir, ''..'') # map (child_entry x) (nd_children n)"

abbreviation numbered :: "(ino \<times> kind \<times> string) list \<Rightarrow> (ino \<times> nat \<times> kind \<times> string) list" where
  "numbered es \<equiv> map (\<lambda>(k, c, knd, name). (c, k + 1, knd, name)) (enumerate 0 es)"

definition all_entries :: "ino \<Rightarrow> node \<Rightarrow> xetfs \<Rightarrow> (ino \<times> nat \<times> kind \<times> string) list" where
  "all_entries i n x = numbered (dir_list i n x)"

lemma nth_numbered: "k < length es \<Longrightarrow> fst (snd (numbered es ! k)) = k + 1"
  by (simp add: nth_enumerate_eq split_beta)

lemma unnumbered: "map (\<lambda>(c, k, knd, name). (c, knd, name)) (numbered es) = es"
proof -
  have "map (\<lambda>(c, k, knd, name). (c, knd, name)) (numbered es) = map snd (enumerate 0 es)"
    unfolding map_map by (rule map_cong) auto
  then show ?thesis by simp
qed

lemma readdir_page:
  assumes ok: "xetfs_ok x" and n: "hm_get (xf_nodes x) i = Some n" "nd_kind n = Dir"
  shows "readdir i (int k) f x = Ok (RDirectory (take f (drop k (all_entries i n x))))"
proof -
  have "traverse_res (\<lambda>c. (case hm_get (xf_nodes x) c of None \<Rightarrow> Panic | Some cn \<Rightarrow> Ok (c, nd_kind cn, nd_name cn)))
      (nd_children n) = Ok (map (child_entry x) (nd_children n))"
    by (rule traverse_res_all_Ok) (use tree_ok_child [OF ok n(1)] in \<open>auto split: option.splits\<close>)
  then have "dir_entries i n x = Ok (dir_list i n x)" by (simp add: dir_entries_def dir_list_def)
  then show ?thesis using n by (simp add: readdir_def all_entries_def Let_def)
qed

lemma length_all_entries: "length (all_entries i n x) = length (nd_children n) + 2"
  by (simp add: all_entries_def dir_list_def)

lemma nth_all_entries: "k < length (all_entries i n x) \<Longrightarrow> fst (snd (all_entries i n x ! k)) = k + 1"
  using nth_numbered [of k "dir_list i n x"] by (simp add: all_entries_def)

lemma list_dir_from:
  assumes "xetfs_ok x" "hm_get (xf_nodes x) i = Some n" "nd_kind n = Dir"
  shows "\<forall>f \<in> set fits. 0 < f \<Longrightarrow> length (all_entries i n x) - k \<le> length fits \<Longrightarrow>
     list_dir i (int k) fits x = drop k (all_entries i n x)"
proof (induction fits arbitrary: k)
  case (Cons f fits)
  let ?es = "all_entries i n x"
  note page = readdir_page [OF assms, of k f]
  show ?case
  proof (cases "k < length ?es")
    case True
    let ?page = "take f (drop k ?es)"
    have f: "0 < f" using Cons.prems by simp
    then have ne: "?page \<noteq> []" using True by simp
    define m where "m = min f (length ?es - k)"
    have "last ?page = ?es ! (k + (m - 1))"
      using ne True f by (subst last_conv_nth) (auto simp: m_def min_def)
    then have off: "fst (snd (last ?page)) = k + m" using nth_all_entries [of "k + (m - 1)" i n x] True f by (simp add: m_def)
    have "?page @ drop (k + m) ?es = drop k ?es"
      using append_take_drop_id [of f "drop k ?es"] by (cases "f \<le> length ?es - k") (auto simp: m_def add.commute)
    moreover have "list_dir i (int (k + m)) fits x = drop (k + m) ?es"
      by (rule Cons.IH) (use Cons.prems True f in \<open>auto simp: m_def\<close>)
    ultimately show ?thesis using page ne off by simp
  qed (use page in simp)
qed simp

text \<open>
  C36. Listing a directory page by page, whatever the sizes of the pages: with enough requests the kernel receives the two dot
  entries and every child, once each and in order, with its inode, kind and name, and no call panics. A file is
  refused with \<open>ENOTDIR\<close>, an unknown inode with \<open>ENOENT\<close>.
\<close>

theorem readdir_enumerates:
  assumes ok: "tree_ok (xf_nodes x) (xf_next x)"
  shows "case hm_get (xf_nodes x) i of
       None \<Rightarrow> readdir i off f x = Ok (RError ENOENT)
     | Some n \<Rightarrow>
         (case nd_kind n of
            File \<Rightarrow> readdir i off f x = Ok (RError ENOTDIR)
          | Dir \<Rightarrow>
              ((\<forall>k \<in> set fits. 0 < k) \<and> length (nd_children n) + 2 \<le> length fits \<longrightarrow>
                 map (\<lambda>(c, k, knd, name). (c, knd, name)) (list_dir i 0 fits x) =
                   (i, Dir, ''.'') # (nd_parent n, Dir, ''..'') #
                   map (child_entry x) (nd_children n)))"
proof (cases "hm_get (xf_nodes x) i")
  case None
  then show ?thesis by (simp add: readdir_def)
next
  case (Some n)
  have "map (\<lambda>(c, k, knd, name). (c, knd, name)) (all_entries i n x) = dir_list i n x"
    unfolding all_entries_def by (rule unnumbered)
  moreover have "list_dir i 0 fits x = all_entries i n x"
    if "nd_kind n = Dir" "\<forall>k \<in> set fits. 0 < k" "length (nd_children n) + 2 \<le> length fits"
    using list_dir_from [OF ok Some that(1,2), of 0] that(3) by (simp add: length_all_entries)
  ultimately show ?thesis using Some by (auto simp: readdir_def dir_list_def split: kind.splits)
qed

theorem readdir_enumerates_witness:
  "map (\<lambda>(c, k, knd, name). (c, knd, name)) (list_dir ROOT 0 [1, 1, 1] sample_fs1) = [(1, Dir, ''.''), (1, Dir, ''..''), (2, File, ''a'')]"
proof -
  have ok: "tree_ok (xf_nodes sample_fs1) (xf_next sample_fs1)"
    by (auto simp: tree_ok_def sample_fs1_eval ROOT_def hm_ok_def split: if_splits)
  from readdir_enumerates [OF ok, of ROOT 0 0 "[1, 1, 1]"] show ?thesis by (simp add: sample_fs1_eval) (simp add: ROOT_def)
qed

section \<open>Flushing\<close>

lemma release_clean:
  assumes "hm_get (xf_open_files x) i = Some s" "\<not> sg_dirty s"
  shows "release E i x w = Some (Ok ROk, x\<lparr>xf_open_files := hm_remove i (xf_open_files x)\<rparr>, w)"
  using assms by (simp add: release_def flush_if_dirty_def)

abbreviation ingest_file :: "'w env \<Rightarrow> xetfs \<Rightarrow> string \<Rightarrow> bytes \<Rightarrow> 'w \<Rightarrow> string res \<times> 'w" where
  "ingest_file E x path b w \<equiv> ingest_bytes (en_tok E) (en_send E) (en_ovf E) (en_fork E) (xf_base_url x) (xf_volume x) path b w"

text \<open>
  Closing a file with unflushed changes: its staged bytes are ingested under its path. On success the node refers to the
  hash of the new contents with their length, the stale cache entry is gone, so that the next
  read reconstructs the new hash; no other file is touched. The buffer is dropped and the
  reply is success whether or not the ingest succeeded; only a panic of the fork is not answered.
\<close>

theorem release_spec:
  fixes E :: "'w env"
  assumes s: "hm_get (xf_open_files x) i = Some s" "sg_dirty s" and path: "full_path x i = Some path"
    and n: "hm_get (xf_nodes x) i = Some n" and run: "ingest_file E x path (sg_buf s) w = (r, w1)"
  shows "\<exists>r' x'. release E i x w = Some (r', x', w1) \<and> (r' = Ok ROk \<longleftrightarrow> r \<noteq> Panic) \<and>
     (case r of
        Ok fh \<Rightarrow>
          hm_get (xf_nodes x') = (hm_get (xf_nodes x))(i \<mapsto> n\<lparr>nd_file_hash := Some fh, nd_size := of_nat (length (sg_buf s))\<rparr>) \<and>
          hm_get (xf_open_files x') = (hm_get (xf_open_files x))(i := None) \<and> hm_get (xf_cache x') = (hm_get (xf_cache x))(i := None) \<and>
          (\<forall>(E' :: 'w env) w2. fst (file_bytes E' i x' w2) =
             (case fst (agent_reconstruct (en_tok E') (en_send E') (en_fork E') (xf_base_url x) fh w2) of
                Ok b \<Rightarrow> Ok (Some b) | Err _ \<Rightarrow> Ok None | Panic \<Rightarrow> Panic))
      | Err _ \<Rightarrow> xf_nodes x' = xf_nodes x \<and> xf_cache x' = xf_cache x \<and>
          hm_get (xf_open_files x') = (hm_get (xf_open_files x))(i := None)
      | Panic \<Rightarrow> xf_nodes x' = xf_nodes x \<and> xf_cache x' = xf_cache x)"
proof -
  let ?x = "x\<lparr>xf_open_files := hm_insert i (s\<lparr>sg_dirty := False\<rparr>) (xf_open_files x)\<rparr>"
  have fp: "full_path ?x i = Some path" using path by (simp add: full_path_def)
  show ?thesis
    using s n run fp by (cases r) (auto simp: release_def flush_if_dirty_def flush_bytes_def Let_def file_bytes_def
        split: res.splits prod.splits)
qed

text \<open>
  C38. A failed flush loses the changes without notice: when the server refuses the ingest, \<open>fsync\<close> still replies success and
  marks the buffer clean, so that closing the file later, with the server available again, sends
  nothing and drops the buffer; the file keeps its old hash.
\<close>

theorem failed_flush_loses_data:
  fixes E :: "'w env"
  assumes s: "hm_get (xf_open_files x) i = Some s" "sg_dirty s" and path: "full_path x i = Some path"
    and run: "ingest_file E x path (sg_buf s) w = (Err e, w1)"
  shows "\<exists>x'. fsync E i x w = Some (Ok ROk, x', w1) \<and>
     (\<forall>(E' :: 'w env) w2. \<exists>x''. release E' i x' w2 = Some (Ok ROk, x'', w2) \<and> hm_get (xf_open_files x'') i = None \<and> xf_nodes x'' = xf_nodes x)"
proof -
  let ?x = "x\<lparr>xf_open_files := hm_insert i (s\<lparr>sg_dirty := False\<rparr>) (xf_open_files x)\<rparr>"
  have "full_path ?x i = Some path" using path by (simp add: full_path_def)
  then have "fsync E i x w = Some (Ok ROk, ?x, w1)"
    using s run by (simp add: fsync_def flush_if_dirty_def flush_bytes_def)
  moreover have "release E' i ?x w2 = Some (Ok ROk, ?x\<lparr>xf_open_files := hm_remove i (xf_open_files ?x)\<rparr>, w2)" for E' :: "'w env" and w2
    by (rule release_clean [of _ _ "s\<lparr>sg_dirty := False\<rparr>"]) simp_all
  ultimately show ?thesis by auto
qed

text \<open>
  C39. A write to a file whose contents cannot be fetched at that moment starts from an empty buffer and succeeds: the
  bytes before the offset become zero, those behind the write are cut off, and the next flush replaces the file by that.
\<close>

theorem failed_seed_truncates:
  assumes "hm_get (xf_open_files x) i = None" "hm_get (xf_cache x) i = None" "hm_get (xf_nodes x) i = Some n" "nd_file_hash n = Some fh"
    and fail: "agent_reconstruct (en_tok E) (en_send E) (en_fork E) (xf_base_url x) fh w = (Err e, w1)"
    and "nat (max offset 0) + length d < 2 ^ 63"
  shows "\<exists>x' w'. fs_write_file E i offset d x w = (Ok (RWritten (of_nat (length d))), x', w') \<and>
     hm_get (xf_open_files x') i = Some \<lparr>sg_buf = replicate (nat (max offset 0)) 0 @ d, sg_dirty = True\<rparr>"
proof -
  have fb: "file_bytes E i x w = (Ok None, x, w1)" using assms(1-5) by (simp add: file_bytes_def)
  then have "fst (ensure_staging E i x w) \<noteq> Panic" "staged E i x w = []"
    using assms(1) by (simp_all add: ensure_staging_def staged_def)
  moreover have "pwrite [] off d = replicate off 0 @ d" for off
    by (rule nth_equalityI) (auto simp: nth_pwrite nth_append)
  ultimately show ?thesis using write_staged [of E i x w offset d] assms(6) by (metis fun_upd_same)
qed

definition down_env :: "nat env" where
  "down_env = \<lparr>en_tok = None, en_send = (\<lambda>q n. (Err ''down'', n)), en_ovf = True, en_fork = sample_fork\<rparr>"

definition sample_fs2 :: xetfs where
  "sample_fs2 = sample_fs1\<lparr>xf_open_files := [], xf_nodes := hm_insert 2
     \<lparr>nd_name = ''a'', nd_kind = File, nd_parent = ROOT, nd_children = [], nd_file_hash = Some ''ff'', nd_size = 4\<rparr> (xf_nodes sample_fs1)\<rparr>"

lemma sample_fs1_path: "full_path sample_fs1 2 = Some ''/a''"
proof -
  have "2 \<noteq> ROOT" "ROOT \<noteq> 2" by (simp_all add: ROOT_def)
  then show ?thesis using path_parts_node [of 2 "xf_nodes sample_fs1"] by (simp add: full_path_def sample_fs1_eval)
qed

theorem release_spec_witness:
  "\<exists>x'. release quiet_env 2 sample_fs1 7 = Some (Ok ROk, x', 7) \<and> hm_get (xf_open_files x') 2 = None \<and>
     map_option nd_size (hm_get (xf_nodes x') 2) = Some 0"
proof -
  have "ingest_file quiet_env sample_fs1 ''/a'' [] 7 = (Ok (hex sample_fork (sample_file_hash [])), 7)"
    by (simp add: ingest_bytes_def ingest_loop.simps quiet_env_def auth_def client_post_def is_success_def
        Let_def del: sample_fork_simps(2))
  then show ?thesis
    using release_spec [OF _ _ sample_fs1_path, of "\<lparr>sg_buf = [], sg_dirty = True\<rparr>" _ quiet_env 7]
    by (fastforce simp: sample_fs1_eval ROOT_def)
qed

theorem failed_flush_loses_data_witness:
  "\<exists>x'. fsync down_env 2 sample_fs1 0 = Some (Ok ROk, x', 0) \<and>
     (\<exists>x''. release quiet_env 2 x' 0 = Some (Ok ROk, x'', 0) \<and> hm_get (xf_open_files x'') 2 = None)"
proof -
  have "\<exists>e. ingest_file down_env sample_fs1 ''/a'' [] 0 = (Err e, 0)"
    by (simp add: ingest_bytes_def ingest_loop.simps down_env_def Let_def)
  then show ?thesis
    using failed_flush_loses_data [OF _ _ sample_fs1_path, of "\<lparr>sg_buf = [], sg_dirty = True\<rparr>" down_env 0]
    by (fastforce simp: sample_fs1_eval)
qed

theorem failed_seed_truncates_witness:
  "\<exists>x' w'. fs_write_file down_env 2 1 [9] sample_fs2 0 = (Ok (RWritten 1), x', w') \<and>
     hm_get (xf_open_files x') 2 = Some \<lparr>sg_buf = [0, 9], sg_dirty = True\<rparr>"
proof -
  have "\<exists>e. agent_reconstruct None (en_send down_env) sample_fork (xf_base_url sample_fs2) ''ff'' 0 = (Err e, 0)"
    by (simp add: agent_reconstruct_def down_env_def)
  then show ?thesis
    using failed_seed_truncates [of sample_fs2 2 _ "''ff''" down_env 0 _ _ 1 "[9]"]
    by (fastforce simp: sample_fs2_def sample_fs1_eval down_env_def)
qed

end
