(* ===== verification/End_To_End.thy ===== *)
theory End_To_End
  imports Fetch Xetfs_Files
begin

text \<open>
  The system as a whole: agent, HTTP surface, index, blob store and file system together. A file that was ingested
  is reconstructed byte for byte, a file that was written through the mount is read back after it was
  closed, and the exact condition under which the agent's choice of byte ranges returns wrong bytes.
\<close>

section \<open>What the fork has to guarantee\<close>

text \<open>The chunker cuts the input into consecutive pieces and names each by the hash of its bytes.\<close>

definition chunker_ok :: "fork \<Rightarrow> bool" where
  "chunker_ok F \<longleftrightarrow> (\<forall>b. concat (map ck_data (next_block F b)) = b \<and> (\<forall>ch \<in> set (next_block F b). genuine F ch))"

text \<open>
  No collision between the chunks of a file and the objects of the store: a stored xorb with the name of a run of these
  chunks lists their hashes, and a stored chunk with the hash of one of them has its bytes.
\<close>

definition collision_free :: "fork \<Rightarrow> local_fs_blob_store \<Rightarrow> fs app_state \<Rightarrow> chunk list \<Rightarrow> bool" where
  "collision_free F c st chunks \<longleftrightarrow>
     (\<forall>i j x b hs. from_xorb F (slice i j chunks) = Ok (x, b) \<and> stored_hashes F c st x = Some hs \<longrightarrow>
        hs = map ck_hash (slice i j chunks)) \<and>
     (\<forall>x b info i. objects F c st x = Some b \<and> validate_xorb_object F b x = Ok (Some info) \<and> i < length (xi_chunk_hashes info) \<longrightarrow>
        (\<forall>ch \<in> set chunks. xi_chunk_hashes info ! i = ck_hash ch \<longrightarrow>
           chunk_bytes F b (xi_chunk_boundary_offsets info) i = ck_data ch))"

section \<open>Reconstruction of a registered file\<close>

text \<open>
  C24. What the agent delivers for a registered file over a connection that does not fail: for each term the data of as many
  chunks as the term has, taken from the start of the first byte span of the same xorb that covers
  it. When that span starts where the term starts, these are the chunks of the term.
\<close>

theorem agent_reconstructs:
  assumes "connected False to_str AX ovf F c hooks base send" and "running to_str ovf F c tok st" and "layout_ok F"
    and "hm_get (ix_files (as_index st)) fh = Some f"
    and "\<forall>t \<in> set (fr_terms f). term_in_range (ix_xorbs (as_index st)) t \<and> ft_start t < ft_end t"
  shows "\<exists>st'. agent_reconstruct tok send F base (hex F fh) st =
       (Ok (concat (map (\<lambda>t. chunk_run F c st (ft_xorb t) (unat (ft_start (fetched_from (fr_terms f) t)))
          (unat (ft_end t) - unat (ft_start t))) (fr_terms f))), st') \<and>
     running to_str ovf F c tok st' \<and> as_index st' = as_index st \<and> objects F c st' = objects F c st"
  by (rule agent_reconstruct_value [OF assms, unfolded term_output_def]) blast

section \<open>Round trip\<close>

lemma list_all2_concat_map:
  "(\<And>t. t \<in> set ts \<Longrightarrow> list_all2 R (f t) (g t)) \<Longrightarrow> list_all2 R (concat (map f ts)) (concat (map g ts))"
  by (induction ts) (auto intro: list_all2_appendI)

lemma distinct_concat_disjoint:
  "distinct (concat (map g ts)) \<Longrightarrow> t \<in> set ts \<Longrightarrow> u \<in> set ts \<Longrightarrow> t \<noteq> u \<Longrightarrow> set (g t) \<inter> set (g u) = {}"
  by (induction ts) auto

lemma slice_mono: "s' \<le> s \<Longrightarrow> e \<le> e' \<Longrightarrow> set (slice s e xs) \<subseteq> set (slice s' e' xs)"
proof
  fix x assume le: "s' \<le> s" "e \<le> e'" and "x \<in> set (slice s e xs)"
  then obtain k where k: "k < e - s" "s + k < length xs" "x = xs ! (s + k)"
    by (auto simp: slice_def in_set_conv_nth)
  then have "s + k - s' < length (slice s' e' xs)" "slice s' e' xs ! (s + k - s') = x"
    using le by (auto simp: slice_def)
  then show "x \<in> set (slice s' e' xs)" using nth_mem by blast
qed

text \<open>Terms that name each chunk hash at most once are fetched from their own start.\<close>

lemma distinct_unnested:
  assumes fits: "\<forall>t \<in> set ts. \<exists>hs. S (ft_xorb t) = Some hs \<and> ft_start t < ft_end t \<and> unat (ft_end t) \<le> length hs"
    and dist: "distinct (concat (map (\<lambda>t. case S (ft_xorb t) of None \<Rightarrow> [] | Some hs \<Rightarrow> slice (unat (ft_start t)) (unat (ft_end t)) hs) ts))"
    and t: "t \<in> set ts"
  shows "ft_start (fetched_from ts t) = ft_start t"
proof (rule ccontr)
  assume ne: "ft_start (fetched_from ts t) \<noteq> ft_start t"
  note u = fetched_from_spec [OF t]
  obtain hs where hs: "S (ft_xorb t) = Some hs" "ft_start t < ft_end t" "unat (ft_end t) \<le> length hs" using fits t by blast
  let ?g = "\<lambda>t. case S (ft_xorb t) of None \<Rightarrow> [] | Some hs \<Rightarrow> slice (unat (ft_start t)) (unat (ft_end t)) hs"
  have "set (?g t) \<inter> set (?g (fetched_from ts t)) = {}"
    by (rule distinct_concat_disjoint [OF dist t u(2)]) (use ne in auto)
  moreover have "set (?g t) \<subseteq> set (?g (fetched_from ts t))"
    using slice_mono u(3-5) hs by (simp add: word_le_nat_alt)
  moreover have "?g t \<noteq> []" using hs by (simp add: slice_def word_less_nat_alt)
  ultimately show False by (metis Int_absorb2 set_empty)
qed

lemma fits_in_range:
  assumes agr: "index_agrees F (objects F c st) (as_index st)" and wf: "validate_wf F" and hs: "stored_hashes F c st x = Some hs"
  obtains b info where "objects F c st x = Some b" "validate_xorb_object F b x = Ok (Some info)" "hs = xi_chunk_hashes info"
    "hm_get (ix_xorbs (as_index st)) x = Some (from_info info)" "info_wf info (length b)"
proof -
  obtain b info where b: "objects F c st x = Some b" "validate_xorb_object F b x = Ok (Some info)" "hs = xi_chunk_hashes info"
    using hs by (auto simp: stored_hashes_Some)
  have "x \<in> dom (hm_get (ix_xorbs (as_index st)))" using agr b(1) unfolding index_agrees_def by blast
  then obtain m where m: "hm_get (ix_xorbs (as_index st)) x = Some m" by blast
  have "m = from_info info" by (rule agrees_footer [OF agr wf m]) (use b in auto)
  then show thesis using that b m valid_xorb_info_wf [OF wf b(2)] by blast
qed

text \<open>The data of an unnested file, chunk by chunk.\<close>

lemma unnested_output:
  assumes agr: "index_agrees F (objects F c st) (as_index st)" and wf: "validate_wf F" and lay: "layout_ok F"
    and free: "collision_free F c st chunks"
    and fits: "\<forall>t \<in> set ts. \<exists>hs. stored_hashes F c st (ft_xorb t) = Some hs \<and> ft_start t < ft_end t \<and> unat (ft_end t) \<le> length hs"
    and names: "concat (map (\<lambda>t. case stored_hashes F c st (ft_xorb t) of None \<Rightarrow> []
        | Some hs \<Rightarrow> slice (unat (ft_start t)) (unat (ft_end t)) hs) ts) = map ck_hash chunks"
    and unn: "\<forall>t \<in> set ts. ft_start (fetched_from ts t) = ft_start t"
  shows "concat (map (term_output F c st ts) ts) = concat (map ck_data chunks)"
proof -
  let ?H = "\<lambda>t. case stored_hashes F c st (ft_xorb t) of None \<Rightarrow> [] | Some hs \<Rightarrow> slice (unat (ft_start t)) (unat (ft_end t)) hs"
  let ?R = "\<lambda>d h. \<forall>ch \<in> set chunks. ck_hash ch = h \<longrightarrow> d = ck_data ch"
  define D where "D t = (case (objects F c st (ft_xorb t), hm_get (ix_xorbs (as_index st)) (ft_xorb t)) of
      (Some b, Some m) \<Rightarrow> map (chunk_bytes F b (xm_boundary_offsets m)) [unat (ft_start t)..<unat (ft_end t)] | _ \<Rightarrow> [])" for t :: file_term
  have each: "list_all2 ?R (D t) (?H t) \<and> term_output F c st ts t = concat (D t)" if t: "t \<in> set ts" for t
  proof -
    obtain hs where hs: "stored_hashes F c st (ft_xorb t) = Some hs" "ft_start t < ft_end t" "unat (ft_end t) \<le> length hs"
      using fits t by blast
    obtain b info where b: "objects F c st (ft_xorb t) = Some b" "validate_xorb_object F b (ft_xorb t) = Ok (Some info)"
        "hs = xi_chunk_hashes info" "hm_get (ix_xorbs (as_index st)) (ft_xorb t) = Some (from_info info)"
      by (rule fits_in_range [OF agr wf hs(1)])
    have D: "D t = map (chunk_bytes F b (xi_chunk_boundary_offsets info)) [unat (ft_start t)..<unat (ft_end t)]"
      by (simp add: D_def b(1,4) from_info_def)
    have "?R (chunk_bytes F b (xi_chunk_boundary_offsets info) i) (hs ! i)" if "i < length hs" for i
      using free b that unfolding collision_free_def by metis
    then have "list_all2 ?R (D t) (?H t)"
      using hs by (auto simp: D list_all2_conv_all_nth slice_def word_less_nat_alt)
    moreover have "term_output F c st ts t = concat (D t)"
      using unn t hs(2) by (simp add: term_output_def chunk_run_def b(1,4) D from_info_def word_less_nat_alt)
    ultimately show ?thesis by blast
  qed
  have R: "list_all2 ?R (concat (map D ts)) (map ck_hash chunks)"
    unfolding names [symmetric] by (rule list_all2_concat_map) (use each in blast)
  have "concat (map D ts) = map ck_data chunks"
    by (rule nth_equalityI) (use R in \<open>auto simp: list_all2_conv_all_nth\<close>)
  moreover have "map (term_output F c st ts) ts = map (\<lambda>t. concat (D t)) ts" using each by (intro map_cong) auto
  moreover have "concat (map (\<lambda>t. concat (D t)) us) = concat (concat (map D us))" for us by (induction us) auto
  ultimately show ?thesis by (simp only:)
qed

lemma fits_term_in_range:
  assumes "index_agrees F (objects F c st) (as_index st)" "validate_wf F"
    and hs: "stored_hashes F c st (ft_xorb t) = Some hs" "ft_start t < ft_end t" "unat (ft_end t) \<le> length hs"
  shows "term_in_range (ix_xorbs (as_index st)) t"
proof -
  obtain ob :: bytes and info where "hs = xi_chunk_hashes info" "hm_get (ix_xorbs (as_index st)) (ft_xorb t) = Some (from_info info)"
      "info_wf info (length ob)"
    by (rule fits_in_range [OF assms(1,2) hs(1)])
  then show ?thesis
    using hs info_wf_lengths(1) by (auto simp: term_in_range_def from_info_def word_less_nat_alt)
qed

text \<open>An ingested file is delivered as it was.\<close>

lemma roundtrip:
  assumes on: "online False to_str AX ovf F c hooks base send tok st" and F: "chunker_ok F" "layout_ok F"
    and run: "ingest_bytes tok send ovf' F base volume dest b st = (Ok hh, st')"
    and free: "collision_free F c st' (next_block F b)"
    and new: "distinct (map ck_hash (next_block F b)) \<or>
      (\<forall>ch \<in> set (next_block F b). \<forall>x hs. stored_hashes F c st x = Some hs \<longrightarrow> ck_hash ch \<notin> set hs)"
  obtains fh f st'' where "hh = hex F fh" "hm_get (ix_catalog (as_index st')) (volume, dest) = Some fh"
    "agent_reconstruct tok send F base hh st' = (Ok b, st'')" "running to_str ovf F c tok st''" "same_content F c st' st''"
    "running to_str ovf F c tok st'" "hm_get (ix_files (as_index st')) fh = Some f" "fr_total_size f = of_nat (length b)"
    "hm_get (ix_catalog (as_index st')) = (hm_get (ix_catalog (as_index st)))((volume, dest) \<mapsto> fh)"
proof -
  have con: "connected False to_str AX ovf F c hooks base send" using on by (simp add: online_def)
  have gen: "\<forall>ch \<in> set (next_block F b). genuine F ch" "concat (map ck_data (next_block F b)) = b"
    using F(1) by (auto simp: chunker_ok_def)
  have clash: "cas.no_root_clash F c st' (next_block F b)"
    using free unfolding cas.no_root_clash_def collision_free_def by blast
  obtain fh f where reg: "hh = hex F fh" "online False to_str AX ovf F c hooks base send tok st'"
      "hm_get (ix_files (as_index st')) = (hm_get (ix_files (as_index st)))(fh \<mapsto> f)"
      "hm_get (ix_catalog (as_index st')) = (hm_get (ix_catalog (as_index st)))((volume, dest) \<mapsto> fh)"
      "cas.registered F c st (next_block F b) st' f"
    by (rule cas.ingest_registers [OF on gen(1) run])
  note regd = reg(5) [unfolded cas.registered_def]
  have st': "running to_str ovf F c tok st'" using reg(2) by (simp add: online_def)
  note agr = served_facts(4) [OF runningD(1) [OF st'] connectedD(4) [OF con]]
  have fits: "\<forall>t \<in> set (fr_terms f). \<exists>hs. stored_hashes F c st' (ft_xorb t) = Some hs \<and> ft_start t < ft_end t \<and> unat (ft_end t) \<le> length hs"
    using regd clash by (auto simp: cas.term_fits_def)
  have names: "concat (map (\<lambda>t. case stored_hashes F c st' (ft_xorb t) of None \<Rightarrow> []
      | Some hs \<Rightarrow> slice (unat (ft_start t)) (unat (ft_end t)) hs) (fr_terms f)) = map ck_hash (next_block F b)"
    using regd clash unfolding cas.term_hashes_def [abs_def] by blast
  have unn: "\<forall>t \<in> set (fr_terms f). ft_start (fetched_from (fr_terms f) t) = ft_start t"
  proof (cases "distinct (map ck_hash (next_block F b))")
    case True
    then show ?thesis using distinct_unnested [OF fits] names by simp
  next
    case False
    then have "\<forall>t \<in> set (fr_terms f). ft_start t = 0" using new regd by blast
    then show ?thesis using fetched_from_spec(2) by simp
  qed
  have range: "\<forall>t \<in> set (fr_terms f). term_in_range (ix_xorbs (as_index st')) t \<and> ft_start t < ft_end t"
    using fits fits_term_in_range [OF agr connectedD(4) [OF con]] by blast
  obtain st'' where "agent_reconstruct tok send F base (hex F fh) st' = (Ok (concat (map (term_output F c st' (fr_terms f)) (fr_terms f))), st'')"
      "running to_str ovf F c tok st''" "same_content F c st' st''"
    by (rule agent_reconstruct_value [OF con st' F(2) _ range]) (use reg(3) in auto)
  moreover have "concat (map (term_output F c st' (fr_terms f)) (fr_terms f)) = b"
    using unnested_output [OF agr connectedD(4) [OF con] F(2) free fits names unn] gen(2) by simp
  moreover have "fr_total_size f = of_nat (length b)"
    using regd arg_cong [OF gen(2), of length] by (simp add: unpacked_len_def length_concat comp_def)
  ultimately show thesis using that [of fh _ f] reg(1,3,4) st' by simp
qed

text \<open>
  C2. Round trip of the whole system: over a connection that does not fail, against a server with the local store, whatever it
  already holds, a successful ingest registers the path in the catalog under the reported hash, and
  reconstructing that hash gives back exactly the bytes, provided that no chunk occurs twice in the
  file or that the server knew none of its chunks. The fork has to chunk, pack and decode as
  documented and no hash of the file collides with a stored object.
\<close>

theorem ingest_reconstruct_roundtrip:
  assumes "online False to_str AX ovf F c hooks base send tok st" and "chunker_ok F" and "layout_ok F"
    and "ingest_bytes tok send ovf' F base volume dest b st = (Ok hh, st')"
    and "collision_free F c st' (next_block F b)"
    and "distinct (map ck_hash (next_block F b)) \<or>
      (\<forall>ch \<in> set (next_block F b). \<forall>x hs. stored_hashes F c st x = Some hs \<longrightarrow> ck_hash ch \<notin> set hs)"
  shows "\<exists>st''. agent_reconstruct tok send F base hh st' = (Ok b, st'') \<and>
     map_option (hex F) (hm_get (ix_catalog (as_index st')) (volume, dest)) = Some hh"
  by (rule roundtrip [OF assms]) auto

section \<open>Failed ingests\<close>

text \<open>
  C23. An ingest is all or nothing, wherever it fails and whatever the link loses: it only adds objects, the server
  stays consistent so that it can be repeated, and the file records and the catalog are either untouched or
  contain the whole file under its hash, with terms inside stored xorbs that name its chunks in
  order. An ingest that reports success has recorded the file; one that reports a
  failure has not, unless the answer to the last request was lost.
\<close>

theorem ingest_all_or_nothing:
  assumes "online lossy to_str AX ovf F c hooks base send tok st" and "chunker_ok F"
    and "ingest_bytes tok send ovf' F base volume dest b st = (r, st')"
  shows "online lossy to_str AX ovf F c hooks base send tok st' \<and> stored_hashes F c st \<subseteq>\<^sub>m stored_hashes F c st' \<and>
    (hm_get (ix_files (as_index st')) = hm_get (ix_files (as_index st)) \<and>
     hm_get (ix_catalog (as_index st')) = hm_get (ix_catalog (as_index st)) \<and> (\<forall>hh. r \<noteq> Ok hh) \<or>
     (\<exists>fh f. fh = file_hash F (map (\<lambda>ch. (ck_hash ch, of_nat (length (ck_data ch)))) (next_block F b)) \<and>
        hm_get (ix_files (as_index st')) = (hm_get (ix_files (as_index st)))(fh \<mapsto> f) \<and>
        hm_get (ix_catalog (as_index st')) = (hm_get (ix_catalog (as_index st)))((volume, dest) \<mapsto> fh) \<and>
        fr_total_size f = unpacked_len (next_block F b) \<and>
        (collision_free F c st' (next_block F b) \<longrightarrow>
           (\<exists>hss. list_all2 (\<lambda>t hs. \<exists>all. stored_hashes F c st' (ft_xorb t) = Some all \<and> ft_start t < ft_end t \<and>
               unat (ft_end t) \<le> length all \<and> hs = slice (unat (ft_start t)) (unat (ft_end t)) all) (fr_terms f) hss \<and>
             concat hss = map ck_hash (next_block F b))) \<and>
        (r = Ok (hex F fh) \<or> lossy \<and> (\<forall>hh. r \<noteq> Ok hh))))"
proof -
  let ?terms = "\<lambda>f. \<exists>hss. list_all2 (\<lambda>t hs. \<exists>all. stored_hashes F c st' (ft_xorb t) = Some all \<and> ft_start t < ft_end t \<and>
      unat (ft_end t) \<le> length all \<and> hs = slice (unat (ft_start t)) (unat (ft_end t)) all) (fr_terms f) hss \<and>
    concat hss = map ck_hash (next_block F b)"
  have terms: "fr_total_size f = unpacked_len (next_block F b) \<and> (collision_free F c st' (next_block F b) \<longrightarrow> ?terms f)"
    if reg: "cas.registered F c st (next_block F b) st' f" for f
  proof -
    have "?terms f" if clash: "cas.no_root_clash F c st' (next_block F b)"
    proof -
      have fits: "\<forall>t \<in> set (fr_terms f). cas.term_fits F c st' t"
        and names: "concat (map (cas.term_hashes F c st') (fr_terms f)) = map ck_hash (next_block F b)"
        using reg clash unfolding cas.registered_def by blast+
      have "\<exists>all. stored_hashes F c st' (ft_xorb t) = Some all \<and> ft_start t < ft_end t \<and> unat (ft_end t) \<le> length all \<and>
          cas.term_hashes F c st' t = slice (unat (ft_start t)) (unat (ft_end t)) all" if "t \<in> set (fr_terms f)" for t
        using fits that by (auto simp: cas.term_fits_def cas.term_hashes_def)
      then show ?thesis
        using names by (intro exI [of _ "map (cas.term_hashes F c st') (fr_terms f)"]) (simp add: list_all2_conv_all_nth)
    qed
    moreover have "collision_free F c st' (next_block F b) \<Longrightarrow> cas.no_root_clash F c st' (next_block F b)"
      unfolding cas.no_root_clash_def collision_free_def by blast
    ultimately show ?thesis using reg unfolding cas.registered_def by blast
  qed
  have "\<forall>ch \<in> set (next_block F b). genuine F ch" using assms(2) by (simp add: chunker_ok_def)
  note out = cas.ingest_outcome [OF assms(1) this assms(3)]
  show ?thesis
    by (rule conjI [OF out [THEN conjunct1] conjI [OF out [THEN conjunct2, THEN conjunct1]]],
        rule disj_forward [OF out [THEN conjunct2, THEN conjunct2]], assumption, elim exE conjE, intro exI conjI)
      (assumption | erule terms [THEN conjunct1] | erule terms [THEN conjunct2])+
qed

section \<open>Write, close, read\<close>

text \<open>
  C3. A file that was written through the mount of a running server (started on an empty local store that does not fail), over a
  connection that does not fail: it is closed with unflushed changes, its ingest
  succeeds, and either no chunk of it repeats or the server knows none of its chunks (otherwise a term can be
  decoded from the wrong bytes; and no hash of it collides). Then the reply is success, the catalog of the server has the file's path under the new hash, and
  every later read of the file, which now goes through the server, returns the window of the bytes that were written.
\<close>

theorem close_then_read:
  assumes on: "online False to_str AX ovf F c hooks (xf_base_url x) send tok st" and F: "chunker_ok F" "layout_ok F"
    and s: "hm_get (xf_open_files x) i = Some s" "sg_dirty s" and n: "hm_get (xf_nodes x) i = Some n"
    and path: "full_path x i = Some path" and len: "length (sg_buf s) < 2 ^ 63"
    and run: "ingest_bytes tok send ovf' F (xf_base_url x) (xf_volume x) path (sg_buf s) st = (Ok hh, st')"
    and free: "collision_free F c st' (next_block F (sg_buf s))"
    and new: "distinct (map ck_hash (next_block F (sg_buf s))) \<or>
      (\<forall>ch \<in> set (next_block F (sg_buf s)). \<forall>y hs. stored_hashes F c st y = Some hs \<longrightarrow> ck_hash ch \<notin> set hs)"
  defines "E \<equiv> \<lparr>en_tok = tok, en_send = send, en_ovf = ovf', en_fork = F\<rparr>"
  shows "\<exists>x'. release E i x st = Some (Ok ROk, x', st') \<and>
     map_option (hex F) (hm_get (ix_catalog (as_index st')) (xf_volume x, path)) = Some hh \<and>
     (\<forall>pos k. \<exists>x'' st''. fs_read_file E i pos k x' st' =
        (Ok (RData (take (unat k) (drop (nat (max pos 0)) (sg_buf s)))), x'', st''))"
proof -
  obtain fh st'' where rt: "hh = hex F fh" "hm_get (ix_catalog (as_index st')) (xf_volume x, path) = Some fh"
      "agent_reconstruct tok send F (xf_base_url x) hh st' = (Ok (sg_buf s), st'')"
    by (rule roundtrip [OF on F run free new])
  let ?x = "x\<lparr>xf_open_files := hm_insert i (s\<lparr>sg_dirty := False\<rparr>) (xf_open_files x)\<rparr>"
  let ?n = "n\<lparr>nd_file_hash := Some hh, nd_size := of_nat (length (sg_buf s))\<rparr>"
  let ?x' = "x\<lparr>xf_nodes := hm_insert i ?n (xf_nodes x), xf_cache := hm_remove i (xf_cache x),
      xf_open_files := hm_remove i (hm_insert i (s\<lparr>sg_dirty := False\<rparr>) (xf_open_files x))\<rparr>"
  have "full_path ?x i = Some path" using path by (simp add: full_path_def)
  then have rel: "release E i x st = Some (Ok ROk, ?x', st')"
    using s n run by (simp add: release_def flush_if_dirty_def flush_bytes_def E_def Let_def)
  have "file_bytes E i ?x' st' = (Ok (Some (sg_buf s)), ?x'\<lparr>xf_cache := hm_insert i (sg_buf s) (xf_cache ?x')\<rparr>, st'')"
    using rt(3) by (simp add: file_bytes_def E_def)
  then have "\<exists>x'' st''. fs_read_file E i pos k ?x' st' = (Ok (RData (take (unat k) (drop (nat (max pos 0)) (sg_buf s)))), x'', st'')" for pos k
    using read_slice_window [OF len] by (simp add: fs_read_file_def)
  then show ?thesis using rel rt(1,2) by auto
qed

section \<open>Terms that overlap\<close>

text \<open>
  C25. When a file uses a stretch of a xorb and later a part of that stretch again, the agent fetches the earlier,
  larger byte span for the second term and decodes from the start of that span: it delivers the first chunks
  of the stretch instead of the chunks that the second term names.
\<close>

theorem covered_term_misread:
  assumes "connected False to_str AX ovf F c hooks base send" and "running to_str ovf F c tok st" and "layout_ok F"
    and "hm_get (ix_files (as_index st)) fh = Some f" and "fr_terms f = [u, t]" and "ft_xorb t = ft_xorb u"
    and "ft_start u < ft_start t" and "ft_start t < ft_end t" and "ft_end t \<le> ft_end u"
    and "term_in_range (ix_xorbs (as_index st)) u"
  shows "\<exists>st'. agent_reconstruct tok send F base (hex F fh) st =
     (Ok (chunk_run F c st (ft_xorb u) (unat (ft_start u)) (unat (ft_end u) - unat (ft_start u)) @
          chunk_run F c st (ft_xorb u) (unat (ft_start u)) (unat (ft_end t) - unat (ft_start t))), st')"
proof -
  have "ft_start u < ft_end u" using assms(7-9) by (simp add: word_less_nat_alt word_le_nat_alt)
  moreover have "term_in_range (ix_xorbs (as_index st)) t"
    using assms(6-10) by (auto simp: term_in_range_def word_less_nat_alt word_le_nat_alt split: option.splits)
  ultimately have range: "\<forall>t \<in> set (fr_terms f). term_in_range (ix_xorbs (as_index st)) t \<and> ft_start t < ft_end t"
    using assms(5,8,10) by simp
  have "fetched_from [u, t] u = u" "fetched_from [u, t] t = u"
    using assms(6,7,9) by (simp_all add: fetched_from_def)
  then show ?thesis
    using agent_reconstruct_value [OF assms(1-4) range] assms(5,6) by (simp add: term_output_def) metis
qed

end
