(* ===== verification/Sample_Link.thy ===== *)
theory Sample_Link
  imports End_To_End "HOL-Library.Countable"
begin

text \<open>
  A concrete connection and the sample fork against the hypotheses of the end-to-end theorems: they can hold
  together. The connection hands every request to the router and its answer back; a JSON body travels as
  a header whose length is the number of the value. It models no code of the repository.
\<close>

section \<open>A connection\<close>

instance json :: countable
  by countable_datatype

definition dec_term :: "json \<Rightarrow> register_term option" where
  "dec_term j =
     Option.bind (as_str (jget j ''xorb'')) (\<lambda>x.
     Option.bind (as_u64 (jget j ''start'')) (\<lambda>s.
     Option.bind (as_u64 (jget j ''end'')) (\<lambda>e.
     Option.bind (as_u64 (jget j ''unpacked_length'')) (\<lambda>n.
     Some \<lparr>rg_xorb = x, rg_start = ucast s, rg_end = ucast e, rg_unpacked_length = n\<rparr>))))"

fun dec_terms :: "json list \<Rightarrow> register_term list option" where
  "dec_terms [] = Some []"
| "dec_terms (j # js) = Option.bind (dec_term j) (\<lambda>t. map_option ((#) t) (dec_terms js))"

definition dec_register :: "json \<Rightarrow> register_file_req option" where
  "dec_register j =
     Option.bind (as_str (jget j ''file_hash'')) (\<lambda>h.
     Option.bind (as_u64 (jget j ''total_size'')) (\<lambda>n.
     Option.bind (Option.bind (as_array (jget j ''terms'')) dec_terms) (\<lambda>ts.
     Some \<lparr>rf_file_hash = h, rf_total_size = n, rf_terms = ts, rf_volume = as_str (jget j ''volume''), rf_path = as_str (jget j ''path'')\<rparr>)))"

definition wire_axum :: axum where
  "wire_axum = sample_axum\<lparr>ax_json := (\<lambda>req. case map_of (rq_headers req) ''x-json'' of
       None \<Rightarrow> Inl (status_only 400) | Some s \<Rightarrow> Inr (from_nat (length s))), ax_register := dec_register\<rparr>"

definition wire :: "(request \<Rightarrow> 's \<Rightarrow> response res \<times> 's) \<Rightarrow> string \<Rightarrow> tx_req \<Rightarrow> 's \<Rightarrow> tx_resp res \<times> 's" where
  "wire app base q st =
     (let req = \<lparr>rq_method = tq_method q, rq_path = drop (length base) (tq_url q),
                 rq_headers = (case tq_body q of TxJson j \<Rightarrow> [(''x-json'', replicate (to_nat j) CHR ''x'')] | _ \<Rightarrow> []) @ tq_headers q,
                 rq_body = (case tq_body q of TxBytes b \<Rightarrow> b | _ \<Rightarrow> [])\<rparr>
      in (case app req st of
            (Ok rs, st') \<Rightarrow>
              (Ok \<lparr>tp_status = rs_status rs, tp_status_text = [], tp_json = (case rs_body rs of Json j \<Rightarrow> Ok j | _ \<Rightarrow> Err []),
                   tp_bytes = (case rs_body rs of Raw b \<Rightarrow> Ok b | _ \<Rightarrow> Ok [])\<rparr>, st')
          | (_, st') \<Rightarrow> (Err ''connection closed'', st')))"

lemma wire_axum_ok: "axum_ok wire_axum"
  using sample_axum_ok by (simp add: axum_ok_def wire_axum_def)

lemma wire_serde_ok: "serde_ok wire_axum"
proof -
  have "dec_term (json_of_register_term t) = Some t" for t
    by (simp add: dec_term_def json_of_register_term_def)
  then have "dec_terms (map json_of_register_term ts) = Some ts" for ts by (induction ts) auto
  then show ?thesis by (simp add: serde_ok_def wire_axum_def dec_register_def)
qed

lemma wire_link: "http_link False wire_axum app base (wire app base)"
  unfolding http_link_def
proof (intro allI impI)
  fix q :: tx_req and path st
  assume q: "tq_url q = base @ path \<and> starts_with ''/'' path \<and> list_all plain (split_on CHR ''/'' path)"
  let ?req = "\<lparr>rq_method = tq_method q, rq_path = path,
     rq_headers = (case tq_body q of TxJson j \<Rightarrow> [(''x-json'', replicate (to_nat j) CHR ''x'')] | _ \<Rightarrow> []) @ tq_headers q,
     rq_body = (case tq_body q of TxBytes b \<Rightarrow> b | _ \<Rightarrow> [])\<rparr>"
  have "arrives wire_axum q path ?req"
    by (cases "tq_body q") (auto simp: arrives_def wire_axum_def)
  moreover have "(\<exists>rs tp. fst (app ?req st) = Ok rs \<and> wire app base q st = (Ok tp, snd (app ?req st)) \<and> resp_matches rs tp) \<or>
      (\<exists>e. (\<forall>rs. fst (app ?req st) \<noteq> Ok rs) \<and> wire app base q st = (Err e, snd (app ?req st)))"
    using q by (cases "fst (app ?req st)"; cases "app ?req st") (auto simp: wire_def resp_matches_def)
  ultimately show "\<exists>req. arrives wire_axum q path req \<and>
      ((\<exists>rs tp. fst (app req st) = Ok rs \<and> wire app base q st = (Ok tp, snd (app req st)) \<and> resp_matches rs tp) \<or>
       (\<exists>e. (\<forall>rs. fst (app req st) \<noteq> Ok rs) \<and> wire app base q st = (Err e, snd (app req st))) \<or>
       False \<and> (\<exists>e st'. wire app base q st = (Err e, st') \<and> st' \<in> {st, snd (app req st)}))" by blast
qed

section \<open>The sample fork\<close>

lemma sample_chunker_ok: "chunker_ok sample_fork"
proof -
  have "concat (map ck_data (sample_next_block b)) = b \<and> (\<forall>ch \<in> set (sample_next_block b). ck_hash ch = sample_data_hash (ck_data ch))" for b
    by (induction b rule: sample_next_block.induct) auto
  then show ?thesis by (simp add: chunker_ok_def genuine_def)
qed

definition pack :: "bytes list \<Rightarrow> bytes" where
  "pack ds = concat (map (\<lambda>d. of_nat (length d) # d) ds)"

lemma parse_pack: "\<forall>d \<in> set ds. length d < 2 ^ 8 \<Longrightarrow> parse_chunks (pack ds) = Some ds"
proof (induction ds)
  case (Cons d ds)
  then have "unat (of_nat (length d) :: u8) = length d" by (simp add: unsigned_of_nat take_bit_nat_eq_self)
  then show ?case using Cons by (simp add: pack_def)
qed (simp add: pack_def)

lemma pack_parse: "parse_chunks b = Some ds \<Longrightarrow> b = pack ds \<and> (\<forall>d \<in> set ds. length d < 2 ^ 8)"
proof (induction b arbitrary: ds rule: parse_chunks.induct)
  case (2 n rest)
  have "unat n < 2 ^ 8" using unsigned_less [of n] by simp
  moreover from "2.prems" obtain es where es: "unat n \<le> length rest" "parse_chunks (drop (unat n) rest) = Some es" "ds = take (unat n) rest # es"
    by (auto split: if_splits)
  moreover have "rest = take (unat n) rest @ pack es" using "2.IH" [OF es(1,2)] by (metis append_take_drop_id)
  ultimately show ?case using "2.IH" [OF es(1,2)] by (simp add: pack_def)
qed (simp add: pack_def)

lemma sample_serialize_ok: "serialize_ok sample_fork"
  unfolding serialize_ok_def
proof (intro allI impI)
  fix cs h b
  assume a: "cs \<noteq> [] \<and> (\<forall>ch \<in> set cs. genuine sample_fork ch) \<and> from_xorb sample_fork cs = Ok (h, b)"
  then have b: "b = pack (map ck_data cs)" "h = xorb_root (map ck_hash cs)" "length b < 2 ^ 32" "\<forall>ch \<in> set cs. length (ck_data ch) < 2 ^ 8"
    by (auto simp: sample_from_xorb_def pack_def comp_def Let_def not_le split: if_splits)
  have "map sample_data_hash (map ck_data cs) = map ck_hash cs" using a by (auto simp: genuine_def)
  moreover have "parse_chunks b = Some (map ck_data cs)" unfolding b(1) by (rule parse_pack) (use b(4) in auto)
  moreover have "b \<noteq> []" using a by (auto simp: b(1) pack_def neq_Nil_conv)
  ultimately show "\<exists>info. validate_xorb_object sample_fork b h = Ok (Some info) \<and> xi_chunk_hashes info = map ck_hash cs"
    using b(2,3) by (simp add: sample_validate_def sample_info_def not_le del: map_map)
qed

lemma sample_layout_ok: "layout_ok sample_fork"
  unfolding layout_ok_def
proof (intro allI impI)
  fix b x info i
  assume a: "validate_xorb_object sample_fork b x = Ok (Some info) \<and> i < length (xi_chunk_hashes info)"
  then obtain ds where ds: "parse_chunks b = Some ds" "info = sample_info ds" "length b < 2 ^ 32"
    by (auto simp: sample_validate_def split: if_splits option.splits)
  have b: "b = pack ds" "\<forall>d \<in> set ds. length d < 2 ^ 8" using pack_parse [OF ds(1)] by auto
  have i: "i < length ds" using a ds(2) by (simp add: sample_info_def)
  let ?o = "xi_chunk_boundary_offsets info" and ?ns = "map (\<lambda>d. Suc (length d)) ds"
  have p: "chunk_start ?o k = sum_list (take k ?ns)" if "k \<le> length ds" for k
  proof (cases k)
    case (Suc j)
    have "sum_list (take k ?ns) \<le> length b" using sum_list_take_le [of k ?ns] parse_chunks_length [OF ds(1)] by simp
    then show ?thesis
      using Suc that ds(3) by (simp add: chunk_start_def ds(2) sample_info_def nth_ends_from unat_of_nat_u32)
  qed (simp add: chunk_start_def)
  have len: "length (pack es) = sum_list (map (\<lambda>d. Suc (length d)) es)" for es by (induction es) (auto simp: pack_def)
  have split: "pack ds = pack (take i ds) @ (of_nat (length (ds ! i)) # ds ! i) @ pack (drop (Suc i) ds)"
    by (subst id_take_nth_drop [OF i]) (simp add: pack_def)
  have seg: "segment b ?o i (Suc i) = of_nat (length (ds ! i)) # ds ! i"
    using i p [of i] p [of "Suc i"] split len [of "take i ds"]
    by (simp add: segment_def b(1) take_map take_Suc_conv_app_nth)
  have "unat (of_nat (length (ds ! i)) :: u8) = length (ds ! i)"
    using b(2) i by (simp add: unsigned_of_nat take_bit_nat_eq_self)
  then show "\<exists>d. compute_data_hash sample_fork d = xi_chunk_hashes info ! i \<and>
      (\<forall>rest. deserialize_chunk sample_fork (segment b ?o i (Suc i) @ rest) = Ok (d, rest))"
    using i by (intro exI [of _ "ds ! i"]) (simp add: seg, simp add: ds(2) sample_info_def)
qed

section \<open>The sample server behind the connection\<close>

abbreviation sample_base :: string where
  "sample_base \<equiv> lf_public_base sample_store"

definition sample_send :: "tx_req \<Rightarrow> fs app_state \<Rightarrow> tx_resp res \<times> fs app_state" where
  "sample_send = wire (router Some wire_axum True sample_fork sample_ops False) sample_base"

lemma sample_connected: "connected False Some wire_axum True sample_fork sample_store False sample_base sample_send"
  using wire_axum_ok wire_serde_ok sample_validate_wf sample_hex_ok wire_link
  by (simp add: connected_def to_str_ok_def sample_send_def)

lemma sample_auth: "as_auth sample_st0 = Loopback" "as_auth sample_st1 = Loopback" "as_auth sample_st2 = Loopback"
proof -
  show 0: "as_auth sample_st0 = Loopback" by (simp add: sample_st0_def app_state_new_def)
  show 1: "as_auth sample_st1 = Loopback"
    using handle_keeps_auth [of Some True sample_fork sample_ops "CPutXorb (hex sample_fork sample_xorb) sample_body" sample_st0]
      sample_put(1) 0 by (simp del: sample_fork_simps)
  show "as_auth sample_st2 = Loopback"
    using handle_keeps_auth [of Some True sample_fork sample_ops "CRegisterFile sample_file" sample_st1] sample_register(1) 1
    by (simp del: sample_fork_simps)
qed

lemma sample_running:
  "running Some True sample_fork sample_store None sample_st0" "running Some True sample_fork sample_store None sample_st1"
  "running Some True sample_fork sample_store None sample_st2"
  using sample_served0 sample_served1 sample_served2 sample_auth by (simp_all add: running_def authorised_def)

lemma sample_chunk_run:
  assumes "objects sample_fork sample_store st sample_xorb = Some sample_body"
    and "hm_get (ix_xorbs (as_index st)) sample_xorb = Some (from_info sample_xorb_info)"
  shows "chunk_run sample_fork sample_store st sample_xorb 0 2 = [97, 98, 99]"
    and "chunk_run sample_fork sample_store st sample_xorb 0 1 = [97]"
    and "chunk_run sample_fork sample_store st sample_xorb 1 1 = [98, 99]"
proof -
  have "chunk_bytes sample_fork sample_body [2, 5] 0 = [97]" "chunk_bytes sample_fork sample_body [2, 5] (Suc 0) = [98, 99]"
    by (simp_all add: chunk_bytes_def segment_def chunk_start_def sample_body_def)
  moreover have "[0..<0 + 2] = [0, Suc 0]" "[0..<0 + 1] = [0]" "[1..<1 + 1] = [Suc 0]" by (simp_all add: upt_rec)
  ultimately show "chunk_run sample_fork sample_store st sample_xorb 0 2 = [97, 98, 99]"
    "chunk_run sample_fork sample_store st sample_xorb 0 1 = [97]" "chunk_run sample_fork sample_store st sample_xorb 1 1 = [98, 99]"
    using assms unfolding chunk_run_def by (simp_all add: from_info_def sample_xorb_info_def)
qed

theorem agent_reconstructs_witness:
  "\<exists>st'. agent_reconstruct None sample_send sample_fork sample_base (hex sample_fork 7) sample_st2 = (Ok [97, 98, 99], st')"
proof -
  have f: "hm_get (ix_files (as_index sample_st2)) 7 = Some \<lparr>fr_total_size = 3, fr_terms = sample_terms\<rparr>"
    by (simp add: sample_register(6))
  have "chunk_run sample_fork sample_store sample_st2 sample_xorb 0 2 = [97, 98, 99]"
    by (rule sample_chunk_run(1)) (simp_all add: sample_register(2,4) sample_put(3) sample_st1_footer)
  then show ?thesis
    using agent_reconstructs [OF sample_connected sample_running(3) sample_layout_ok f] sample_in_range
    by (auto simp: sample_terms_def fetched_from_def simp del: sample_fork_simps)
qed

text \<open>A file that uses both chunks of the sample xorb and then its second chunk again.\<close>

definition cov_file :: register_file_req where
  "cov_file = sample_file\<lparr>rf_file_hash := hex sample_fork 11,
     rf_terms := [\<lparr>rg_xorb = hex sample_fork sample_xorb, rg_start = 0, rg_end = 2, rg_unpacked_length = 3\<rparr>,
                  \<lparr>rg_xorb = hex sample_fork sample_xorb, rg_start = 1, rg_end = 2, rg_unpacked_length = 2\<rparr>]\<rparr>"

definition cov_st :: "fs app_state" where
  "cov_st = snd (register_file sample_fork cov_file sample_st1)"

lemma cov_register:
  "register_file sample_fork cov_file sample_st1 = (fst (register_file sample_fork cov_file sample_st1), cov_st)"
  "as_poisoned cov_st = False" "ix_xorbs (as_index cov_st) = ix_xorbs (as_index sample_st1)" "as_blob cov_st = as_blob sample_st1"
  "hm_get (ix_files (as_index cov_st)) 11 = Some \<lparr>fr_total_size = 3,
     fr_terms = [\<lparr>ft_xorb = sample_xorb, ft_start = 0, ft_end = 2, ft_unpacked_length = 3\<rparr>,
                 \<lparr>ft_xorb = sample_xorb, ft_start = 1, ft_end = 2, ft_unpacked_length = 2\<rparr>]\<rparr>"
  using sample_hash_roundtrip sample_put(2) sample_st1_index
  by (auto simp: cov_st_def register_file_def cov_file_def sample_file_def Let_def simp del: sample_fork_simps)

lemma cov_running: "running Some True sample_fork sample_store None cov_st"
  by (rule running_step [OF sample_running(2), of "CRegisterFile cov_file"]) (use cov_register(1,2) in simp_all)

theorem covered_term_misread_witness:
  "\<exists>st'. agent_reconstruct None sample_send sample_fork sample_base (hex sample_fork 11) cov_st = (Ok ([97, 98, 99] @ [97]), st')"
proof -
  let ?u = "\<lparr>ft_xorb = sample_xorb, ft_start = 0, ft_end = 2, ft_unpacked_length = 3\<rparr>"
  have "chunk_run sample_fork sample_store cov_st sample_xorb 0 2 = [97, 98, 99]" "chunk_run sample_fork sample_store cov_st sample_xorb 0 1 = [97]"
    by (rule sample_chunk_run; simp add: cov_register(3,4) sample_put(3) sample_st1_footer)+
  moreover have "term_in_range (ix_xorbs (as_index cov_st)) ?u"
    using sample_st1_footer by (simp add: term_in_range_def cov_register(3) from_info_def sample_xorb_info_def)
  ultimately show ?thesis
    using covered_term_misread [OF sample_connected cov_running sample_layout_ok cov_register(5)]
    by (simp del: sample_fork_simps)
qed

section \<open>Ingesting a one-chunk file into the empty sample server\<close>

abbreviation one_chunk :: chunk where
  "one_chunk \<equiv> \<lparr>ck_hash = 98, ck_data = [97]\<rparr>"

lemma one_chunk_facts:
  "sample_next_block [97] = [one_chunk]" "sample_from_xorb [one_chunk] = Ok (99, [1, 97])" "genuine sample_fork one_chunk"
  by (simp_all add: sample_data_hash_def enc_bytes_def sample_from_xorb_def xorb_root_def genuine_def)

lemma sample_online0: "online False Some wire_axum True sample_fork sample_store False sample_base sample_send None sample_st0"
  using sample_connected sample_serialize_ok sample_running(1) by (simp add: online_def)

lemma sample_objects0: "objects sample_fork sample_store sample_st0 = (\<lambda>_. None)"
  using sample_fs_facts(3) by (simp add: sample_st0_def fun_eq_iff)

text \<open>The registration request over the sample connection reaches the handler.\<close>

lemma sample_post_files:
  assumes "running Some True sample_fork sample_store None st"
  shows "sample_send (auth None (client_post (sample_base @ files_path) (TxJson (register_json sample_fork fh n ts v p)))) st =
     (case register_file sample_fork \<lparr>rf_file_hash = hex sample_fork fh, rf_total_size = n, rf_terms = ts, rf_volume = Some v, rf_path = Some p\<rparr> st of
        (Ok rs, st') \<Rightarrow> (Ok \<lparr>tp_status = rs_status rs, tp_status_text = [], tp_json = (case rs_body rs of Json j \<Rightarrow> Ok j | _ \<Rightarrow> Err []),
                             tp_bytes = (case rs_body rs of Raw b \<Rightarrow> Ok b | _ \<Rightarrow> Ok [])\<rparr>, st')
      | (_, st') \<Rightarrow> (Err ''connection closed'', st'))"
proof -
  let ?j = "register_json sample_fork fh n ts v p"
  let ?rf = "\<lparr>rf_file_hash = hex sample_fork fh, rf_total_size = n, rf_terms = ts, rf_volume = Some v, rf_path = Some p\<rparr>"
  let ?q = "client_post (sample_base @ files_path) (TxJson ?j)"
  let ?req = "\<lparr>rq_method = POST, rq_path = files_path, rq_headers = [(''x-json'', replicate (to_nat ?j) CHR ''x'')], rq_body = []\<rparr>"
  have arr: "arrives wire_axum (auth None ?q) files_path ?req" by (simp add: arrives_def auth_def wire_axum_def)
  have sj: "ax_register wire_axum ?j = Some ?rf"
    using wire_serde_ok by (simp add: serde_ok_def register_json_def del: sample_fork_simps)
  have disp: "dispatch wire_axum False ?req = Inr (CRegisterFile ?rf)"
    using arrives_dispatch(5) [OF wire_axum_ok sample_hex_ok arr _ _ sj, of False] by simp
  have "run_route Some wire_axum True sample_fork sample_ops False ?req st = register_file sample_fork ?rf st"
    using run_route_call [OF disp, of Some True sample_fork sample_ops st] by simp
  then have "router Some wire_axum True sample_fork sample_ops False ?req st = register_file sample_fork ?rf st"
    using router_passes [OF runningD(2) [OF assms] connectedD(3) [OF sample_connected] _ arr, of True sample_fork sample_ops False]
    by simp
  then show ?thesis by (simp add: sample_send_def wire_def auth_def client_post_def del: sample_fork_simps)
qed

text \<open>The run of an ingest of one chunk up to the registration, over any connection that delivers the other requests.\<close>

lemma sample_stages:
  assumes st0: "running Some True sample_fork sample_store None st0" "objects sample_fork sample_store st0 = (\<lambda>_. None)"
    "hm_get (ix_chunk_index (as_index st0)) 98 = None"
    and send: "\<And>h w. query_chunk None send sample_base h w = query_chunk None sample_send sample_base h w"
    "\<And>h b w. upload_xorb None send sample_base h b w = upload_xorb None sample_send sample_base h b w"
  obtains fh ts st2 rs st3 where "running Some True sample_fork sample_store None st2"
    "objects sample_fork sample_store st2 = [99 \<mapsto> [1, 97]]"
    "register_file sample_fork \<lparr>rf_file_hash = hex sample_fork fh, rf_total_size = 1, rf_terms = ts, rf_volume = Some vol, rf_path = Some dest\<rparr> st2 =
       (Ok (ok_json rs), st3)"
    "ingest_bytes None send True sample_fork sample_base vol dest [97] st0 =
       (case send (auth None (client_post (sample_base @ files_path) (TxJson (register_json sample_fork fh 1 ts vol dest)))) st2 of
          (r, w) \<Rightarrow> (bind_res (context_res ''register file'' r) (\<lambda>resp. if is_success (tp_status resp) then Ok (hex sample_fork fh)
             else Err (''file registration failed: HTTP '' @ tp_status_text resp)), w))"
proof -
  have nb: "next_block sample_fork [97] = [one_chunk]" "from_xorb sample_fork [one_chunk] = Ok (99, [1, 97])"
    using one_chunk_facts by simp_all
  obtain r1 st1 where q: "query_chunk None sample_send sample_base (hex sample_fork 98) st0 = (r1, st1)" by fastforce
  have q': "running Some True sample_fork sample_store None st1" "as_blob st1 = as_blob st0" "r1 = Ok None"
    using wire_query [OF sample_connected st0(1) q] st0(3) by auto
  have qa: "query_all None send sample_fork sample_base [one_chunk] st0 = (Ok [None], st1)"
    using q q'(3) by (simp add: send(1) del: sample_fork_simps)
  have gate: "validate_xorb_object sample_fork [1, 97] 99 = Ok (Some (sample_info [[97]]))"
    by (simp add: sample_validate_def xorb_root_def sample_data_hash_def enc_bytes_def)
  obtain r2 st2 where u: "upload_xorb None sample_send sample_base (hex sample_fork 99) [1, 97] st1 = (r2, st2)" by fastforce
  have o1: "objects sample_fork sample_store st1 = (\<lambda>_. None)" using st0(2) q'(2) by simp
  have u': "running Some True sample_fork sample_store None st2" "r2 = Ok ()" "objects sample_fork sample_store st2 = [99 \<mapsto> [1, 97]]"
    using wire_upload [OF sample_connected q'(1) gate u] unfolding o1 by (auto simp: MAX_BODY_BYTES_def split: if_splits)
  let ?t = "\<lparr>rg_xorb = hex sample_fork 99, rg_start = 0, rg_end = 1, rg_unpacked_length = 1\<rparr>"
  have ne: "novel_end [one_chunk] [None] 0 = 1"
    by (simp add: novel_end_def novel_run.simps MAX_XORB_CHUNKS_def MAX_XORB_UNCOMPRESSED_def)
  have sl: "slice 0 1 [one_chunk] = [one_chunk]" by (simp add: slice_def)
  have il: "ingest_loop None send True sample_fork sample_base [one_chunk] [None] 0 [] st1 = (Ok [json_of_register_term ?t], st2)"
    using u u'(2) nb(2) sl
    by (simp add: ingest_loop.simps ne send(2) json_of_register_term_def unpacked_len_def Let_def del: sample_fork_simps)
  define fh where "fh = file_hash sample_fork [(98, 1)]"
  have "dom (hm_get (ix_xorbs (as_index st2))) = dom (objects sample_fork sample_store st2)"
    using served_facts(4) [OF runningD(1) [OF u'(1)] sample_validate_wf] by (simp add: index_agrees_def)
  then have "99 \<in> dom (hm_get (ix_xorbs (as_index st2)))" using u'(3) by simp
  then obtain j st3 where rg: "register_file sample_fork \<lparr>rf_file_hash = hex sample_fork fh, rf_total_size = 1, rf_terms = [?t],
      rf_volume = Some vol, rf_path = Some dest\<rparr> st2 = (Ok (ok_json j), st3)"
    using sample_hash_roundtrip served_np [OF runningD(1) [OF u'(1)]] by (auto simp: register_file_def Let_def simp del: sample_fork_simps)
  have fh: "file_hash sample_fork (map (\<lambda>c. (ck_hash c, of_nat (length (ck_data c)))) [one_chunk]) = fh" "unpacked_len [one_chunk] = 1"
    by (simp_all add: fh_def unpacked_len_def del: sample_fork_simps)
  have ts: "map json_of_register_term [?t] = [json_of_register_term ?t]" by simp
  show thesis
    by (rule that [OF u'(1,3) rg])
      (simp only: ingest_bytes_def Let_def nb(1) fh qa il register_json_def ts prod.case res.case)
qed

text \<open>What the registration leaves behind.\<close>

lemma sample_registered:
  assumes "running Some True sample_fork sample_store None st"
    and "register_file sample_fork \<lparr>rf_file_hash = hex sample_fork fh, rf_total_size = n, rf_terms = ts, rf_volume = Some v, rf_path = Some p\<rparr> st =
       (Ok (ok_json j), st')"
  shows "as_blob st' = as_blob st" "hm_get (ix_catalog (as_index st')) (v, p) = Some fh"
proof -
  note val = register_file_value [OF sample_hex_ok served_np [OF runningD(1) [OF assms(1)]] _ _ _ assms(2), of fh v p, simplified]
  show "as_blob st' = as_blob st" using val by simp
  show "hm_get (ix_catalog (as_index st')) (v, p) = Some fh" using val by (auto simp: ok_json_def with_text_def)
qed

lemma sample_ingest_from:
  assumes "running Some True sample_fork sample_store None st0" "objects sample_fork sample_store st0 = (\<lambda>_. None)"
    "hm_get (ix_chunk_index (as_index st0)) 98 = None"
  obtains hh st' where "ingest_bytes None sample_send True sample_fork sample_base vol dest [97] st0 = (Ok hh, st')"
    "objects sample_fork sample_store st' = [99 \<mapsto> [1, 97]]"
proof (rule sample_stages [OF assms refl refl])
  fix fh ts st2 rs st3
  assume st2: "running Some True sample_fork sample_store None st2" "objects sample_fork sample_store st2 = [99 \<mapsto> [1, 97]]"
    and rg: "register_file sample_fork \<lparr>rf_file_hash = hex sample_fork fh, rf_total_size = 1, rf_terms = ts, rf_volume = Some vol,
       rf_path = Some dest\<rparr> st2 = (Ok (ok_json rs), st3)"
    and run: "ingest_bytes None sample_send True sample_fork sample_base vol dest [97] st0 =
       (case sample_send (auth None (client_post (sample_base @ files_path) (TxJson (register_json sample_fork fh 1 ts vol dest)))) st2 of
          (r, w) \<Rightarrow> (bind_res (context_res ''register file'' r) (\<lambda>resp. if is_success (tp_status resp) then Ok (hex sample_fork fh)
             else Err (''file registration failed: HTTP '' @ tp_status_text resp)), w))"
  have "ingest_bytes None sample_send True sample_fork sample_base vol dest [97] st0 = (Ok (hex sample_fork fh), st3)"
    unfolding run sample_post_files [OF st2(1)] rg by (simp add: is_success_def)
  then show thesis using that sample_registered(1) [OF st2(1) rg] st2(2) by simp
qed

lemma sample_st0_chunks: "hm_get (ix_chunk_index (as_index sample_st0)) k = None"
  by (simp add: sample_st0_def index_default_def)

lemmas sample_ingest = sample_ingest_from [OF sample_running(1) sample_objects0 sample_st0_chunks]

lemma sample_collision_free:
  assumes "objects sample_fork sample_store st = [99 \<mapsto> [1, 97]]"
  shows "collision_free sample_fork sample_store st [one_chunk]"
proof -
  have v: "validate_xorb_object sample_fork [1, 97] 99 = Ok (Some (sample_info [[97]]))"
    by (simp add: sample_validate_def xorb_root_def sample_data_hash_def enc_bytes_def)
  have info: "xi_chunk_hashes (sample_info [[97]]) = [98]" "xi_chunk_boundary_offsets (sample_info [[97]]) = [2]"
    by (simp_all add: sample_info_def sample_data_hash_def enc_bytes_def)
  have "slice i j [one_chunk] = [] \<or> slice i j [one_chunk] = [one_chunk]" for i j
    by (cases i; cases "j - i") (simp_all add: slice_def)
  then have "hs = map ck_hash (slice i j [one_chunk])"
    if "from_xorb sample_fork (slice i j [one_chunk]) = Ok (x, b)" "stored_hashes sample_fork sample_store st x = Some hs" for i j x b hs
  proof -
    have x: "x = 99" "hs = [98]" using that(2) v info(1) by (auto simp: stored_hashes_Some assms simp del: sample_fork_simps split: if_splits)
    have "slice i j [one_chunk] \<noteq> []" using that(1) x(1) by (auto simp: sample_from_xorb_def xorb_root_def)
    then have "slice i j [one_chunk] = [one_chunk]" using \<open>\<And>j i. slice i j [one_chunk] = [] \<or> slice i j [one_chunk] = [one_chunk]\<close> by blast
    then show ?thesis using x by simp
  qed
  moreover have "chunk_bytes sample_fork [1, 97] [2] 0 = [97]"
    by (simp add: chunk_bytes_def segment_def chunk_start_def)
  ultimately show ?thesis
    using v info unfolding collision_free_def assms by (auto simp del: sample_fork_simps split: if_splits)
qed

theorem ingest_reconstruct_roundtrip_witness:
  "\<exists>hh st' st''. ingest_bytes None sample_send True sample_fork sample_base ''vol'' ''/n'' [97] sample_st0 = (Ok hh, st') \<and>
     agent_reconstruct None sample_send sample_fork sample_base hh st' = (Ok [97], st'')"
proof -
  obtain hh st' where i: "ingest_bytes None sample_send True sample_fork sample_base ''vol'' ''/n'' [97] sample_st0 = (Ok hh, st')"
      "objects sample_fork sample_store st' = [99 \<mapsto> [1, 97]]" by (rule sample_ingest)
  have "collision_free sample_fork sample_store st' (next_block sample_fork [97])" "distinct (map ck_hash (next_block sample_fork [97]))"
    using sample_collision_free [OF i(2)] one_chunk_facts(1) by simp_all
  with ingest_reconstruct_roundtrip [OF sample_online0 sample_chunker_ok sample_layout_ok i(1)] i(1) show ?thesis by blast
qed

text \<open>The mount with one open file that was written and not yet flushed.\<close>

definition dirty_fs :: xetfs where
  "dirty_fs = sample_fs1\<lparr>xf_base_url := sample_base, xf_open_files := [(2, \<lparr>sg_buf = [97], sg_dirty = True\<rparr>)]\<rparr>"

lemma dirty_fs_path: "full_path dirty_fs 2 = Some ''/a''"
  using sample_fs1_path by (simp add: full_path_def dirty_fs_def)

theorem close_then_read_witness:
  "\<exists>x' st' x'' st''. release \<lparr>en_tok = None, en_send = sample_send, en_ovf = True, en_fork = sample_fork\<rparr> 2 dirty_fs sample_st0 = Some (Ok ROk, x', st') \<and>
     fs_read_file \<lparr>en_tok = None, en_send = sample_send, en_ovf = True, en_fork = sample_fork\<rparr> 2 0 5 x' st' = (Ok (RData [97]), x'', st'')"
proof -
  let ?s = "\<lparr>sg_buf = [97], sg_dirty = True\<rparr>"
  let ?n = "\<lparr>nd_name = ''a'', nd_kind = File, nd_parent = ROOT, nd_children = [], nd_file_hash = None, nd_size = 0\<rparr>"
  obtain hh st' where i: "ingest_bytes None sample_send True sample_fork sample_base (xf_volume dirty_fs) ''/a'' [97] sample_st0 = (Ok hh, st')"
      "objects sample_fork sample_store st' = [99 \<mapsto> [1, 97]]" by (rule sample_ingest)
  have x: "xf_base_url dirty_fs = sample_base" "hm_get (xf_open_files dirty_fs) 2 = Some ?s" "hm_get (xf_nodes dirty_fs) 2 = Some ?n"
    by (simp_all add: dirty_fs_def sample_fs1_eval ROOT_def)
  have nb: "collision_free sample_fork sample_store st' (next_block sample_fork (sg_buf ?s))" "distinct (map ck_hash (next_block sample_fork (sg_buf ?s)))"
    using sample_collision_free [OF i(2)] one_chunk_facts(1) by simp_all
  have on: "online False Some wire_axum True sample_fork sample_store False (xf_base_url dirty_fs) sample_send None sample_st0"
    using sample_online0 x(1) by simp
  have run: "ingest_bytes None sample_send True sample_fork (xf_base_url dirty_fs) (xf_volume dirty_fs) ''/a'' (sg_buf ?s) sample_st0 = (Ok hh, st')"
    using i(1) x(1) by simp
  have dirty: "sg_dirty ?s" and len: "length (sg_buf ?s) < 2 ^ 63" by simp_all
  have win: "take (unat (5 :: u32)) (drop (nat (max (0 :: int) 0)) [97 :: u8]) = [97]" by simp
  obtain x' where r: "release \<lparr>en_tok = None, en_send = sample_send, en_ovf = True, en_fork = sample_fork\<rparr> 2 dirty_fs sample_st0 = Some (Ok ROk, x', st')"
      "\<forall>pos k. \<exists>x'' st''. fs_read_file \<lparr>en_tok = None, en_send = sample_send, en_ovf = True, en_fork = sample_fork\<rparr> 2 pos k x' st' =
        (Ok (RData (take (unat k) (drop (nat (max pos 0)) (sg_buf ?s)))), x'', st'')"
    using close_then_read [OF on sample_chunker_ok sample_layout_ok x(2) dirty x(3) dirty_fs_path len run nb(1) disjI1, OF nb(2)] by blast
  then obtain x'' st'' where "fs_read_file \<lparr>en_tok = None, en_send = sample_send, en_ovf = True, en_fork = sample_fork\<rparr> 2 0 5 x' st' =
      (Ok (RData [97]), x'', st'')" using win by (metis staging.select_convs(1))
  then show ?thesis using r(1) by blast
qed

text \<open>A connection that loses the answer to every registration.\<close>

definition lost_send :: "tx_req \<Rightarrow> fs app_state \<Rightarrow> tx_resp res \<times> fs app_state" where
  "lost_send q st =
     (case sample_send q st of (r, st') \<Rightarrow> (if tq_url q = sample_base @ files_path then Err ''connection reset'' else r, st'))"

lemma lost_link:
  assumes "http_link False AX app base send"
  shows "http_link True AX app base (\<lambda>q st. case send q st of (r, st') \<Rightarrow> (if lost q then Err e else r, st'))"
  unfolding http_link_def
proof (intro allI impI)
  fix q :: tx_req and path st
  assume q: "tq_url q = base @ path \<and> starts_with ''/'' path \<and> list_all plain (split_on CHR ''/'' path)"
  obtain req where req: "arrives AX q path req"
      "(\<exists>rs tp. fst (app req st) = Ok rs \<and> send q st = (Ok tp, snd (app req st)) \<and> resp_matches rs tp) \<or>
       (\<exists>e. (\<forall>rs. fst (app req st) \<noteq> Ok rs) \<and> send q st = (Err e, snd (app req st)))"
    using assms q unfolding http_link_def by blast
  then show "\<exists>req. arrives AX q path req \<and>
     ((\<exists>rs tp. fst (app req st) = Ok rs \<and> (case send q st of (r, st') \<Rightarrow> (if lost q then Err e else r, st')) = (Ok tp, snd (app req st)) \<and>
         resp_matches rs tp) \<or>
      (\<exists>e'. (\<forall>rs. fst (app req st) \<noteq> Ok rs) \<and>
         (case send q st of (r, st') \<Rightarrow> (if lost q then Err e else r, st')) = (Err e', snd (app req st))) \<or>
      True \<and> (\<exists>e' st'. (case send q st of (r, st') \<Rightarrow> (if lost q then Err e else r, st')) = (Err e', st') \<and> st' \<in> {st, snd (app req st)}))"
    by (intro exI [of _ req]) (cases "lost q"; auto)
qed

lemma lost_online: "online True Some wire_axum True sample_fork sample_store False sample_base lost_send None sample_st0"
  using sample_online0 lost_link [of wire_axum _ sample_base sample_send "\<lambda>q. tq_url q = sample_base @ files_path" "''connection reset''"]
  by (simp add: online_def connected_def lost_send_def [abs_def] del: sample_fork_simps)

text \<open>The ingest over that connection reports a failure and has recorded the file.\<close>

theorem ingest_all_or_nothing_witness:
  "\<exists>r st' fh. ingest_bytes None lost_send True sample_fork sample_base ''vol'' ''/n'' [97] sample_st0 = (r, st') \<and> (\<forall>hh. r \<noteq> Ok hh) \<and>
     hm_get (ix_catalog (as_index sample_st0)) (''vol'', ''/n'') = None \<and>
     hm_get (ix_catalog (as_index st')) (''vol'', ''/n'') = Some fh \<and> hm_get (ix_files (as_index st')) fh \<noteq> None"
proof (rule sample_stages [OF sample_running(1) sample_objects0 sample_st0_chunks, of lost_send])
  fix fh ts st2 rs st3
  assume st2: "running Some True sample_fork sample_store None st2"
    and rg: "register_file sample_fork \<lparr>rf_file_hash = hex sample_fork fh, rf_total_size = 1, rf_terms = ts, rf_volume = Some ''vol'',
       rf_path = Some ''/n''\<rparr> st2 = (Ok (ok_json rs), st3)"
    and run: "ingest_bytes None lost_send True sample_fork sample_base ''vol'' ''/n'' [97] sample_st0 =
       (case lost_send (auth None (client_post (sample_base @ files_path) (TxJson (register_json sample_fork fh 1 ts ''vol'' ''/n'')))) st2 of
          (r, w) \<Rightarrow> (bind_res (context_res ''register file'' r) (\<lambda>resp. if is_success (tp_status resp) then Ok (hex sample_fork fh)
             else Err (''file registration failed: HTTP '' @ tp_status_text resp)), w))"
  have "snd (sample_send (auth None (client_post (sample_base @ files_path) (TxJson (register_json sample_fork fh 1 ts ''vol'' ''/n'')))) st2) = st3"
    unfolding sample_post_files [OF st2] rg by simp
  then have "lost_send (auth None (client_post (sample_base @ files_path) (TxJson (register_json sample_fork fh 1 ts ''vol'' ''/n'')))) st2 =
      (Err ''connection reset'', st3)"
    by (auto simp: lost_send_def split: prod.splits)
  then obtain e where i: "ingest_bytes None lost_send True sample_fork sample_base ''vol'' ''/n'' [97] sample_st0 = (Err e, st3)"
    unfolding run by simp
  have c0: "hm_get (ix_catalog (as_index sample_st0)) (''vol'', ''/n'') = None"
    by (simp add: sample_st0_def app_state_new_def index_default_def)
  show ?thesis
    using ingest_all_or_nothing [OF lost_online sample_chunker_ok i] sample_registered(2) [OF st2 rg] i c0
    by (intro exI [of _ "Err e"] exI [of _ st3] exI [of _ fh]) auto
qed (simp_all add: query_chunk_def upload_xorb_def lost_send_def client_get_def client_post_def auth_def split: prod.splits)

end
