(* ===== verification/Mount.thy ===== *)
theory Mount
  imports End_To_End
begin

text \<open>
  Mounting a volume of a running server: the catalog request of \<open>connect\<close> over the HTTP connection, the tree it
  is turned into, and what a file that was changed through one mount looks like through the next one.
\<close>

section \<open>The catalog request\<close>

abbreviation entries_path :: "string \<Rightarrow> string" where
  "entries_path volume \<equiv> ''/api/v1/volumes/'' @ volume @ ''/entries''"

lemma plain_no_slash: "plain v \<Longrightarrow> CHR ''/'' \<notin> set v"
  unfolding plain_def list_all_iff by (rule notI, drule bspec, assumption, simp)

lemma entries_segments:
  assumes "plain v"
  shows "split_on CHR ''/'' (entries_path v) = ['''', ''api'', ''v1'', ''volumes'', v, ''entries'']"
  using split_on_append [OF plain_no_slash [OF assms], of "''entries''"]
  by (simp add: split_on_step del: split_on.simps(2))

lemma entries_plain: "plain v \<Longrightarrow> list_all plain (split_on CHR ''/'' (entries_path v))"
  unfolding entries_segments by (simp add: plain_def)

lemma entries_dispatch:
  assumes "axum_ok AX" "plain v" "v \<noteq> []" "arrives AX q (entries_path v) req" "tq_method q = GET"
  shows "dispatch AX hooks req = Inr (CListEntries v)"
proof -
  have "match_routes AX (entries_path v) (routes hooks) = Some (GET, EListEntries, [v])"
    unfolding match_routes_seg [OF assms(1) entries_plain [OF assms(2)]] entries_segments [OF assms(2)] seg_routes_api api_segments
    using assms(3) by (simp add: starts_with_def)
  then show ?thesis using assms(4,5) by (simp add: arrives_def dispatch_def method_ok_def extract_call_def)
qed

text \<open>The entries of a volume arrive as the server lists them.\<close>

lemma wire_entries:
  assumes con: "connected False to_str AX ovf F c hooks base send" and st: "running to_str ovf F c None st"
    and v: "plain v" "v \<noteq> []" and E: "en_send E = send" and es: "list_entries F v st = (Ok (ok_json (JArr es)), st)"
  shows "fetch_entries E base v st = (Ok es, st)"
proof -
  let ?q = "client_get (base @ entries_path v)"
  obtain r st' where s: "send (auth None ?q) st = (r, st')" by fastforce
  have h: "handle to_str ovf F (local_fs_ops ovf F c) (CListEntries v) st = (Ok (ok_json (JArr es)), st)" using es by simp
  have disp: "dispatch AX hooks req = Inr (CListEntries v)" if "arrives AX (auth None ?q) (entries_path v) req" for req
    by (rule entries_dispatch [OF connectedD(1) [OF con] v that]) simp
  have "(\<exists>rs tp. Ok (ok_json (JArr es)) = Ok rs \<and> r = Ok tp \<and> resp_matches rs tp \<and> st' = st) \<or>
      (\<exists>e. r = Err e) \<and> ((\<forall>rs. Ok (ok_json (JArr es)) \<noteq> Ok rs) \<and> st' = st \<or> False \<and> st' \<in> {st, st})"
    by (rule wire_call [OF con st _ _ _ _ entries_plain [OF v(1)] disp h s]) (simp_all add: starts_with_def)
  then obtain tp where "r = Ok tp" "tp_json tp = Ok (JArr es)" "st' = st" by (auto simp: resp_matches_def)
  moreover have "auth None ?q = ?q" by (simp add: auth_def)
  ultimately show ?thesis using s E by (simp add: fetch_entries_def)
qed

section \<open>The mounted tree\<close>

abbreviation catalog_of :: "fs app_state \<Rightarrow> string \<Rightarrow> string \<Rightarrow> hash option" where
  "catalog_of st v p \<equiv> hm_get (ix_catalog (as_index st)) (v, p)"

abbreviation file_of :: "fs app_state \<Rightarrow> hash \<Rightarrow> file_record option" where
  "file_of st fh \<equiv> hm_get (ix_files (as_index st)) fh"

text \<open>The catalog paths that have a place in the tree, and the tree's files.\<close>

definition shown_paths :: "string \<Rightarrow> fs app_state \<Rightarrow> string set" where
  "shown_paths v st = {p. catalog_of st v p \<noteq> None \<and> trim_start_matches CHR ''/'' p \<noteq> []}"

definition file_nodes :: "xetfs \<Rightarrow> ino set" where
  "file_nodes x = {i. \<exists>n. hm_get (xf_nodes x) i = Some n \<and> nd_kind n = File}"

text \<open>The file at inode \<open>i\<close> shows the catalog entry of the path \<open>p\<close>.\<close>

definition shows_entry :: "fork \<Rightarrow> string \<Rightarrow> fs app_state \<Rightarrow> xetfs \<Rightarrow> string \<Rightarrow> ino \<Rightarrow> bool" where
  "shows_entry F v st x p i \<longleftrightarrow>
     (\<exists>fh f n. catalog_of st v p = Some fh \<and> file_of st fh = Some f \<and> hm_get (xf_nodes x) i = Some n \<and>
        nd_file_hash n = Some (hex F fh) \<and> nd_size n = fr_total_size f \<and>
        full_path x i = Some (''/'' @ trim_start_matches CHR ''/'' p))"

lemma bij_betw_lists:
  assumes "distinct xs" "distinct ys" "list_all2 P xs ys"
  obtains g where "bij_betw g (set xs) (set ys)" "\<And>x. x \<in> set xs \<Longrightarrow> P x (g x)"
proof -
  have n: "length xs = length ys" using assms(3) by (rule list_all2_lengthD)
  let ?g = "\<lambda>x. the (map_of (zip xs ys) x)"
  have g: "?g (xs ! i) = ys ! i" if "i < length xs" for i
    using map_of_zip_nth [OF n assms(1)] that n by simp
  have "inj_on ?g (set xs)"
  proof (rule inj_onI)
    fix a b assume "a \<in> set xs" "b \<in> set xs" and eq: "?g a = ?g b"
    then obtain i j where "i < length xs" "a = xs ! i" "j < length xs" "b = xs ! j" by (metis in_set_conv_nth)
    then show "a = b" using eq g n assms(2) nth_eq_iff_index_eq [of ys i j] by auto
  qed
  moreover have "?g ` set xs = set ys"
    using g n by (auto simp: set_conv_nth image_iff) (metis g n)+
  ultimately have "bij_betw ?g (set xs) (set ys)" by (simp add: bij_betw_def)
  moreover have "P x (?g x)" if "x \<in> set xs" for x
    using that g assms(3) by (metis in_set_conv_nth list_all2_nthD)
  ultimately show thesis by (rule that)
qed

text \<open>What a listing says of the entries it contains.\<close>

lemma listed_entries:
  assumes inv: "index_inv (as_index st)"
    and set_es: "set es = {JObj [(''path'', JStr p), (''file_hash'', JStr (hex F fh)), (''size'', JNum (fr_total_size f))] |p fh f.
       catalog_of st v p = Some fh \<and> file_of st fh = Some f}"
  shows "(\<lambda>e. str_or_empty (jget e ''path'')) ` set (filter (\<lambda>e. entry_path e \<noteq> []) es) = shown_paths v st"
    and "\<And>e. e \<in> set es \<Longrightarrow> jget e ''path'' = JStr (str_or_empty (jget e ''path''))"
    and "\<And>e. e \<in> set es \<Longrightarrow> \<exists>fh f. catalog_of st v (str_or_empty (jget e ''path'')) = Some fh \<and> file_of st fh = Some f \<and>
       str_or_empty (jget e ''file_hash'') = hex F fh \<and> entry_size e = fr_total_size f"
proof -
  have reg: "\<exists>f. file_of st fh = Some f" if "catalog_of st v p = Some fh" for p fh
    using inv ranI [of "hm_get (ix_catalog (as_index st))", OF that] unfolding refs_ok_def by blast
  show "(\<lambda>e. str_or_empty (jget e ''path'')) ` set (filter (\<lambda>e. entry_path e \<noteq> []) es) = shown_paths v st"
  proof (intro equalityI subsetI)
    fix p assume "p \<in> (\<lambda>e. str_or_empty (jget e ''path'')) ` set (filter (\<lambda>e. entry_path e \<noteq> []) es)"
    then show "p \<in> shown_paths v st" by (auto simp: set_es shown_paths_def entry_path_def str_or_empty_def)
  next
    fix p assume "p \<in> shown_paths v st"
    then obtain fh where p: "catalog_of st v p = Some fh" "trim_start_matches CHR ''/'' p \<noteq> []" by (auto simp: shown_paths_def)
    obtain f where "file_of st fh = Some f" using reg [OF p(1)] by blast
    then have "JObj [(''path'', JStr p), (''file_hash'', JStr (hex F fh)), (''size'', JNum (fr_total_size f))] \<in> set es"
      using p(1) unfolding set_es by blast
    then show "p \<in> (\<lambda>e. str_or_empty (jget e ''path'')) ` set (filter (\<lambda>e. entry_path e \<noteq> []) es)"
      by (intro image_eqI [of p _ "JObj [(''path'', JStr p), (''file_hash'', JStr (hex F fh)), (''size'', JNum (fr_total_size f))]"])
        (simp_all add: entry_path_def str_or_empty_def p(2))
  qed
  show "jget e ''path'' = JStr (str_or_empty (jget e ''path''))" if "e \<in> set es" for e
    using that unfolding set_es by (auto simp: str_or_empty_def)
  show "\<exists>fh f. catalog_of st v (str_or_empty (jget e ''path'')) = Some fh \<and> file_of st fh = Some f \<and>
      str_or_empty (jget e ''file_hash'') = hex F fh \<and> entry_size e = fr_total_size f" if "e \<in> set es" for e
    using that unfolding set_es by (auto simp: entry_size_def str_or_empty_def)
qed


lemma mount_tree:
  assumes con: "connected False to_str AX ovf F c hooks base send" and st: "running to_str ovf F c None st"
    and v: "plain v" "v \<noteq> []" and E: "en_send E = send"
  obtains x g where "connect E uid gid base v st = (Ok x, st)" "tree_ok (xf_nodes x) (xf_next x)" "xf_open_files x = []" "xf_cache x = []"
    "bij_betw g (shown_paths v st) (file_nodes x)" "\<And>p. p \<in> shown_paths v st \<Longrightarrow> shows_entry F v st x p (g p)"
proof -
  let ?path = "\<lambda>e. str_or_empty (jget e ''path'')" and ?shown = "filter (\<lambda>e. entry_path e \<noteq> [])"
  have inv: "index_inv (as_index st)" "\<not> as_poisoned st"
    using served_facts(3) [OF runningD(1) [OF st] connectedD(4) [OF con]] served_np [OF runningD(1) [OF st]] by (auto simp: server_inv_def)
  obtain es where es: "list_entries F v st = (Ok (ok_json (JArr es)), st)" "distinct (map (\<lambda>j. jget j ''path'') es)"
      "set es = {JObj [(''path'', JStr p), (''file_hash'', JStr (hex F fh)), (''size'', JNum (fr_total_size f))] |p fh f.
         catalog_of st v p = Some fh \<and> file_of st fh = Some f}"
    using list_entries_spec [OF inv, of F v] by blast
  note listed = listed_entries [OF inv(1) es(3)]
  obtain x fs where x: "connect E uid gid base v st = (Ok x, st)" "tree_ok (xf_nodes x) (xf_next x)" "xf_open_files x = []" "xf_cache x = []"
      "distinct fs" "set fs = file_nodes x"
      "list_all2 (\<lambda>e f. (\<exists>n. hm_get (xf_nodes x) f = Some n \<and> nd_file_hash n = Some (str_or_empty (jget e ''file_hash'')) \<and>
         nd_size n = entry_size e) \<and> full_path x f = Some (''/'' @ entry_path e)) (?shown es) fs"
    using connect_builds_tree [OF wire_entries [OF con st v E es(1)], of uid gid] unfolding file_nodes_def by blast
  have "distinct (map ?path es)"
    using es(2) listed(2) by (auto simp: distinct_map inj_on_def) metis
  then have ps: "distinct (map ?path (?shown es))" by (rule distinct_map_filter)
  have "list_all2 (\<lambda>e f. shows_entry F v st x (?path e) f) (?shown es) fs"
    using x(7) by (rule list.rel_mono_strong) (use listed(3) in \<open>fastforce simp: shows_entry_def entry_path_def\<close>)
  then have "list_all2 (shows_entry F v st x) (map ?path (?shown es)) fs" by (simp add: list_all2_map1)
  then obtain g where "bij_betw g (set (map ?path (?shown es))) (set fs)"
      "\<And>p. p \<in> set (map ?path (?shown es)) \<Longrightarrow> shows_entry F v st x p (g p)"
    using bij_betw_lists [OF ps x(5)] by blast
  moreover have "set (map ?path (?shown es)) = shown_paths v st" using listed(1) by simp
  ultimately show thesis using that [OF x(1-4)] x(6) by simp
qed

text \<open>
  C22. Mounting a volume with a plain name from a running server (started on an empty local store that does not fail) without
  authentication, over a connection that does not fail, shows its
  catalog: the request succeeds and changes nothing on the server, the
  tree is well formed, and its files are in one-to-one correspondence with the catalog paths of the volume that
  have a name, each at that path (with one leading slash) with the hash and the size of the file that
  was last registered there. (From a server in tokens mode no volume can be mounted: \<open>connect\<close> sends no token.)
\<close>

theorem mount_shows_catalog:
  assumes "connected False to_str AX ovf F c hooks base send" and "running to_str ovf F c None st"
    and "plain v" and "v \<noteq> []" and "en_send E = send"
  shows "\<exists>x g. connect E uid gid base v st = (Ok x, st) \<and> tree_ok (xf_nodes x) (xf_next x) \<and>
     bij_betw g {p. hm_get (ix_catalog (as_index st)) (v, p) \<noteq> None \<and> trim_start_matches CHR ''/'' p \<noteq> []}
       {i. \<exists>n. hm_get (xf_nodes x) i = Some n \<and> nd_kind n = File} \<and>
     (\<forall>p fh f. hm_get (ix_catalog (as_index st)) (v, p) = Some fh \<and> trim_start_matches CHR ''/'' p \<noteq> [] \<and>
        hm_get (ix_files (as_index st)) fh = Some f \<longrightarrow>
        full_path x (g p) = Some (''/'' @ trim_start_matches CHR ''/'' p) \<and>
        (\<exists>n. hm_get (xf_nodes x) (g p) = Some n \<and> nd_file_hash n = Some (hex F fh) \<and> nd_size n = fr_total_size f))"
proof -
  obtain x g where x: "connect E uid gid base v st = (Ok x, st)" "tree_ok (xf_nodes x) (xf_next x)" "xf_open_files x = []" "xf_cache x = []"
      "bij_betw g (shown_paths v st) (file_nodes x)" "\<And>p. p \<in> shown_paths v st \<Longrightarrow> shows_entry F v st x p (g p)"
    using mount_tree [OF assms, of uid gid] by blast
  have "full_path x (g p) = Some (''/'' @ trim_start_matches CHR ''/'' p) \<and>
      (\<exists>n. hm_get (xf_nodes x) (g p) = Some n \<and> nd_file_hash n = Some (hex F fh) \<and> nd_size n = fr_total_size f)"
    if "catalog_of st v p = Some fh" "trim_start_matches CHR ''/'' p \<noteq> []" "file_of st fh = Some f" for p fh f
    using x(6) [of p] that by (auto simp: shown_paths_def shows_entry_def)
  then show ?thesis
    using x(1,2,5) unfolding shown_paths_def file_nodes_def by blast
qed

section \<open>Changes through one mount, seen through the next\<close>




text \<open>
  C37. A change forks an entry: connect drops the leading slashes of catalog paths, while a flush registers the file under a
  path with one. When a file that was registered as \<open>p\<close> without a slash is changed through the mount and closed, the
  old entry stays in the catalog and the new contents get an entry of their own: the next mount has two
  different files of the same path, one with the old contents and one with the new.
\<close>

theorem edit_forks_entry:
  assumes on: "online False to_str AX ovf F c hooks (xf_base_url x) send None st" and F: "chunker_ok F"
    and s: "hm_get (xf_open_files x) i = Some s" "sg_dirty s" and n: "hm_get (xf_nodes x) i = Some n"
    and path: "full_path x i = Some (''/'' @ p)" and p: "p \<noteq> []" "hd p \<noteq> CHR ''/''"
    and old: "hm_get (ix_catalog (as_index st)) (xf_volume x, p) = Some fh0"
    and run: "ingest_bytes None send ovf' F (xf_base_url x) (xf_volume x) (''/'' @ p) (sg_buf s) st = (Ok hh, st')"
    and v: "plain (xf_volume x)" "xf_volume x \<noteq> []"
  defines "E \<equiv> \<lparr>en_tok = None, en_send = send, en_ovf = ovf', en_fork = F\<rparr>"
  shows "\<exists>x' y f g nf ng. release E i x st = Some (Ok ROk, x', st') \<and> connect E uid gid (xf_base_url x) (xf_volume x) st' = (Ok y, st') \<and>
     f \<noteq> g \<and> full_path y f = Some (''/'' @ p) \<and> full_path y g = Some (''/'' @ p) \<and>
     hm_get (xf_nodes y) f = Some nf \<and> nd_kind nf = File \<and> nd_file_hash nf = Some (hex F fh0) \<and>
     hm_get (xf_nodes y) g = Some ng \<and> nd_kind ng = File \<and> nd_file_hash ng = Some hh"
proof -
  have con: "connected False to_str AX ovf F c hooks (xf_base_url x) send" using on by (simp add: online_def)
  have E: "en_send E = send" by (simp add: E_def)
  have gen: "\<forall>ch \<in> set (next_block F (sg_buf s)). genuine F ch" using F by (simp add: chunker_ok_def)
  obtain fh fr where rg: "hh = hex F fh" "online False to_str AX ovf F c hooks (xf_base_url x) send None st'"
      "hm_get (ix_files (as_index st')) = (hm_get (ix_files (as_index st)))(fh \<mapsto> fr)"
      "hm_get (ix_catalog (as_index st')) = (hm_get (ix_catalog (as_index st)))((xf_volume x, ''/'' @ p) \<mapsto> fh)"
    by (rule cas.ingest_registers [OF on gen run])
  have "ingest_file E x (''/'' @ p) (sg_buf s) st = (Ok hh, st')" using run by (simp add: E_def)
  from release_spec [OF s path n this] obtain x' where rel: "release E i x st = Some (Ok ROk, x', st')" by auto
  have "running to_str ovf F c None st'" using rg(2) by (simp add: online_def)
  then obtain y g where y: "connect E uid gid (xf_base_url x) (xf_volume x) st' = (Ok y, st')"
      "bij_betw g (shown_paths (xf_volume x) st') (file_nodes y)"
      "\<And>p. p \<in> shown_paths (xf_volume x) st' \<Longrightarrow> shows_entry F (xf_volume x) st' y p (g p)"
    using mount_tree [OF con _ v, of st' E uid gid] E by blast
  have trim: "trim_start_matches CHR ''/'' p = p" "trim_start_matches CHR ''/'' (''/'' @ p) = p"
    using p by (cases p; simp add: trim_start_matches_def)+
  have shown: "p \<in> shown_paths (xf_volume x) st'" "''/'' @ p \<in> shown_paths (xf_volume x) st'"
    using old rg(4) p(1) trim by (simp_all add: shown_paths_def)
  have "p \<noteq> ''/'' @ p" by (simp add: not_Cons_self)
  then have ne: "g p \<noteq> g (''/'' @ p)" using y(2) shown by (auto simp: bij_betw_def dest: inj_onD)
  have "g p \<in> file_nodes y" "g (''/'' @ p) \<in> file_nodes y" using y(2) shown by (auto simp: bij_betw_def)
  then obtain nf ng where k: "hm_get (xf_nodes y) (g p) = Some nf" "nd_kind nf = File"
      "hm_get (xf_nodes y) (g (''/'' @ p)) = Some ng" "nd_kind ng = File"
    by (auto simp: file_nodes_def)
  have "catalog_of st' (xf_volume x) p = Some fh0" "catalog_of st' (xf_volume x) (''/'' @ p) = Some fh"
    using old rg(4) by simp_all
  then have "nd_file_hash nf = Some (hex F fh0)" "nd_file_hash ng = Some hh" "full_path y (g p) = Some (''/'' @ p)"
      "full_path y (g (''/'' @ p)) = Some (''/'' @ p)"
    using y(3) [OF shown(1)] y(3) [OF shown(2)] k trim rg(1) by (auto simp: shows_entry_def)
  then show ?thesis using rel y(1) ne k by blast
qed

end
