(* ===== verification/Sample_Mount.thy ===== *)
theory Sample_Mount
  imports Mount Sample_Link
begin

text \<open>The mount theorems at the sample server: a volume of one file, and the file at inode 2 of the sample mount.\<close>

abbreviation sample_mount_env :: "fs app_state env" where
  "sample_mount_env \<equiv> \<lparr>en_tok = None, en_send = sample_send, en_ovf = True, en_fork = sample_fork\<rparr>"

lemma sample_online:
  "running Some True sample_fork sample_store None st \<Longrightarrow>
     online False Some wire_axum True sample_fork sample_store False sample_base sample_send None st"
  using sample_connected sample_serialize_ok by (simp add: online_def)

lemma sample_genuine: "\<forall>ch \<in> set (next_block sample_fork [97]). genuine sample_fork ch"
  using one_chunk_facts by simp

lemma plain_vol: "plain ''vol''"
  by (simp add: plain_def)

theorem mount_shows_catalog_witness:
  "\<exists>st x i. connect sample_mount_env 0 0 sample_base ''vol'' st = (Ok x, st) \<and> full_path x i = Some ''/n''"
proof -
  obtain hh st where i: "ingest_bytes None sample_send True sample_fork sample_base ''vol'' ''/n'' [97] sample_st0 = (Ok hh, st)"
    by (rule sample_ingest)
  obtain fh f where reg: "online False Some wire_axum True sample_fork sample_store False sample_base sample_send None st"
      "hm_get (ix_files (as_index st)) fh = Some f" "hm_get (ix_catalog (as_index st)) (''vol'', ''/n'') = Some fh"
    using cas.ingest_registers [OF sample_online0 sample_genuine i] by (metis fun_upd_same)
  have trim: "trim_start_matches CHR ''/'' ''/n'' = ''n''" by (simp add: trim_start_matches_def)
  have run: "running Some True sample_fork sample_store None st" using reg(1) by (simp add: online_def)
  show ?thesis
    using mount_shows_catalog [OF sample_connected run plain_vol, of sample_mount_env 0 0] reg(2,3) trim by fastforce
qed

text \<open>The mount of \<open>dirty_fs\<close>: the byte 97 was written to the file \<open>/a\<close> and is not flushed.\<close>

lemma dirty_fs_facts:
  "hm_get (xf_open_files dirty_fs) 2 = Some \<lparr>sg_buf = [97], sg_dirty = True\<rparr>"
  "hm_get (xf_nodes dirty_fs) 2 =
     Some \<lparr>nd_name = ''a'', nd_kind = File, nd_parent = ROOT, nd_children = [], nd_file_hash = None, nd_size = 0\<rparr>"
  "xf_base_url dirty_fs = sample_base" "xf_volume dirty_fs = ''vol''"
  by (simp_all add: dirty_fs_def sample_fs1_eval ROOT_def)


text \<open>The sample server after an empty file was registered under a path without a slash.\<close>

definition bare_file :: register_file_req where
  "bare_file = \<lparr>rf_file_hash = hex sample_fork 7, rf_total_size = 0, rf_terms = [], rf_volume = Some ''vol'', rf_path = Some ''a''\<rparr>"

definition bare_st :: "fs app_state" where
  "bare_st = snd (register_file sample_fork bare_file sample_st0)"

lemma bare_register: "\<exists>j. register_file sample_fork bare_file sample_st0 = (Ok (ok_json j), bare_st)"
  using served_np [OF runningD(1) [OF sample_running(1)]] sample_hash_roundtrip
  by (auto simp: bare_st_def bare_file_def register_file_def Let_def simp del: sample_fork_simps)

lemma bare_st_facts:
  "running Some True sample_fork sample_store None bare_st" "objects sample_fork sample_store bare_st = (\<lambda>_. None)"
  "hm_get (ix_chunk_index (as_index bare_st)) 98 = None" "hm_get (ix_catalog (as_index bare_st)) (''vol'', ''a'') = Some 7"
proof -
  obtain j where rg: "register_file sample_fork bare_file sample_st0 = (Ok (ok_json j), bare_st)" using bare_register by blast
  note val = register_file_value [OF sample_hex_ok served_np [OF runningD(1) [OF sample_running(1)]] _ _ _ rg, of 7 "''vol''" "''a''"]
  have v: "\<not> as_poisoned bare_st \<and> as_blob bare_st = as_blob sample_st0 \<and>
      ix_chunk_index (as_index bare_st) = ix_chunk_index (as_index sample_st0)"
    using val by (simp add: bare_file_def)
  show "running Some True sample_fork sample_store None bare_st"
    by (rule running_step [OF sample_running(1), of "CRegisterFile bare_file" "Ok (ok_json j)"]) (use rg v in auto)
  show "objects sample_fork sample_store bare_st = (\<lambda>_. None)" using v sample_objects0 by simp
  show "hm_get (ix_chunk_index (as_index bare_st)) 98 = None" using v sample_st0_chunks by simp
  have "register_file sample_fork \<lparr>rf_file_hash = hex sample_fork 7, rf_total_size = 0, rf_terms = [], rf_volume = Some ''vol'',
      rf_path = Some ''a''\<rparr> sample_st0 = (Ok (ok_json j), bare_st)"
    using rg by (simp add: bare_file_def)
  then show "hm_get (ix_catalog (as_index bare_st)) (''vol'', ''a'') = Some 7"
    by (rule sample_registered(2) [OF sample_running(1)])
qed

theorem edit_forks_entry_witness:
  "\<exists>x' st' y f g. release sample_mount_env 2 dirty_fs bare_st = Some (Ok ROk, x', st') \<and>
     connect sample_mount_env 0 0 sample_base ''vol'' st' = (Ok y, st') \<and> f \<noteq> g \<and>
     full_path y f = Some ''/a'' \<and> full_path y g = Some ''/a''"
proof -
  obtain hh st' where i: "ingest_bytes None sample_send True sample_fork sample_base ''vol'' ''/a'' [97] bare_st = (Ok hh, st')"
    by (rule sample_ingest_from [OF bare_st_facts(1,2,3)])
  let ?s = "\<lparr>sg_buf = [97], sg_dirty = True\<rparr>"
  have on: "online False Some wire_axum True sample_fork sample_store False (xf_base_url dirty_fs) sample_send None bare_st"
    using sample_online [OF bare_st_facts(1)] dirty_fs_facts(3) by simp
  have run: "ingest_bytes None sample_send True sample_fork (xf_base_url dirty_fs) (xf_volume dirty_fs) (''/'' @ ''a'') (sg_buf ?s) bare_st =
      (Ok hh, st')"
    using i dirty_fs_facts(3,4) by simp
  have vol: "plain (xf_volume dirty_fs)" "xf_volume dirty_fs \<noteq> []" using plain_vol dirty_fs_facts(4) by simp_all
  have path: "full_path dirty_fs 2 = Some (''/'' @ ''a'')" using dirty_fs_path by simp
  have old: "hm_get (ix_catalog (as_index bare_st)) (xf_volume dirty_fs, ''a'') = Some 7"
    using bare_st_facts(4) dirty_fs_facts(4) by simp
  have dirty: "sg_dirty ?s" by simp
  have a: "''a'' \<noteq> []" "hd ''a'' \<noteq> CHR ''/''" by simp_all
  have "\<exists>x' y f g. release sample_mount_env 2 dirty_fs bare_st = Some (Ok ROk, x', st') \<and>
      connect sample_mount_env 0 0 (xf_base_url dirty_fs) (xf_volume dirty_fs) st' = (Ok y, st') \<and> f \<noteq> g \<and>
      full_path y f = Some (''/'' @ ''a'') \<and> full_path y g = Some (''/'' @ ''a'')"
    using edit_forks_entry [OF on sample_chunker_ok dirty_fs_facts(1) dirty dirty_fs_facts(2) path a old run vol, of 0 0] by blast
  then show ?thesis unfolding dirty_fs_facts(3,4) by (metis append.simps)
qed

end
