(* ===== verification/Concurrent.thy ===== *)
theory Concurrent
  imports Server_Maint S3
begin

text \<open>
  The handlers of \<open>crates/xetd/src/main.rs\<close> as the runtime interleaves them. A request in flight is a task; one step of
  a task is one section under the index lock, one call of the blob store, or one update of a counter, since
  between those other requests may run. \<open>runs\<close> is the machine with any number of tasks, in which a
  request may also be dropped when its client goes away, and in which the store may change between two steps. A put is not one call: of the S3
  backend it is a head and a put of the object, two steps here. A task that runs alone does what the sequential handler of \<open>Server\<close> does.

  Over S3 every remaining call of the store takes effect at one point, at the object store, so the steps are the
  program's own, and the full invariant is shown for it. A put of the local store is a longer row of system calls on one
  temporary file; that it is not atomic is the subject of \<open>Blob_Race\<close>. What holds for it here is what holds
  whatever the store answers and however it changes between the steps: the invariant of the index.
\<close>

section \<open>Tasks\<close>

text \<open>Where a handler can be suspended, with the values that it still needs.\<close>

datatype task =
    TCall call
  | TPut hash bytes xorb_info
  | TStore hash bytes xorb_info
  | TIndex hash bytes xorb_info
  | TCountPut bytes
  | TCountBytes bytes
  | TPresign "resolved list" "recon_term list" "(string, fetch_info list) hashmap"
  | TGet string hash u64 u64 u64
  | THit json
  | TMiss
  | TSweep "hash set" "hash list" u64
  | TEvict hash "hash set" "hash list" u64
  | TScrub "hash list" u64 u64
  | TScrubGet hash u64 "hash list" u64 u64
  | TDone "response res"

abbreviation done_with :: "response \<Rightarrow> task" where
  "done_with r \<equiv> TDone (Ok r)"

text \<open>\<open>put_xorb\<close>: the integrity gate, the write, the index under the lock, the two counters.\<close>

definition put_gate :: "fork \<Rightarrow> string \<Rightarrow> bytes \<Rightarrow> task" where
  "put_gate F hash_hex body =
     (case from_hex F hash_hex of
        None \<Rightarrow> done_with (with_text 400 ''malformed xorb hash'')
      | Some h \<Rightarrow>
          (case validate_xorb_object F body h of
             Ok None \<Rightarrow> done_with (with_text 400 ''xorb failed integrity check (hash mismatch or malformed)'')
           | Err _ \<Rightarrow> done_with (with_text 400 ''could not parse xorb'')
           | Panic \<Rightarrow> TDone Panic
           | Ok (Some info) \<Rightarrow> TPut h body info))"

definition put_answer :: "bool \<Rightarrow> task" where
  "put_answer inserted = done_with (ok_json (JObj [(''was_inserted'', JBool inserted)]))"

text \<open>A put as two calls: is the object there, and if not, store it.\<close>

record 'b put_calls =
  pc_look :: "hash \<Rightarrow> 'b \<Rightarrow> bool res \<times> 'b"
  pc_store :: "hash \<Rightarrow> bytes \<Rightarrow> 'b \<Rightarrow> unit res \<times> 'b"

definition put_failed :: "string \<Rightarrow> task" where
  "put_failed e = done_with (with_text 500 (''blob store: '' @ e))"

definition put_look :: "'b put_calls \<Rightarrow> hash \<Rightarrow> bytes \<Rightarrow> xorb_info \<Rightarrow> 'b app_state \<Rightarrow> task \<times> 'b app_state" where
  "put_look P h body info st =
     (case pc_look P h (as_blob st) of
        (Ok there, s1) \<Rightarrow> (if there then put_answer False else TStore h body info, st\<lparr>as_blob := s1\<rparr>)
      | (Err e, s1) \<Rightarrow> (put_failed e, st\<lparr>as_blob := s1\<rparr>)
      | (Panic, s1) \<Rightarrow> (TDone Panic, st\<lparr>as_blob := s1\<rparr>))"

definition put_store :: "'b put_calls \<Rightarrow> hash \<Rightarrow> bytes \<Rightarrow> xorb_info \<Rightarrow> 'b app_state \<Rightarrow> task \<times> 'b app_state" where
  "put_store P h body info st =
     (case pc_store P h body (as_blob st) of
        (Ok _, s1) \<Rightarrow> (TIndex h body info, st\<lparr>as_blob := s1\<rparr>)
      | (Err e, s1) \<Rightarrow> (put_failed e, st\<lparr>as_blob := s1\<rparr>)
      | (Panic, s1) \<Rightarrow> (TDone Panic, st\<lparr>as_blob := s1\<rparr>))"

text \<open>The two calls in a row.\<close>

definition put_of :: "'b put_calls \<Rightarrow> hash \<Rightarrow> bytes \<Rightarrow> 'b \<Rightarrow> bool res \<times> 'b" where
  "put_of P h b s =
     (case pc_look P h s of
        (Ok True, s1) \<Rightarrow> (Ok False, s1)
      | (Ok False, s1) \<Rightarrow>
          (case pc_store P h b s1 of
             (Ok _, s2) \<Rightarrow> (Ok True, s2)
           | (Err e, s2) \<Rightarrow> (Err e, s2)
           | (Panic, s2) \<Rightarrow> (Panic, s2))
      | (Err e, s1) \<Rightarrow> (Err e, s1)
      | (Panic, s1) \<Rightarrow> (Panic, s1))"

text \<open>The calls of the S3 backend.\<close>

definition s3_calls :: "fork \<Rightarrow> 's s3_blob_store \<Rightarrow> 's put_calls" where
  "s3_calls F c = \<lparr>pc_look = s3_put_look F c, pc_store = s3_put_store F c\<rparr>"

lemma s3_put_of: "bs_put (s3_ops F c) = put_of (s3_calls F c)"
  by (intro ext) (auto simp: s3_ops_def s3_calls_def put_of_def s3_put_def s3_put_look_def s3_put_store_def
      elim!: at_key.elims split: prod.splits s3_res.splits)

definition put_index :: "bool \<Rightarrow> hash \<Rightarrow> bytes \<Rightarrow> xorb_info \<Rightarrow> 'b app_state \<Rightarrow> task \<times> 'b app_state" where
  "put_index ovf h body info st =
     (if as_poisoned st then (TDone Panic, st)
      else (case index_upload ovf h info (as_index st) of
         (Ok _, ix) \<Rightarrow> (TCountPut body, st\<lparr>as_index := ix\<rparr>)
       | (_, ix) \<Rightarrow> (TDone Panic, st\<lparr>as_index := ix, as_poisoned := True\<rparr>)))"

definition count_put :: "'b app_state \<Rightarrow> 'b app_state" where
  "count_put st = st\<lparr>as_metrics := (as_metrics st)\<lparr>xorb_puts := xorb_puts (as_metrics st) + 1\<rparr>\<rparr>"

definition count_bytes :: "bytes \<Rightarrow> 'b app_state \<Rightarrow> 'b app_state" where
  "count_bytes body st = st\<lparr>as_metrics := (as_metrics st)\<lparr>novel_bytes := novel_bytes (as_metrics st) + of_nat (length body)\<rparr>\<rparr>"

text \<open>\<open>reconstruct\<close>: the section under the lock, then one presign call per term.\<close>

definition recon_resolve :: "bool \<Rightarrow> fork \<Rightarrow> string \<Rightarrow> 'b app_state \<Rightarrow> task \<times> 'b app_state" where
  "recon_resolve ovf F file_hash_hex st =
     (case from_hex F file_hash_hex of
        None \<Rightarrow> (done_with (with_text 400 ''malformed file hash''), st)
      | Some fh \<Rightarrow>
          if as_poisoned st then (TDone Panic, st)
          else (case hm_get (ix_files (as_index st)) fh of
             None \<Rightarrow> (done_with (status_only 404), st)
           | Some file \<Rightarrow>
               (case resolve_terms ovf (ix_xorbs (as_index st)) (fr_terms file) of
                  Ok (Inl code) \<Rightarrow> (done_with (status_only code), st)
                | Ok (Inr collected) \<Rightarrow> (TPresign collected [] [], st)
                | _ \<Rightarrow> (TDone Panic, st\<lparr>as_poisoned := True\<rparr>))))"

fun recon_presign ::
  "fork \<Rightarrow> 'b blob_ops \<Rightarrow> resolved list \<Rightarrow> recon_term list \<Rightarrow> (string, fetch_info list) hashmap
     \<Rightarrow> 'b app_state \<Rightarrow> task \<times> 'b app_state" where
  "recon_presign F B [] terms fi st =
     (done_with (ok_json (json_of_recon_response
        \<lparr>rr_offset_into_first_range = 0, rr_terms = terms, rr_fetch_info = fi\<rparr>)), st)"
| "recon_presign F B (t # ts) terms fi st =
     (case bs_presign_get B (rv_xorb t) 900 (as_blob st) of
        (Ok url, s1) \<Rightarrow>
          (let xorb_hex = hex F (rv_xorb t);
               span = \<lparr>cr_start = rv_start t, cr_end = rv_end t\<rparr>
           in (TPresign ts
                 (terms @ [\<lparr>rt_hash = xorb_hex, rt_unpacked_length = rv_unpacked t, rt_range = span\<rparr>])
                 (push_fetch_info xorb_hex
                    \<lparr>fi_range = span, fi_url = url,
                     fi_url_range = \<lparr>br_start = rv_byte_start t, br_end = rv_byte_end t\<rparr>\<rparr> fi), st\<lparr>as_blob := s1\<rparr>))
      | (Err e, s1) \<Rightarrow> (done_with (with_text 500 (''presign: '' @ e)), st\<lparr>as_blob := s1\<rparr>)
      | (Panic, s1) \<Rightarrow> (TDone Panic, st\<lparr>as_blob := s1\<rparr>))"

text \<open>\<open>xorb_data\<close>: the length, then the bytes.\<close>

definition data_head ::
  "(string \<Rightarrow> string option) \<Rightarrow> fork \<Rightarrow> 'b blob_ops \<Rightarrow> string \<Rightarrow> string option \<Rightarrow> 'b app_state \<Rightarrow> task \<times> 'b app_state" where
  "data_head to_str F B hash_hex range_header st =
     (case from_hex F hash_hex of
        None \<Rightarrow> (done_with (with_text 400 ''malformed xorb hash''), st)
      | Some h \<Rightarrow>
          (case bs_head B h (as_blob st) of
             (Ok (Some meta), s1) \<Rightarrow>
               (case parse_range to_str range_header (om_len meta) of
                  None \<Rightarrow> (done_with (status_only 416), st\<lparr>as_blob := s1\<rparr>)
                | Some (start, stop) \<Rightarrow> (TGet hash_hex h start stop (om_len meta), st\<lparr>as_blob := s1\<rparr>))
           | (Panic, s1) \<Rightarrow> (TDone Panic, st\<lparr>as_blob := s1\<rparr>)
           | (_, s1) \<Rightarrow> (done_with (status_only 404), st\<lparr>as_blob := s1\<rparr>)))"

definition data_get :: "'b blob_ops \<Rightarrow> string \<Rightarrow> hash \<Rightarrow> u64 \<Rightarrow> u64 \<Rightarrow> u64 \<Rightarrow> 'b app_state \<Rightarrow> task \<times> 'b app_state" where
  "data_get B hash_hex h start stop len st =
     (case bs_get_range B h start stop (as_blob st) of
        (Ok bs, s2) \<Rightarrow>
          (done_with \<lparr>rs_status = 206,
             rs_headers =
               [(''Content-Range'', ''bytes '' @ show_u64 start @ ''-'' @ show_u64 stop @ ''/'' @ show_u64 len),
                (''Accept-Ranges'', ''bytes''),
                (''ETag'', ''\"'' @ hash_hex @ ''\"''),
                (''Cache-Control'', ''public, immutable, max-age=300'')],
             rs_body = Raw bs\<rparr>, st\<lparr>as_blob := s2\<rparr>)
      | (Err e, s2) \<Rightarrow> (done_with (with_text 500 (''read: '' @ e)), st\<lparr>as_blob := s2\<rparr>)
      | (Panic, s2) \<Rightarrow> (TDone Panic, st\<lparr>as_blob := s2\<rparr>))"

text \<open>\<open>global_dedup\<close>: the lookup under the lock, then the counter.\<close>

definition dedup_lookup :: "fork \<Rightarrow> string \<Rightarrow> 'b app_state \<Rightarrow> task \<times> 'b app_state" where
  "dedup_lookup F chunk_hex st =
     (case from_hex F chunk_hex of
        None \<Rightarrow> (done_with (with_text 400 ''malformed chunk hash''), st)
      | Some ch \<Rightarrow>
          if as_poisoned st then (TDone Panic, st)
          else (case hm_get (ix_chunk_index (as_index st)) ch of
             Some loc \<Rightarrow>
               (THit (JObj [(''xorb'', JStr (hex F (cl_xorb loc))), (''chunk_index'', JNum (ucast (cl_index loc))),
                            (''unpacked_length'', JNum (ucast (cl_unpacked_len loc)))]), st)
           | None \<Rightarrow> (TMiss, st)))"

definition count_hit :: "'b app_state \<Rightarrow> 'b app_state" where
  "count_hit st = st\<lparr>as_metrics := (as_metrics st)\<lparr>chunk_query_hit := chunk_query_hit (as_metrics st) + 1\<rparr>\<rparr>"

definition count_miss :: "'b app_state \<Rightarrow> 'b app_state" where
  "count_miss st = st\<lparr>as_metrics := (as_metrics st)\<lparr>chunk_query_miss := chunk_query_miss (as_metrics st) + 1\<rparr>\<rparr>"

text \<open>\<open>test_gc\<close>: mark under the lock, then for each unreferenced xorb the delete and the index update.\<close>

definition gc_mark :: "'b app_state \<Rightarrow> task \<times> 'b app_state" where
  "gc_mark st =
     (if as_poisoned st then (TDone Panic, st)
      else (TSweep (gc_referenced (as_index st)) (hm_keys (ix_xorbs (as_index st))) 0, st))"

fun gc_delete :: "'b blob_ops \<Rightarrow> hash set \<Rightarrow> hash list \<Rightarrow> u64 \<Rightarrow> 'b app_state \<Rightarrow> task \<times> 'b app_state" where
  "gc_delete B refd [] swept st = (done_with (ok_json (JObj [(''swept'', JNum swept)])), st)"
| "gc_delete B refd (x # xs) swept st =
     (if x \<notin> refd then
        (case bs_delete B x (as_blob st) of
           (Panic, s1) \<Rightarrow> (TDone Panic, st\<lparr>as_blob := s1\<rparr>)
         | (_, s1) \<Rightarrow> (TEvict x refd xs swept, st\<lparr>as_blob := s1\<rparr>))
      else (TSweep refd xs swept, st))"

definition gc_evict :: "hash \<Rightarrow> hash set \<Rightarrow> hash list \<Rightarrow> u64 \<Rightarrow> 'b app_state \<Rightarrow> task \<times> 'b app_state" where
  "gc_evict x refd xs swept st =
     (if as_poisoned st then (TDone Panic, st)
      else (TSweep refd xs (swept + 1), st\<lparr>as_index := index_evict x (as_index st)\<rparr>))"

text \<open>\<open>test_scrub\<close>: the keys under the lock, then for each the length and the bytes.\<close>

definition scrub_keys :: "'b app_state \<Rightarrow> task \<times> 'b app_state" where
  "scrub_keys st =
     (if as_poisoned st then (TDone Panic, st) else (TScrub (hm_keys (ix_xorbs (as_index st))) 0 0, st))"

fun scrub_head :: "'b blob_ops \<Rightarrow> hash list \<Rightarrow> u64 \<Rightarrow> u64 \<Rightarrow> 'b app_state \<Rightarrow> task \<times> 'b app_state" where
  "scrub_head B [] checked quarantined st =
     (done_with (ok_json (JObj [(''checked'', JNum checked), (''quarantined'', JNum quarantined)])), st)"
| "scrub_head B (x # xs) checked quarantined st =
     (case bs_head B x (as_blob st) of
        (Ok (Some m), s1) \<Rightarrow> (TScrubGet x (om_len m) xs (checked + 1) quarantined, st\<lparr>as_blob := s1\<rparr>)
      | (Panic, s1) \<Rightarrow> (TDone Panic, st\<lparr>as_blob := s1\<rparr>)
      | (_, s1) \<Rightarrow> (TScrub xs (checked + 1) (quarantined + 1), st\<lparr>as_blob := s1\<rparr>))"

definition scrub_get ::
  "fork \<Rightarrow> 'b blob_ops \<Rightarrow> hash \<Rightarrow> u64 \<Rightarrow> hash list \<Rightarrow> u64 \<Rightarrow> u64 \<Rightarrow> 'b app_state \<Rightarrow> task \<times> 'b app_state" where
  "scrub_get F B x len xs checked quarantined st =
     (case bs_get_range B x 0 (saturating_sub len 1) (as_blob st) of
        (Ok bs, s1) \<Rightarrow>
          (case validate_xorb_object F bs x of
             Ok (Some _) \<Rightarrow> (TScrub xs checked quarantined, st\<lparr>as_blob := s1\<rparr>)
           | Panic \<Rightarrow> (TDone Panic, st\<lparr>as_blob := s1\<rparr>)
           | _ \<Rightarrow> (TScrub xs checked (quarantined + 1), st\<lparr>as_blob := s1\<rparr>))
      | (Panic, s1) \<Rightarrow> (TDone Panic, st\<lparr>as_blob := s1\<rparr>)
      | (Err _, s1) \<Rightarrow> (TScrub xs checked (quarantined + 1), st\<lparr>as_blob := s1\<rparr>))"

section \<open>Steps\<close>

text \<open>The first step of a request; requests that touch the shared state once are that step.\<close>

fun call_step ::
  "(string \<Rightarrow> string option) \<Rightarrow> bool \<Rightarrow> fork \<Rightarrow> 'b blob_ops \<Rightarrow> call \<Rightarrow> 'b app_state \<Rightarrow> task \<times> 'b app_state" where
  "call_step to_str ovf F B (CReconstruct h) st = recon_resolve ovf F h st"
| "call_step to_str ovf F B (CGlobalDedup h) st = dedup_lookup F h st"
| "call_step to_str ovf F B (CPutXorb h body) st = (put_gate F h body, st)"
| "call_step to_str ovf F B (CXorbData h rng) st = data_head to_str F B h rng st"
| "call_step to_str ovf F B CGc st = gc_mark st"
| "call_step to_str ovf F B CScrub st = scrub_keys st"
| "call_step to_str ovf F B c st = (case handle to_str ovf F B c st of (r, st') \<Rightarrow> (TDone r, st'))"

fun task_step ::
  "(string \<Rightarrow> string option) \<Rightarrow> bool \<Rightarrow> fork \<Rightarrow> 'b blob_ops \<Rightarrow> 'b put_calls \<Rightarrow> task \<Rightarrow> 'b app_state \<Rightarrow> task \<times> 'b app_state" where
  "task_step to_str ovf F B P (TCall c) st = call_step to_str ovf F B c st"
| "task_step to_str ovf F B P (TPut h body info) st = put_look P h body info st"
| "task_step to_str ovf F B P (TStore h body info) st = put_store P h body info st"
| "task_step to_str ovf F B P (TIndex h body info) st = put_index ovf h body info st"
| "task_step to_str ovf F B P (TCountPut body) st = (TCountBytes body, count_put st)"
| "task_step to_str ovf F B P (TCountBytes body) st = (put_answer True, count_bytes body st)"
| "task_step to_str ovf F B P (TPresign ts terms fi) st = recon_presign F B ts terms fi st"
| "task_step to_str ovf F B P (TGet hh h start stop len) st = data_get B hh h start stop len st"
| "task_step to_str ovf F B P (THit j) st = (done_with (ok_json j), count_hit st)"
| "task_step to_str ovf F B P TMiss st = (done_with (status_only 404), count_miss st)"
| "task_step to_str ovf F B P (TSweep refd xs n) st = gc_delete B refd xs n st"
| "task_step to_str ovf F B P (TEvict x refd xs n) st = gc_evict x refd xs n st"
| "task_step to_str ovf F B P (TScrub xs n q) st = scrub_head B xs n q st"
| "task_step to_str ovf F B P (TScrubGet x len xs n q) st = scrub_get F B x len xs n q st"
| "task_step to_str ovf F B P (TDone r) st = (TDone r, st)"

text \<open>
  Any number of requests, of those that \<open>allowed\<close> admits: one arrives, one takes a step, one is dropped between two steps because its client
  closed the connection, or the store changes by itself in a way that \<open>env\<close> admits.
\<close>

inductive runs ::
  "(call \<Rightarrow> bool) \<Rightarrow> ('b \<Rightarrow> 'b \<Rightarrow> bool) \<Rightarrow> (string \<Rightarrow> string option) \<Rightarrow> bool \<Rightarrow> fork \<Rightarrow> 'b blob_ops \<Rightarrow> 'b put_calls \<Rightarrow>
     task list \<Rightarrow> 'b app_state \<Rightarrow> task list \<Rightarrow> 'b app_state \<Rightarrow> bool"
  for allowed env to_str ovf F B P ts0 st0 where
  stay: "runs allowed env to_str ovf F B P ts0 st0 ts0 st0"
| arrive: "runs allowed env to_str ovf F B P ts0 st0 ts st \<Longrightarrow> allowed c \<Longrightarrow>
     runs allowed env to_str ovf F B P ts0 st0 (ts @ [TCall c]) st"
| step: "runs allowed env to_str ovf F B P ts0 st0 ts st \<Longrightarrow> i < length ts \<Longrightarrow> task_step to_str ovf F B P (ts ! i) st = (t, st') \<Longrightarrow>
     runs allowed env to_str ovf F B P ts0 st0 (ts[i := t]) st'"
| dropped: "runs allowed env to_str ovf F B P ts0 st0 ts st \<Longrightarrow> i < length ts \<Longrightarrow>
     runs allowed env to_str ovf F B P ts0 st0 (take i ts @ drop (Suc i) ts) st"
| store_changes: "runs allowed env to_str ovf F B P ts0 st0 ts st \<Longrightarrow> env (as_blob st) s \<Longrightarrow>
     runs allowed env to_str ovf F B P ts0 st0 ts (st\<lparr>as_blob := s\<rparr>)"

section \<open>A task that runs alone\<close>

inductive alone ::
  "(string \<Rightarrow> string option) \<Rightarrow> bool \<Rightarrow> fork \<Rightarrow> 'b blob_ops \<Rightarrow> 'b put_calls \<Rightarrow> task \<Rightarrow> 'b app_state \<Rightarrow> task \<Rightarrow> 'b app_state \<Rightarrow> bool"
  for to_str ovf F B P where
  here: "alone to_str ovf F B P t st t st"
| advance: "task_step to_str ovf F B P t st = (t1, st1) \<Longrightarrow> alone to_str ovf F B P t1 st1 t' st' \<Longrightarrow> alone to_str ovf F B P t st t' st'"

lemma alone_trans:
  "alone to_str ovf F B P t st t1 st1 \<Longrightarrow> alone to_str ovf F B P t1 st1 t2 st2 \<Longrightarrow> alone to_str ovf F B P t st t2 st2"
  by (induction rule: alone.induct) (auto intro: alone.advance)

lemma alone_step: "task_step to_str ovf F B P t st = (t', st') \<Longrightarrow> alone to_str ovf F B P t st t' st'"
  by (auto intro: alone.intros)

lemma alone_two:
  "task_step to_str ovf F B P t st = (t1, st1) \<Longrightarrow> task_step to_str ovf F B P t1 st1 = (t', st') \<Longrightarrow> alone to_str ovf F B P t st t' st'"
  by (rule alone.advance [OF _ alone_step])

lemma alone_done: "alone to_str ovf F B P (TDone r) st t st' \<Longrightarrow> t = TDone r \<and> st' = st"
  by (induction "TDone r" st t st' rule: alone.induct) auto

lemma alone_next:
  assumes "alone to_str ovf F B P t st (TDone r) s" and "task_step to_str ovf F B P t st = (t1, st1)"
  shows "alone to_str ovf F B P t1 st1 (TDone r) s"
  using assms by (cases rule: alone.cases) (auto intro: alone.here)

lemma alone_unique:
  "alone to_str ovf F B P t st (TDone r) st1 \<Longrightarrow> alone to_str ovf F B P t st (TDone r') st2 \<Longrightarrow> r' = r \<and> st2 = st1"
proof (induction t st "TDone r" st1 rule: alone.induct)
  case (here st)
  then show ?case using alone_done by blast
next
  case (advance t st t1 st1 st')
  then show ?case using alone_next by blast
qed

text \<open>A task that runs alone is a stretch of every interleaving.\<close>

lemma runs_alone:
  assumes "alone to_str ovf F B P t st t' st'"
  shows "runs allowed env to_str ovf F B P ts0 st0 ts st \<Longrightarrow> i < length ts \<Longrightarrow> ts ! i = t \<Longrightarrow>
     runs allowed env to_str ovf F B P ts0 st0 (ts[i := t']) st'"
  using assms
proof (induction arbitrary: ts rule: alone.induct)
  case (here t st)
  then show ?case by (metis list_update_id)
next
  case (advance t st t1 st1 t' st')
  have "runs allowed env to_str ovf F B P ts0 st0 (ts[i := t1]) st1"
    using advance.prems advance.hyps(1) by (auto intro: runs.step)
  from advance.IH [OF this] advance.prems(2) show ?case by simp
qed

lemma presign_alone:
  "presign_terms F B ts terms fi (as_blob st) = (r, s') \<Longrightarrow>
     alone to_str ovf F B P (TPresign ts terms fi) st
       (TDone (case r of Ok (terms', fi') \<Rightarrow> Ok (ok_json (json_of_recon_response
                 \<lparr>rr_offset_into_first_range = 0, rr_terms = terms', rr_fetch_info = fi'\<rparr>))
             | Err e \<Rightarrow> Ok (with_text 500 (''presign: '' @ e)) | Panic \<Rightarrow> Panic))
       (st\<lparr>as_blob := s'\<rparr>)"
proof (induction ts arbitrary: terms fi st)
  case Nil
  then show ?case by (auto intro: alone_step)
next
  case (Cons t ts)
  obtain u s1 where p: "bs_presign_get B (rv_xorb t) 900 (as_blob st) = (u, s1)" by fastforce
  show ?case
  proof (cases u)
    case (Ok url)
    have "presign_terms F B ts (terms @ [\<lparr>rt_hash = hex F (rv_xorb t), rt_unpacked_length = rv_unpacked t,
         rt_range = \<lparr>cr_start = rv_start t, cr_end = rv_end t\<rparr>\<rparr>])
       (push_fetch_info (hex F (rv_xorb t)) \<lparr>fi_range = \<lparr>cr_start = rv_start t, cr_end = rv_end t\<rparr>, fi_url = url,
         fi_url_range = \<lparr>br_start = rv_byte_start t, br_end = rv_byte_end t\<rparr>\<rparr> fi) (as_blob (st\<lparr>as_blob := s1\<rparr>)) = (r, s')"
      using Cons.prems p Ok by (simp add: Let_def)
    from Cons.IH [OF this] show ?thesis
      by (intro alone.advance [where st = st and ?st1.0 = "st\<lparr>as_blob := s1\<rparr>"]) (use p Ok in \<open>simp_all add: Let_def\<close>)
  qed (use Cons.prems p in \<open>auto intro!: alone_step\<close>)
qed

lemma sweep_alone:
  "gc_sweep B refd xs n st = (r, st') \<Longrightarrow>
     alone to_str ovf F B P (TSweep refd xs n) st
       (TDone (bind_res r (\<lambda>swept. Ok (ok_json (JObj [(''swept'', JNum swept)]))))) st'"
proof (induction xs arbitrary: n st)
  case Nil
  then show ?case by (auto intro: alone_step)
next
  case (Cons x xs)
  show ?case
  proof (cases "x \<in> refd")
    case True
    then show ?thesis using Cons by (auto intro: alone.advance)
  next
    case False
    obtain d s1 where d: "bs_delete B x (as_blob st) = (d, s1)" by fastforce
    show ?thesis
    proof (cases "d = Panic \<or> as_poisoned st")
      case True
      then have r: "r = Panic" "st' = st\<lparr>as_blob := s1\<rparr>" using Cons.prems False d by (cases d; simp)+
      show ?thesis
      proof (cases "d = Panic")
        case True
        then show ?thesis using r False d by (intro alone_step) simp
      next
        case np: False
        show ?thesis
          by (rule alone_two [of _ _ _ _ _ _ _ "TEvict x refd xs n" "st\<lparr>as_blob := s1\<rparr>"])
            (use np True r False d in \<open>cases d; simp add: gc_evict_def\<close>)+
      qed
    next
      case False': False
      let ?st = "st\<lparr>as_blob := s1, as_index := index_evict x (as_index st)\<rparr>"
      have "gc_sweep B refd xs (n + 1) ?st = (r, st')" using Cons.prems False d False' by (cases d) auto
      from Cons.IH [OF this] have "alone to_str ovf F B P (TEvict x refd xs n) (st\<lparr>as_blob := s1\<rparr>)
          (TDone (bind_res r (\<lambda>swept. Ok (ok_json (JObj [(''swept'', JNum swept)]))))) st'"
        by (rule alone.advance [rotated]) (use False' in \<open>simp add: gc_evict_def\<close>)
      then show ?thesis by (rule alone.advance [rotated]) (use False d False' in \<open>cases d; simp\<close>)
    qed
  qed
qed

lemma scrub_alone:
  "scrub_loop F B xs n q (as_blob st) = (r, s') \<Longrightarrow>
     alone to_str ovf F B P (TScrub xs n q) st
       (TDone (bind_res r (\<lambda>(checked, quarantined).
          Ok (ok_json (JObj [(''checked'', JNum checked), (''quarantined'', JNum quarantined)]))))) (st\<lparr>as_blob := s'\<rparr>)"
proof (induction xs arbitrary: n q st)
  case Nil
  then show ?case by (auto intro: alone_step)
next
  case (Cons x xs)
  let ?done = "\<lambda>r. TDone (bind_res r (\<lambda>(checked, quarantined).
      Ok (ok_json (JObj [(''checked'', JNum checked), (''quarantined'', JNum quarantined)]))))"
  obtain v s1 where one: "scrub_one F B x (as_blob st) = (v, s1)" by fastforce
  have rest: "alone to_str ovf F B P (TScrub xs (n + 1) (if bad then q + 1 else q)) (st\<lparr>as_blob := s1\<rparr>) (?done r) (st\<lparr>as_blob := s'\<rparr>)"
    if "v = Ok bad" for bad
    using Cons.IH [of "n + 1" "if bad then q + 1 else q" "st\<lparr>as_blob := s1\<rparr>"] Cons.prems one that by simp
  have fail: "r = Panic \<and> s' = s1" if "v = Panic" using Cons.prems one that by simp
  obtain m s2 where hd: "bs_head B x (as_blob st) = (m, s2)" by fastforce
  show ?case
  proof (cases "\<exists>o'. m = Ok (Some o')")
    case False
    then have "(v = Ok True \<and> s1 = s2 \<and> m \<noteq> Panic) \<or> (v = Panic \<and> s1 = s2 \<and> m = Panic)"
      using one hd by (auto simp: scrub_one_def split: res.splits option.splits)
    then show ?thesis
    proof
      assume v: "v = Ok True \<and> s1 = s2 \<and> m \<noteq> Panic"
      show ?thesis by (rule alone.advance [OF _ rest]) (use v hd False in \<open>auto split: res.splits option.splits\<close>)
    next
      assume "v = Panic \<and> s1 = s2 \<and> m = Panic"
      then show ?thesis using hd fail by (auto intro: alone_step)
    qed
  next
    case True
    then obtain o' where m: "m = Ok (Some o')" by blast
    obtain g s3 where gt: "bs_get_range B x 0 (saturating_sub (om_len o') 1) s2 = (g, s3)" by fastforce
    have "alone to_str ovf F B P (TScrubGet x (om_len o') xs (n + 1) q) (st\<lparr>as_blob := s2\<rparr>) (?done r) (st\<lparr>as_blob := s'\<rparr>)"
    proof (cases v)
      case (Ok bad)
      show ?thesis by (rule alone.advance [OF _ rest [OF Ok]])
          (use Ok one hd m gt in \<open>auto simp: scrub_one_def scrub_get_def split: res.splits option.splits\<close>)
    next
      case (Err e)
      then show ?thesis using one hd m gt by (auto simp: scrub_one_def split: res.splits option.splits)
    next
      case Panic
      show ?thesis by (rule alone_step)
          (use Panic fail [OF Panic] one hd m gt in \<open>auto simp: scrub_one_def scrub_get_def split: res.splits option.splits\<close>)
    qed
    then show ?thesis by (rule alone.advance [rotated]) (use hd m in simp)
  qed
qed

lemma store_alone:
  assumes "put_xorb ovf F B hh body st = (r, st')" and P: "bs_put B = put_of P" and look: "pc_look P h (as_blob st) = (Ok False, s0)"
    and h: "from_hex F hh = Some h" "validate_xorb_object F body h = Ok (Some info)"
  shows "alone to_str ovf F B P (TStore h body info) (st\<lparr>as_blob := s0\<rparr>) (TDone r) st'"
proof -
  obtain y s1 where store: "pc_store P h body s0 = (y, s1)" by fastforce
  show ?thesis
  proof (cases "y = Ok ()")
    case False
    then show ?thesis using assms(1) h store look
      by (intro alone_step, cases y) (auto simp: put_xorb_def P put_of_def put_store_def put_failed_def)
  next
    case True
    let ?st = "st\<lparr>as_blob := s1\<rparr>"
    have put: "bs_put B h body (as_blob st) = (Ok True, s1)" using look store True by (simp add: P put_of_def)
    obtain u ix where up: "index_upload ovf h info (as_index st) = (u, ix)" by fastforce
    have "alone to_str ovf F B P (TIndex h body info) ?st (TDone r) st'"
    proof (cases "as_poisoned st \<or> u \<noteq> Ok ()")
      case True
      then show ?thesis using assms(1) h put up
        by (intro alone_step, cases u) (auto simp: put_xorb_def put_index_def Let_def)
    next
      case False
      let ?st1 = "?st\<lparr>as_index := ix\<rparr>"
      have "alone to_str ovf F B P (TCountPut body) ?st1 (TDone r) st'"
        by (rule alone_two [of _ _ _ _ _ _ _ "TCountBytes body" "count_put ?st1"])
          (use assms(1) h put up False in
            \<open>simp_all add: put_xorb_def count_put_def count_bytes_def put_answer_def Let_def\<close>)
      then show ?thesis by (rule alone.advance [rotated]) (use up False in \<open>simp add: put_index_def\<close>)
    qed
    then show ?thesis by (rule alone.advance [rotated]) (use store True in \<open>simp add: put_store_def\<close>)
  qed
qed

lemma put_alone:
  assumes "put_xorb ovf F B hh body st = (r, st')" and P: "bs_put B = put_of P"
  shows "alone to_str ovf F B P (TCall (CPutXorb hh body)) st (TDone r) st'"
proof (cases "put_gate F hh body")
  case (TPut h b info)
  then have h: "from_hex F hh = Some h" "validate_xorb_object F body h = Ok (Some info)" "b = body"
    by (auto simp: put_gate_def split: option.splits res.splits)
  obtain x s0 where look: "pc_look P h (as_blob st) = (x, s0)" by fastforce
  have "alone to_str ovf F B P (TPut h body info) st (TDone r) st'"
  proof (cases "x = Ok False")
    case True
    then have "alone to_str ovf F B P (TStore h body info) (st\<lparr>as_blob := s0\<rparr>) (TDone r) st'"
      using store_alone [OF assms _ h(1,2)] look by simp
    then show ?thesis by (rule alone.advance [rotated]) (use look True in \<open>simp add: put_look_def\<close>)
  next
    case False
    then show ?thesis using assms(1) h look
      by (intro alone_step, cases x) (auto simp: put_xorb_def P put_of_def put_look_def put_answer_def put_failed_def Let_def)
  qed
  then show ?thesis by (rule alone.advance [rotated]) (simp add: TPut h(3))
qed (use assms(1) in \<open>auto simp: put_gate_def put_xorb_def intro!: alone_step split: option.splits res.splits\<close>)

lemma reconstruct_alone:
  assumes "reconstruct ovf F B hh st = (r, st')"
  shows "alone to_str ovf F B P (TCall (CReconstruct hh)) st (TDone r) st'"
proof (cases "\<exists>fh fr collected. from_hex F hh = Some fh \<and> \<not> as_poisoned st \<and>
    hm_get (ix_files (as_index st)) fh = Some fr \<and> resolve_terms ovf (ix_xorbs (as_index st)) (fr_terms fr) = Ok (Inr collected)")
  case False
  then show ?thesis using assms
    by (intro alone_step) (auto simp: reconstruct_def recon_resolve_def split: option.splits if_splits res.splits sum.splits)
next
  case True
  then obtain fh fr collected where *: "from_hex F hh = Some fh" "\<not> as_poisoned st"
      "hm_get (ix_files (as_index st)) fh = Some fr" "resolve_terms ovf (ix_xorbs (as_index st)) (fr_terms fr) = Ok (Inr collected)"
    by blast
  obtain u s1 where p: "presign_terms F B collected [] [] (as_blob st) = (u, s1)" by fastforce
  have "alone to_str ovf F B P (TPresign collected [] []) st (TDone r) st'"
    using presign_alone [OF p, of to_str ovf] assms * p by (cases u) (auto simp: reconstruct_def)
  then show ?thesis by (rule alone.advance [rotated]) (simp add: recon_resolve_def *)
qed

lemma data_alone:
  assumes "xorb_data to_str F B hh rng st = (r, st')"
  shows "alone to_str ovf F B P (TCall (CXorbData hh rng)) st (TDone r) st'"
proof (cases "fst (data_head to_str F B hh rng st)")
  case (TGet hh' h i j n)
  then obtain m s1 where m: "from_hex F hh = Some h" "bs_head B h (as_blob st) = (Ok (Some m), s1)"
      "parse_range to_str rng (om_len m) = Some (i, j)" "hh' = hh" "n = om_len m"
    by (auto simp: data_head_def split: option.splits res.splits prod.splits)
  have "alone to_str ovf F B P (TGet hh h i j n) (st\<lparr>as_blob := s1\<rparr>) (TDone r) st'"
    by (rule alone_step) (use assms m in \<open>auto simp: xorb_data_def data_get_def split: res.splits prod.splits\<close>)
  then show ?thesis by (rule alone.advance [rotated]) (simp add: data_head_def m)
qed (use assms in \<open>auto simp: data_head_def xorb_data_def intro!: alone_step split: option.splits res.splits prod.splits\<close>)

lemma dedup_alone:
  assumes "global_dedup F hh st = (r, st')"
  shows "alone to_str ovf F B P (TCall (CGlobalDedup hh)) st (TDone r) st'"
proof (cases "\<exists>ch. from_hex F hh = Some ch \<and> \<not> as_poisoned st")
  case False
  then show ?thesis using assms
    by (intro alone_step) (auto simp: global_dedup_def dedup_lookup_def split: option.splits)
next
  case True
  let ?t = "fst (dedup_lookup F hh st)"
  have "alone to_str ovf F B P ?t st (TDone r) st'"
    by (rule alone_step) (use True assms in
      \<open>auto simp: global_dedup_def dedup_lookup_def count_hit_def count_miss_def split: option.splits\<close>)
  then show ?thesis
    by (rule alone.advance [rotated]) (use True in \<open>auto simp: dedup_lookup_def split: option.splits\<close>)
qed

lemma handler_alone:
  assumes run: "handle to_str ovf F B c st = (r, st')" and P: "bs_put B = put_of P"
  shows "alone to_str ovf F B P (TCall c) st (TDone r) st'"
proof (cases c)
  case CGc
  show ?thesis
  proof (cases "as_poisoned st")
    case True
    then show ?thesis using run CGc by (intro alone_step) (simp add: test_gc_def gc_mark_def)
  next
    case False
    obtain u st1 where sw: "gc_sweep B (gc_referenced (as_index st)) (hm_keys (ix_xorbs (as_index st))) 0 st = (u, st1)" by fastforce
    have "alone to_str ovf F B P (TSweep (gc_referenced (as_index st)) (hm_keys (ix_xorbs (as_index st))) 0) st (TDone r) st'"
      using sweep_alone [OF sw, of to_str ovf F] run CGc False sw by (cases u) (auto simp: test_gc_def)
    then show ?thesis by (rule alone.advance [rotated]) (simp add: CGc gc_mark_def False)
  qed
next
  case CScrub
  show ?thesis
  proof (cases "as_poisoned st")
    case True
    then show ?thesis using run CScrub by (intro alone_step) (simp add: test_scrub_def scrub_keys_def)
  next
    case False
    obtain u s1 where lp: "scrub_loop F B (hm_keys (ix_xorbs (as_index st))) 0 0 (as_blob st) = (u, s1)" by fastforce
    have "alone to_str ovf F B P (TScrub (hm_keys (ix_xorbs (as_index st))) 0 0) st (TDone r) st'"
      using scrub_alone [OF lp, of to_str ovf] run CScrub False lp by (cases u) (auto simp: test_scrub_def)
    then show ?thesis by (rule alone.advance [rotated]) (simp add: CScrub scrub_keys_def False)
  qed
next
  case (CPutXorb hh body)
  then show ?thesis using run put_alone [OF _ P] by auto
next
  case (CReconstruct hh)
  then show ?thesis using run by (auto intro: reconstruct_alone)
next
  case (CXorbData hh rng)
  then show ?thesis using run by (auto intro: data_alone)
next
  case (CGlobalDedup hh)
  then show ?thesis using run by (auto intro: dedup_alone)
qed (use run in \<open>auto intro!: alone_step\<close>)

text \<open>
  The steps of a request, taken without interruption, are its handler: the task ends with exactly the response and
  the state that the sequential handler computes, for every request and state and every store whose put consists of the two calls.
\<close>

theorem alone_is_handler:
  assumes "bs_put B = put_of P"
  shows "alone to_str ovf F B P (TCall c) st (TDone r) st' \<longleftrightarrow> handle to_str ovf F B c st = (r, st')"
proof -
  obtain r0 st0 where h: "handle to_str ovf F B c st = (r0, st0)" by fastforce
  have "alone to_str ovf F B P (TCall c) st (TDone r0) st0" using h assms by (rule handler_alone)
  then show ?thesis using h alone_unique by (auto dest: alone_unique)
qed

section \<open>Invariants of every interleaving\<close>

text \<open>
  What no interleaving can break in the index: the maps are well formed, catalog entries name registered files, and chunk
  locations name indexed xorbs. And in the store: every object passes the integrity gate under its own key.
\<close>

definition loose_index :: "index_store \<Rightarrow> bool" where
  "loose_index ix \<longleftrightarrow>
     index_ok ix \<and> ran (hm_get (ix_catalog ix)) \<subseteq> dom (hm_get (ix_files ix)) \<and>
     (\<forall>h l. hm_get (ix_chunk_index ix) h = Some l \<longrightarrow> cl_xorb l \<in> dom (hm_get (ix_xorbs ix)))"

definition loose_inv :: "fork \<Rightarrow> (hash \<Rightarrow> bytes option) \<Rightarrow> 'b app_state \<Rightarrow> bool" where
  "loose_inv F C st \<longleftrightarrow> loose_index (as_index st) \<and> blobs_valid F C"

lemma index_inv_loose: "index_inv ix \<Longrightarrow> loose_index ix"
  by (auto simp: loose_index_def refs_ok_def)

text \<open>The index without its files: nothing is referenced, the rest of the invariant is as before.\<close>

definition fileless :: "index_store \<Rightarrow> index_store" where
  "fileless ix = ix\<lparr>ix_files := [], ix_catalog := []\<rparr>"

lemma fileless_inv:
  "index_ok ix \<Longrightarrow> index_inv (fileless ix) \<longleftrightarrow>
     (\<forall>h l. hm_get (ix_chunk_index ix) h = Some l \<longrightarrow> cl_xorb l \<in> dom (hm_get (ix_xorbs ix)))"
  by (auto simp: fileless_def refs_ok_def index_ok_def referenced_def)

lemma index_upload_fileless:
  "index_upload ovf h info ix = (r, ix') \<Longrightarrow> index_upload ovf h info (fileless ix) = (r, fileless ix')"
  by (auto simp: index_upload_def index_chunks_def index_put_xorb_def fileless_def split: prod.splits)

lemma index_upload_ok:
  assumes "index_ok ix" "index_upload ovf h info ix = (r, ix')"
  shows "index_ok ix'"
proof -
  obtain c where c: "index_chunks_loop ovf h (xi_unpacked_chunk_offsets info) 0 0 (xi_chunk_hashes info) (ix_chunk_index ix) = (r, c)"
      "ix' = (index_put_xorb h info ix)\<lparr>ix_chunk_index := c\<rparr>"
    using assms(2) by (auto simp: index_upload_def index_chunks_def split: prod.splits)
  have "hm_ok (hm_or_insert h (from_info info) (ix_xorbs ix))" using assms(1) by (simp add: index_ok_def hm.ok_or_insert)
  then show ?thesis using assms(1) index_chunks_loop_ok [OF c(1)] by (simp add: c(2) index_ok_def index_put_xorb_def)
qed

lemma index_upload_loose:
  assumes "loose_index ix" "info_wf info n" "index_upload ovf h info ix = (r, ix')"
  shows "r = Ok ()" "loose_index ix'"
proof -
  have ok: "index_ok ix" "index_ok ix'" using assms(1) index_upload_ok [OF _ assms(3)] by (simp_all add: loose_index_def)
  have "index_inv (fileless ix)" using fileless_inv [OF ok(1)] assms(1) by (simp add: loose_index_def)
  from index_upload_inv [OF this assms(2) index_upload_fileless [OF assms(3)]]
  have i: "r = Ok ()" "index_inv (fileless ix')" by blast+
  then show "r = Ok ()" by blast
  show "loose_index ix'"
    using assms(1) i(2) fileless_inv [OF ok(2)] ok(2) index_upload_frame(1,2) [OF assms(3)] by (simp add: loose_index_def)
qed

lemma index_evict_loose:
  assumes "loose_index ix"
  shows "loose_index (index_evict x ix)"
proof -
  have ok: "index_ok ix" using assms by (simp add: loose_index_def)
  have "index_ok (index_evict x ix)"
    using ok by (auto simp: index_ok_def index_evict_def intro: hm.ok_remove hm.ok_retain)
  moreover have "index_inv (fileless ix)" using fileless_inv [OF ok] assms by (simp add: loose_index_def)
  then have "index_inv (index_evict x (fileless ix))"
    by (rule index_evict_inv) (simp add: fileless_def referenced_def)
  moreover have "index_evict x (fileless ix) = fileless (index_evict x ix)"
    by (simp add: index_evict_def fileless_def)
  ultimately show ?thesis using assms fileless_inv [of "index_evict x ix"] by (simp add: loose_index_def)
qed

text \<open>What a suspended task relies on.\<close>

fun task_ok :: "fork \<Rightarrow> task \<Rightarrow> bool" where
  "task_ok F (TCall c) \<longleftrightarrow> admitted c"
| "task_ok F (TPut h b info) \<longleftrightarrow> blob_len_ok b \<and> validate_xorb_object F b h = Ok (Some info)"
| "task_ok F (TStore h b info) \<longleftrightarrow> blob_len_ok b \<and> validate_xorb_object F b h = Ok (Some info)"
| "task_ok F (TIndex h b info) \<longleftrightarrow> validate_xorb_object F b h = Ok (Some info)"
| "task_ok F (TGet hh h i j n) \<longleftrightarrow> i \<le> j \<and> j < - 1"
| "task_ok F _ \<longleftrightarrow> True"

text \<open>A task that is not a collection, and whose object is stored.\<close>

fun calm :: "(hash \<Rightarrow> bytes option) \<Rightarrow> task \<Rightarrow> bool" where
  "calm C (TCall c) \<longleftrightarrow> c \<noteq> CGc"
| "calm C (TIndex h b info) \<longleftrightarrow> C h \<noteq> None"
| "calm C (TSweep _ _ _) \<longleftrightarrow> False"
| "calm C (TEvict _ _ _ _) \<longleftrightarrow> False"
| "calm C _ \<longleftrightarrow> True"

lemma calm_mono: "calm C t \<Longrightarrow> dom C \<subseteq> dom C' \<Longrightarrow> calm C' t"
  by (cases t) auto

text \<open>What a registration touches.\<close>

lemma register_file_frame:
  assumes "register_file F req st = (r, st')"
  shows "st' = st \<or> (\<exists>fh f ix. st' = st\<lparr>as_index := ix\<rparr> \<and> ix_xorbs ix = ix_xorbs (as_index st) \<and>
     ix_chunk_index ix = ix_chunk_index (as_index st) \<and> ix_files ix = hm_insert fh f (ix_files (as_index st)) \<and>
     (ix_catalog ix = ix_catalog (as_index st) \<or> (\<exists>vp. ix_catalog ix = hm_insert vp fh (ix_catalog (as_index st)))))"
proof (cases "\<exists>fh terms. from_hex F (rf_file_hash req) = Some fh \<and> \<not> as_poisoned st \<and>
    register_terms F (ix_xorbs (as_index st)) (rf_terms req) = Inr terms")
  case False
  then show ?thesis using assms by (auto simp: register_file_def split: option.splits if_splits sum.splits)
next
  case True
  then obtain fh terms where *: "from_hex F (rf_file_hash req) = Some fh" "\<not> as_poisoned st"
      "register_terms F (ix_xorbs (as_index st)) (rf_terms req) = Inr terms" by blast
  let ?f = "\<lparr>fr_total_size = rf_total_size req, fr_terms = terms\<rparr>"
  have "\<exists>ix. st' = st\<lparr>as_index := ix\<rparr> \<and> ix_xorbs ix = ix_xorbs (as_index st) \<and>
      ix_chunk_index ix = ix_chunk_index (as_index st) \<and> ix_files ix = hm_insert fh ?f (ix_files (as_index st)) \<and>
      (ix_catalog ix = ix_catalog (as_index st) \<or> (\<exists>vp. ix_catalog ix = hm_insert vp fh (ix_catalog (as_index st))))"
    using assms * by (intro exI [of _ "as_index st'"]) (auto simp: register_file_def Let_def split: option.splits; blast)
  then show ?thesis by blast
qed

lemma register_loose:
  assumes l: "loose_index (as_index st)" and run: "register_file F req st = (r, st')"
  shows "loose_index (as_index st')"
proof (cases "st' = st")
  case False
  then obtain fh f ix where *: "st' = st\<lparr>as_index := ix\<rparr>" "ix_xorbs ix = ix_xorbs (as_index st)"
    "ix_chunk_index ix = ix_chunk_index (as_index st)" "ix_files ix = hm_insert fh f (ix_files (as_index st))"
    "ix_catalog ix = ix_catalog (as_index st) \<or> (\<exists>vp. ix_catalog ix = hm_insert vp fh (ix_catalog (as_index st)))"
    using register_file_frame [OF run] by blast
  have "ran (hm_get (ix_catalog ix)) \<subseteq> insert fh (ran (hm_get (ix_catalog (as_index st))))"
    using *(5) by (auto simp: ran_def split: if_splits; blast)
  moreover have "hm_ok (ix_catalog ix)" using l *(5) by (auto simp: loose_index_def index_ok_def intro: hm.ok_insert)
  ultimately show ?thesis
    using l * by (auto simp: loose_index_def index_ok_def intro: hm.ok_insert)
qed (use l in simp)

lemma register_inv:
  assumes inv: "index_inv (as_index st)" and run: "register_file F req st = (r, st')"
  shows "index_inv (as_index st')"
proof (cases "\<exists>terms. register_terms F (ix_xorbs (as_index st)) (rf_terms req) = Inr terms")
  case False
  then have "st' = st" using run by (auto simp: register_file_def split: option.splits if_splits sum.splits)
  then show ?thesis using inv by simp
next
  case True
  then obtain terms where t: "register_terms F (ix_xorbs (as_index st)) (rf_terms req) = Inr terms" by blast
  then have "\<forall>t \<in> set terms. ft_xorb t \<in> dom (hm_get (ix_xorbs (as_index st)))" using register_terms_Inr by blast
  note reg = index_register_inv [OF inv this]
  show ?thesis using run t reg inv by (auto simp: register_file_def Let_def split: option.splits if_splits)
qed

section \<open>The index, whatever the store does\<close>

text \<open>The three steps that write the index.\<close>

lemma index_moves:
  assumes "task_step to_str ovf F B P t st = (t', st')"
  obtains (same) "as_index st' = as_index st"
    | (upload) h b info u where "t = TIndex h b info" "index_upload ovf h info (as_index st) = (u, as_index st')"
    | (evict) x refd xs n where "t = TEvict x refd xs n" "as_index st' = index_evict x (as_index st)"
    | (register) req r where "t = TCall (CRegisterFile req)" "register_file F req st = (r, st')"
proof (cases t)
  case (TCall c)
  show thesis
  proof (cases c)
    case (CRegisterFile req)
    then show thesis using assms TCall register by (auto split: prod.splits)
  next
    case (CReconstruct hh)
    then show thesis using assms TCall same by (auto simp: recon_resolve_def split: option.splits if_splits res.splits sum.splits)
  next
    case (CXorbData hh rng)
    then show thesis using assms TCall same by (auto simp: data_head_def split: option.splits res.splits prod.splits)
  next
    case (CGlobalDedup hh)
    then show thesis using assms TCall same by (auto simp: dedup_lookup_def split: option.splits if_splits)
  qed (use assms TCall same in \<open>auto simp: gc_mark_def scrub_keys_def list_entries_def put_shard_def test_metric_def test_noop_def
         test_mint_token_def Let_def split: if_splits\<close>)
next
  case (TIndex h b info)
  then show thesis using assms same upload by (auto simp: put_index_def split: if_splits prod.splits res.splits)
next
  case (TEvict x refd xs n)
  then show thesis using assms same evict by (auto simp: gc_evict_def split: if_splits)
next
  case (TPresign ts terms fi)
  then show thesis using assms same by (cases ts) (auto simp: Let_def split: res.splits prod.splits)
next
  case (TSweep refd xs n)
  then show thesis using assms same by (cases xs) (auto split: res.splits prod.splits if_splits)
next
  case (TScrub xs n q)
  then show thesis using assms same by (cases xs) (auto split: res.splits prod.splits option.splits)
qed (use assms same in \<open>auto simp: put_look_def put_store_def data_get_def scrub_get_def count_put_def count_bytes_def count_hit_def
       count_miss_def split: res.splits prod.splits option.splits if_splits\<close>)

text \<open>A footer on its way into the index came through the gate; and a task that is no collection.\<close>

fun gated :: "fork \<Rightarrow> task \<Rightarrow> bool" where
  "gated F (TPut h b info) \<longleftrightarrow> validate_xorb_object F b h = Ok (Some info)"
| "gated F (TStore h b info) \<longleftrightarrow> validate_xorb_object F b h = Ok (Some info)"
| "gated F (TIndex h b info) \<longleftrightarrow> validate_xorb_object F b h = Ok (Some info)"
| "gated F _ \<longleftrightarrow> True"

fun no_sweep :: "task \<Rightarrow> bool" where
  "no_sweep (TCall c) \<longleftrightarrow> c \<noteq> CGc"
| "no_sweep (TSweep _ _ _) \<longleftrightarrow> False"
| "no_sweep (TEvict _ _ _ _) \<longleftrightarrow> False"
| "no_sweep _ \<longleftrightarrow> True"

lemma step_gated:
  assumes "task_step to_str ovf F B P t st = (t', st')" "gated F t"
  shows "gated F t'" "no_sweep t \<Longrightarrow> no_sweep t'"
proof -
  have "gated F t' \<and> (no_sweep t \<longrightarrow> no_sweep t')"
  proof (cases t)
    case (TCall c)
    then show ?thesis
      using assms(1) by (cases c) (auto simp: put_gate_def recon_resolve_def data_head_def dedup_lookup_def gc_mark_def scrub_keys_def
          split: option.splits if_splits res.splits sum.splits prod.splits)
  next
    case (TPresign ts terms fi)
    then show ?thesis using assms by (cases ts) (auto simp: Let_def split: res.splits prod.splits)
  next
    case (TSweep refd xs n)
    then show ?thesis using assms by (cases xs) (auto split: res.splits prod.splits if_splits)
  next
    case (TScrub xs n q)
    then show ?thesis using assms by (cases xs) (auto split: res.splits prod.splits option.splits)
  qed (use assms in \<open>auto simp: put_look_def put_store_def put_failed_def put_index_def put_answer_def data_get_def gc_evict_def
         scrub_get_def split: res.splits prod.splits if_splits option.splits\<close>)
  then show "gated F t'" "no_sweep t \<Longrightarrow> no_sweep t'" by blast+
qed

lemma step_index:
  assumes F: "validate_wf F" and run: "task_step to_str ovf F B P t st = (t', st')" and t: "gated F t"
  shows "loose_index (as_index st) \<Longrightarrow> loose_index (as_index st')"
    and "index_inv (as_index st) \<Longrightarrow> no_sweep t \<Longrightarrow> index_inv (as_index st')"
proof -
  have wf: "info_wf info (length b)" if "t = TIndex h b info" for h b info
    using valid_xorb_info_wf [OF F] t that by simp
  show "loose_index (as_index st')" if "loose_index (as_index st)"
    using run by (cases rule: index_moves)
      (use that index_upload_loose(2) [OF that wf] index_evict_loose register_loose in auto)
  show "index_inv (as_index st')" if "index_inv (as_index st)" "no_sweep t"
    using run
  proof (cases rule: index_moves)
    case (upload h b info u)
    then show ?thesis using index_upload_inv [OF that(1) wf upload(2)] by blast
  next
    case (evict x refd xs n)
    then show ?thesis using that(2) by simp
  next
    case (register req r)
    then show ?thesis using register_inv [OF that(1)] by blast
  qed (use that in simp)
qed

lemma runs_index:
  assumes "runs allowed env to_str ovf F B P ts0 st0 ts st" "validate_wf F" "loose_index (as_index st0)" "\<forall>t \<in> set ts0. gated F t"
  shows "loose_index (as_index st) \<and> (\<forall>t \<in> set ts. gated F t)"
  using assms
proof (induction rule: runs.induct)
  case (step ts st i t st')
  then have IH: "loose_index (as_index st)" "\<forall>t \<in> set ts. gated F t" by blast+
  then have g: "gated F (ts ! i)" using step.hyps(2) by simp
  have "loose_index (as_index st')" "gated F t"
    using step_index(1) [OF step.prems(1) step.hyps(3) g IH(1)] step_gated(1) [OF step.hyps(3) g] by blast+
  then show ?case using IH(2) set_update_subset_insert [of ts i t] by blast
next
  case (dropped ts st i)
  then show ?case by (auto dest: in_set_takeD in_set_dropD)
qed auto

lemma runs_index_inv:
  assumes "runs allowed env to_str ovf F B P ts0 st0 ts st" "validate_wf F" "\<not> allowed CGc"
    and "index_inv (as_index st0)" "\<forall>t \<in> set ts0. gated F t \<and> no_sweep t"
  shows "index_inv (as_index st) \<and> (\<forall>t \<in> set ts. gated F t \<and> no_sweep t)"
  using assms
proof (induction rule: runs.induct)
  case (arrive ts st c)
  then show ?case by (cases "c = CGc") auto
next
  case (step ts st i t st')
  then have IH: "index_inv (as_index st)" "\<forall>t \<in> set ts. gated F t \<and> no_sweep t" by blast+
  then have g: "gated F (ts ! i)" "no_sweep (ts ! i)" using step.hyps(2) by simp_all
  have "index_inv (as_index st')" "gated F t \<and> no_sweep t"
    using step_index(2) [OF step.prems(1) step.hyps(3) g(1) IH(1) g(2)] step_gated [OF step.hyps(3) g(1)] g(2) by blast+
  then show ?case using IH(2) set_update_subset_insert [of ts i t] by blast
next
  case (dropped ts st i)
  then show ?case by (auto dest: in_set_takeD in_set_dropD)
qed auto

text \<open>
  C30. The index of the concurrent server, whatever its store does: under any interleaving of any number of requests, any requests dropped half
  way, any answers of the blob store and any changes to it between two steps (so also when a call of the store is itself a row
  of system calls that interleave with others), the maps are well formed, catalog entries name registered files
  and chunk locations name indexed xorbs; and as long as no collection runs every registered term names an indexed xorb.
\<close>

theorem concurrent_index_inv:
  assumes "validate_wf F" and "runs allowed env to_str ovf F B P [] (app_state_new blob auth rt wt) ts st"
  shows "loose_index (as_index st) \<and> (allowed CGc \<or> index_inv (as_index st))"
proof -
  have new: "index_inv (as_index (app_state_new blob auth rt wt))" by (simp add: index_default_inv)
  show ?thesis
    using runs_index [OF assms(2,1) index_inv_loose [OF new]] runs_index_inv [OF assms(2,1) _ new] by auto
qed

section \<open>Store and index over a store with a contract\<close>

context blob_store
begin

definition loose :: "fork \<Rightarrow> 'b app_state \<Rightarrow> bool" where
  "loose F st \<longleftrightarrow> invar (as_blob st) \<and> loose_inv F (contents (as_blob st)) st"

text \<open>What the two calls of a put promise.\<close>

definition put_calls_ok :: "'b put_calls \<Rightarrow> bool" where
  "put_calls_ok P \<longleftrightarrow>
     (\<forall>h s r s'. invar s \<and> pc_look P h s = (r, s') \<longrightarrow> invar s' \<and> contents s' = contents s) \<and>
     (\<forall>h b s r s'. invar s \<and> blob_len_ok b \<and> pc_store P h b s = (r, s') \<longrightarrow>
        invar s' \<and> contents s' \<in> {contents s, (contents s)(h \<mapsto> b)} \<and> (r = Ok () \<longrightarrow> contents s' = (contents s)(h \<mapsto> b)))"

text \<open>The store by itself keeps its contents.\<close>

definition quiet :: "('b \<Rightarrow> 'b \<Rightarrow> bool) \<Rightarrow> bool" where
  "quiet env \<longleftrightarrow> (\<forall>s s'. env s s' \<and> invar s \<longrightarrow> invar s' \<and> contents s' = contents s)"

lemma loose_blob:
  "loose F st \<Longrightarrow> invar s1 \<Longrightarrow> blobs_valid F (contents s1) \<Longrightarrow> loose F (st\<lparr>as_blob := s1\<rparr>)"
  by (simp add: loose_def loose_inv_def)

lemma loose_read:
  "loose F st \<Longrightarrow> invar s1 \<Longrightarrow> contents s1 = contents (as_blob st) \<Longrightarrow> loose F (st\<lparr>as_blob := s1\<rparr>)"
  by (simp add: loose_def loose_inv_def)

lemma loose_same: "loose F st \<Longrightarrow> as_blob st' = as_blob st \<Longrightarrow> as_index st' = as_index st \<Longrightarrow> loose F st'"
  by (simp add: loose_def loose_inv_def)

lemma loose_invar: "loose F st \<Longrightarrow> invar (as_blob st)"
  by (simp add: loose_def)

lemma good_loose: "good F st \<Longrightarrow> loose F st"
  unfolding good_def server_inv_def loose_def loose_inv_def using index_inv_loose by blast

text \<open>
  One step: the loose invariant, and without collections the full invariant.
\<close>

definition keeps :: "fork \<Rightarrow> task \<Rightarrow> 'b app_state \<Rightarrow> task \<times> 'b app_state \<Rightarrow> bool" where
  "keeps F t st = (\<lambda>(t', st').
     (loose F st \<longrightarrow> loose F st' \<and> task_ok F t') \<and>
     (good F st \<and> calm (contents (as_blob st)) t \<longrightarrow>
        good F st' \<and> calm (contents (as_blob st')) t' \<and> dom (contents (as_blob st)) \<subseteq> dom (contents (as_blob st'))))"

text \<open>A step that only reads.\<close>

lemma keeps_read:
  assumes "as_index st' = as_index st" "loose F st \<Longrightarrow> invar (as_blob st') \<and> contents (as_blob st') = contents (as_blob st)"
    and "loose F st \<Longrightarrow> task_ok F t'" "loose F st \<Longrightarrow> calm (contents (as_blob st)) t \<Longrightarrow> calm (contents (as_blob st')) t'"
  shows "keeps F t st (t', st')"
  using assms good_loose [of F st]
  by (auto simp: keeps_def loose_def loose_inv_def good_def server_inv_def)

lemma put_look_keeps:
  assumes "put_calls_ok P" "task_ok F (TPut h b info)"
  shows "keeps F (TPut h b info) st (put_look P h b info st)"
proof -
  obtain r s1 where look: "pc_look P h (as_blob st) = (r, s1)" by fastforce
  have "loose F st \<Longrightarrow> invar s1 \<and> contents s1 = contents (as_blob st)"
    using assms(1) look unfolding put_calls_ok_def loose_def by blast
  moreover have "\<exists>t. put_look P h b info st = (t, st\<lparr>as_blob := s1\<rparr>) \<and> task_ok F t \<and> (\<forall>C. calm C t)"
    using assms(2) look by (cases r) (auto simp: put_look_def put_failed_def put_answer_def)
  ultimately show ?thesis by (auto intro!: keeps_read)
qed

lemma put_store_keeps:
  assumes P: "put_calls_ok P" and t: "task_ok F (TStore h b info)"
  shows "keeps F (TStore h b info) st (put_store P h b info st)"
proof -
  obtain r s1 where store: "pc_store P h b (as_blob st) = (r, s1)" by fastforce
  obtain t where res: "put_store P h b info st = (t, st\<lparr>as_blob := s1\<rparr>)" "task_ok F t" "(\<forall>C. calm C t) \<or> r = Ok () \<and> t = TIndex h b info"
    using t store by (cases r) (auto simp: put_store_def put_failed_def)
  have valid: "valid_xorb F h b" and len: "blob_len_ok b" using t by (auto simp: valid_xorb_def)
  have law: "invar s1 \<and> contents s1 \<in> {contents (as_blob st), (contents (as_blob st))(h \<mapsto> b)} \<and>
      (r = Ok () \<longrightarrow> contents s1 = (contents (as_blob st))(h \<mapsto> b))" if "invar (as_blob st)"
    using P len store that unfolding put_calls_ok_def by blast
  have "loose F (st\<lparr>as_blob := s1\<rparr>)" if l: "loose F st"
  proof -
    have i: "invar (as_blob st)" using l by (simp add: loose_def)
    have "blobs_valid F (contents (as_blob st))" using l by (simp add: loose_def loose_inv_def)
    then have "blobs_valid F (contents s1)" using law [OF i] valid by (auto simp: blobs_valid_def split: if_splits)
    then show ?thesis using law [OF i] loose_blob [OF l] by blast
  qed
  moreover have "good F (st\<lparr>as_blob := s1\<rparr>) \<and> calm (contents s1) t \<and> dom (contents (as_blob st)) \<subseteq> dom (contents s1)" if g: "good F st"
  proof -
    have i: "invar (as_blob st)" and b: "blobs_valid F (contents (as_blob st))" using g by (simp_all add: good_def server_inv_def)
    have "blobs_valid F (contents s1)" "dom (contents (as_blob st)) \<subseteq> dom (contents s1)"
      using law [OF i] valid b by (auto simp: blobs_valid_def split: if_splits)
    moreover have "calm (contents s1) t"
    proof (cases "r = Ok ()")
      case True
      then have "contents s1 h = Some b" using law [OF i] by simp
      then show ?thesis using res(3) by auto
    qed (use res(3) in simp)
    ultimately show ?thesis using g law [OF i] by (auto simp: good_def server_inv_def)
  qed
  ultimately show ?thesis using res(1,2) by (simp add: keeps_def)
qed

lemma put_index_keeps:
  assumes F: "validate_wf F" and t: "task_ok F (TIndex h b info)"
  shows "keeps F (TIndex h b info) st (put_index ovf h b info st)"
proof (cases "as_poisoned st")
  case True
  then show ?thesis by (auto simp: put_index_def keeps_def)
next
  case False
  obtain u ix where up: "index_upload ovf h info (as_index st) = (u, ix)" by fastforce
  have wf: "info_wf info (length b)" using valid_xorb_info_wf [OF F] t by simp
  have res: "put_index ovf h b info st = (TCountPut b, st\<lparr>as_index := ix\<rparr>)" "loose F (st\<lparr>as_index := ix\<rparr>)" if "loose F st"
    using index_upload_loose [OF _ wf up] that False up by (auto simp: loose_def loose_inv_def put_index_def)
  have "good F (st\<lparr>as_index := ix\<rparr>)" if g: "good F st" and c: "contents (as_blob st) h \<noteq> None"
  proof -
    have "index_inv (as_index st)" using g by (simp add: good_def server_inv_def)
    note i = index_upload_inv [OF this wf up]
    have "dom (hm_get (ix_xorbs ix)) \<subseteq> dom (contents (as_blob st))"
      using g c index_upload_frame(3) [OF up] by (auto simp: good_def server_inv_def split: if_splits)
    then show ?thesis using g i by (simp add: good_def server_inv_def)
  qed
  then show ?thesis using res good_loose [of F st] False up by (auto simp: keeps_def put_index_def split: res.splits)
qed

lemma presign_keeps: "keeps F (TPresign ts terms fi) st (recon_presign F B ts terms fi st)"
proof (cases ts)
  case Nil
  then show ?thesis by (auto intro!: keeps_read simp: loose_def)
next
  case (Cons t us)
  obtain u s1 where p: "bs_presign_get B (rv_xorb t) 900 (as_blob st) = (u, s1)" by fastforce
  have "loose F st \<Longrightarrow> invar s1 \<and> contents s1 = contents (as_blob st)" using presign_law p by (auto simp: loose_def)
  then show ?thesis by (cases u) (auto simp: Cons p Let_def intro!: keeps_read)
qed

lemma data_head_keeps: "keeps F (TCall (CXorbData hh rng)) st (data_head to_str F B hh rng st)"
proof (cases "from_hex F hh")
  case None
  then show ?thesis by (auto intro!: keeps_read simp: data_head_def loose_def)
next
  case (Some h)
  obtain m s1 where hd: "bs_head B h (as_blob st) = (m, s1)" by fastforce
  have s1: "loose F st \<Longrightarrow> invar s1 \<and> contents s1 = contents (as_blob st)" using head_law hd by (auto simp: loose_def)
  show ?thesis
  proof (cases "\<exists>o' i j. m = Ok (Some o') \<and> parse_range to_str rng (om_len o') = Some (i, j)")
    case True
    then obtain o' i j where m: "m = Ok (Some o')" "parse_range to_str rng (om_len o') = Some (i, j)" by blast
    show ?thesis using s1 parse_range_ordered [OF m(2)] parse_range_below_max [OF m(2)]
      by (auto simp: data_head_def Some hd m intro!: keeps_read)
  next
    case False
    then have "\<exists>r. data_head to_str F B hh rng st = (TDone r, st\<lparr>as_blob := s1\<rparr>)"
      by (cases m) (auto simp: data_head_def Some hd split: option.splits)
    then show ?thesis using s1 by (auto intro!: keeps_read)
  qed
qed

lemma data_get_keeps:
  assumes "task_ok F (TGet hh h i j n)"
  shows "keeps F (TGet hh h i j n) st (data_get B hh h i j n st)"
proof -
  obtain g s1 where gt: "bs_get_range B h i j (as_blob st) = (g, s1)" by fastforce
  have s1: "loose F st \<Longrightarrow> invar s1 \<and> contents s1 = contents (as_blob st)"
    using get_law [OF _ _ _ gt] assms by (auto simp: loose_def)
  show ?thesis using s1 by (cases g) (auto simp: data_get_def gt intro!: keeps_read)
qed

lemma scrub_get_keeps: "keeps F (TScrubGet x len xs n q) st (scrub_get F B x len xs n q st)"
proof -
  obtain g s1 where gt: "bs_get_range B x 0 (saturating_sub len 1) (as_blob st) = (g, s1)" by fastforce
  have s1: "loose F st \<Longrightarrow> invar s1 \<and> contents s1 = contents (as_blob st)"
    using get_law [OF _ _ _ gt] saturating_pred_below_max by (auto simp: loose_def)
  have "\<exists>t. scrub_get F B x len xs n q st = (t, st\<lparr>as_blob := s1\<rparr>) \<and> task_ok F t \<and> (\<forall>C. calm C t)"
    by (cases g) (auto simp: scrub_get_def gt split: res.splits option.splits)
  then show ?thesis using s1 by (auto intro!: keeps_read)
qed

lemma scrub_head_keeps: "keeps F (TScrub xs n q) st (scrub_head B xs n q st)"
proof (cases xs)
  case Nil
  then show ?thesis by (auto intro!: keeps_read simp: loose_def)
next
  case (Cons x ys)
  obtain m s1 where hd: "bs_head B x (as_blob st) = (m, s1)" by fastforce
  have s1: "loose F st \<Longrightarrow> invar s1 \<and> contents s1 = contents (as_blob st)" using head_law hd by (auto simp: loose_def)
  have "\<exists>t. scrub_head B xs n q st = (t, st\<lparr>as_blob := s1\<rparr>) \<and> task_ok F t \<and> (\<forall>C. calm C t)"
    by (cases m) (auto simp: Cons hd split: option.splits)
  then show ?thesis using s1 by (auto intro!: keeps_read)
qed

lemma gc_delete_keeps: "keeps F (TSweep refd xs n) st (gc_delete B refd xs n st)"
proof (cases xs)
  case Nil
  then show ?thesis by (simp add: keeps_def)
next
  case (Cons x ys)
  obtain d s1 where del: "bs_delete B x (as_blob st) = (d, s1)" by fastforce
  have "loose F (st\<lparr>as_blob := s1\<rparr>)" if l: "loose F st"
  proof -
    have inv: "invar (as_blob st)" using l by (simp add: loose_def)
    have "blobs_valid F (contents s1)"
      using delete_contents_cases [OF inv del] l unfolding loose_def loose_inv_def blobs_valid_def by blast
    then show ?thesis using delete_law [OF inv del] by (intro loose_blob [OF l]) auto
  qed
  then show ?thesis by (cases d) (auto simp: keeps_def Cons del)
qed

lemma register_keeps: "keeps F (TCall (CRegisterFile req)) st (call_step to_str ovf F B (CRegisterFile req) st)"
proof -
  obtain r st' where run: "register_file F req st = (r, st')" by fastforce
  have "as_blob st' = as_blob st" using register_file_frame [OF run] by auto
  then show ?thesis
    using register_file_good [OF _ run] register_loose [OF _ run] by (simp add: run keeps_def loose_def loose_inv_def)
qed

lemma call_keeps:
  assumes F: "validate_wf F" and t: "admitted c"
  shows "keeps F (TCall c) st (call_step to_str ovf F B c st)"
proof (cases c)
  case (CRegisterFile req)
  then show ?thesis using register_keeps by simp
next
  case (CReconstruct hh)
  have "\<exists>t st'. recon_resolve ovf F hh st = (t, st') \<and> as_index st' = as_index st \<and> as_blob st' = as_blob st \<and> task_ok F t \<and> (\<forall>C. calm C t)"
    by (auto simp: recon_resolve_def split: option.splits if_splits res.splits sum.splits)
  then show ?thesis by (auto simp: CReconstruct loose_def intro!: keeps_read)
next
  case (CGlobalDedup hh)
  have "\<exists>t. dedup_lookup F hh st = (t, st) \<and> task_ok F t \<and> (\<forall>C. calm C t)"
    by (auto simp: dedup_lookup_def split: option.splits)
  then show ?thesis by (auto simp: CGlobalDedup loose_def intro!: keeps_read)
next
  case (CPutXorb hh body)
  have "task_ok F (put_gate F hh body)" "calm C (put_gate F hh body)" for C
    using t by (auto simp: CPutXorb put_gate_def MAX_BODY_BYTES_def split: option.splits res.splits)
  then show ?thesis by (auto simp: CPutXorb loose_def intro!: keeps_read)
next
  case (CXorbData hh rng)
  then show ?thesis using data_head_keeps by simp
next
  case CGc
  then show ?thesis by (auto simp: gc_mark_def keeps_def)
next
  case CScrub
  then show ?thesis by (auto simp: scrub_keys_def loose_def intro!: keeps_read)
next
  case (CListEntries v)
  then show ?thesis by (auto simp: list_entries_def loose_def intro!: keeps_read)
qed (auto simp: put_shard_def test_metric_def test_noop_def test_mint_token_def Let_def loose_def intro!: keeps_read)

lemma task_keeps:
  assumes F: "validate_wf F" and P: "put_calls_ok P" and t: "task_ok F t"
  shows "keeps F t st (task_step to_str ovf F B P t st)"
proof (cases t)
  case (TEvict x refd xs n)
  then show ?thesis using index_evict_loose by (auto simp: keeps_def gc_evict_def loose_def loose_inv_def)
next
  case (TCall c)
  then show ?thesis using call_keeps [OF F] t by simp
qed (use t put_look_keeps [OF P] put_store_keeps [OF P] put_index_keeps [OF F] presign_keeps data_get_keeps gc_delete_keeps scrub_head_keeps scrub_get_keeps
     in \<open>auto simp: count_put_def count_bytes_def count_hit_def count_miss_def put_answer_def loose_def intro!: keeps_read\<close>)

text \<open>Every state that any interleaving reaches.\<close>

lemma runs_loose:
  assumes "runs allowed env to_str ovf F B P ts0 st0 ts st" "validate_wf F" "put_calls_ok P" "quiet env"
    and "\<forall>c. allowed c \<longrightarrow> admitted c"
    and "loose F st0" "\<forall>t \<in> set ts0. task_ok F t"
  shows "loose F st \<and> (\<forall>t \<in> set ts. task_ok F t)"
  using assms
proof (induction rule: runs.induct)
  case (step ts st i t st')
  then have IH: "loose F st" "\<forall>t \<in> set ts. task_ok F t" by blast+
  then have "keeps F (ts ! i) st (t, st')"
    using task_keeps [OF step.prems(1,2), of "ts ! i" st to_str ovf] step.hyps(2,3) by simp
  then have "loose F st'" "task_ok F t" using IH(1) by (simp_all add: keeps_def)
  then show ?case using IH(2) set_update_subset_insert [of ts i t] by blast
next
  case (dropped ts st i)
  then show ?case by (auto dest: in_set_takeD in_set_dropD)
next
  case (store_changes ts st s)
  then show ?case unfolding quiet_def by (blast intro: loose_read dest: loose_invar)
qed auto

lemma runs_good:
  assumes "runs allowed env to_str ovf F B P ts0 st0 ts st" "validate_wf F" "put_calls_ok P" "quiet env"
    and "\<forall>c. allowed c \<longrightarrow> admitted c \<and> c \<noteq> CGc"
    and "good F st0" "\<forall>t \<in> set ts0. task_ok F t \<and> calm (contents (as_blob st0)) t"
  shows "good F st \<and> (\<forall>t \<in> set ts. task_ok F t \<and> calm (contents (as_blob st)) t)"
  using assms
proof (induction rule: runs.induct)
  case (step ts st i t st')
  then have IH: "good F st" "\<forall>t \<in> set ts. task_ok F t \<and> calm (contents (as_blob st)) t" by blast+
  then have "keeps F (ts ! i) st (t, st')"
    using task_keeps [OF step.prems(1,2), of "ts ! i" st to_str ovf] step.hyps(2,3) by simp
  then have "good F st'" "task_ok F t" "calm (contents (as_blob st')) t" "dom (contents (as_blob st)) \<subseteq> dom (contents (as_blob st'))"
    using IH good_loose step.hyps(2) by (auto simp: keeps_def)
  then show ?case using IH(2) set_update_subset_insert [of ts i t] calm_mono by blast
next
  case (dropped ts st i)
  then show ?case by (auto dest: in_set_takeD in_set_dropD)
next
  case (store_changes ts st s)
  then show ?case unfolding quiet_def good_def by (auto simp: server_inv_def)
qed auto

end

section \<open>The concurrent server over S3\<close>

lemma s3_calls_ok:
  assumes F: "hex_ok F" and K: "s3_sdk_ok c obj up"
  shows "blob_store.put_calls_ok (s3_contents F obj) (s3_inv obj) (s3_calls F c)"
  unfolding blob_store.put_calls_ok_def [OF s3_contract [OF assms]]
proof (intro conjI allI impI; elim conjE)
  fix h s r s' assume a: "s3_inv obj s" "pc_look (s3_calls F c) h s = (r, s')"
  obtain x s1 where x: "sc_head_object (s3_client_of c) (s3_bucket c) (s3_key F h) s = (x, s1)" by fastforce
  have "s' = s1" using a(2) F x by (cases x; simp add: s3_calls_def s3_put_look_def)
  then have "obj s' = obj s" using K x unfolding s3_sdk_ok_def s3_head_ok_def by blast
  then have "s3_inv obj s' \<and> s3_contents F obj s' = s3_contents F obj s"
    using a(1) s3_contents_cong unfolding s3_inv_def by metis
  then show "s3_inv obj s'" "s3_contents F obj s' = s3_contents F obj s" by blast+
next
  fix h b s r s' assume a: "s3_inv obj s" "blob_len_ok b" "pc_store (s3_calls F c) h b s = (r, s')"
  obtain y s1 where y: "sc_put_object (s3_client_of c) (s3_bucket c) (s3_key F h) b s = (y, s1)" by fastforce
  have run: "s' = s1" "r = Ok () \<longleftrightarrow> y = S3Ok ()"
    using a(3) F y by (cases y; auto simp: s3_calls_def s3_put_store_def)+
  have p: "obj s1 \<in> {obj s, (obj s)(s3_key F h \<mapsto> b)}" "y = S3Ok () \<longrightarrow> obj s1 = (obj s)(s3_key F h \<mapsto> b)"
    using K y unfolding s3_sdk_ok_def s3_put_ok_def by blast+
  show "s3_inv obj s'" using a(1,2) p(1) run by (auto simp: s3_inv_def split: if_splits)
  show "s3_contents F obj s' \<in> {s3_contents F obj s, (s3_contents F obj s)(h \<mapsto> b)}"
    using p(1) run s3_contents_cong [of obj s1 s F] s3_contents_upd [OF F, of obj s1 s h "Some b"] by auto
  show "s3_contents F obj s' = (s3_contents F obj s)(h \<mapsto> b)" if "r = Ok ()"
    using p(2) run that s3_contents_upd [OF F, of obj s1 s h "Some b"] by simp
qed

text \<open>
  C14. Invariant of the concurrent server over the S3 backend, whose calls take effect one at a time at the object store (a put is two of
  them, a head and a put of the object): under any interleaving of any number of requests, any failures of the object store, any lost answers and any
  requests dropped half way, the maps are well formed, catalog entries name registered files, chunk
  locations name indexed xorbs and every stored object passes the integrity gate. As long as no collection runs,
  the full server invariant holds: what is indexed is stored and every registered term is indexed.
\<close>

theorem concurrent_inv:
  assumes "hex_ok F" and "s3_sdk_ok c obj up" and "validate_wf F" and "s3_inv obj s" and "blobs_valid F (s3_contents F obj s)"
    and "\<forall>call. allowed call \<longrightarrow> admitted call" and "\<forall>s s'. env s s' \<longrightarrow> obj s' = obj s"
    and "runs allowed env to_str ovf F (s3_ops F c) (s3_calls F c) [] (app_state_new s auth rt wt) ts st"
  shows "loose_inv F (s3_contents F obj (as_blob st)) st \<and>
     (allowed CGc \<or> server_inv F (s3_contents F obj (as_blob st)) st)"
proof -
  note S = s3_contract [OF assms(1,2)] and P = s3_calls_ok [OF assms(1,2)]
  have quiet: "blob_store.quiet (s3_contents F obj) (s3_inv obj) env"
    unfolding blob_store.quiet_def [OF S] using assms(7) s3_contents_cong by (metis s3_inv_def)
  have good: "blob_store.good (s3_contents F obj) (s3_inv obj) F (app_state_new s auth rt wt)"
    using assms(4,5) server_inv_new [of F "s3_contents F obj s" s auth rt wt] by (simp add: blob_store.good_def [OF S])
  from blob_store.runs_loose [OF S assms(8,3) P quiet assms(6) blob_store.good_loose [OF S good]]
  have "loose_inv F (s3_contents F obj (as_blob st)) st"
    by (simp add: blob_store.loose_def [OF S])
  moreover have "server_inv F (s3_contents F obj (as_blob st)) st" if "\<not> allowed CGc"
    using blob_store.runs_good [OF S assms(8,3) P quiet _ good] assms(6) that by (auto simp: blob_store.good_def [OF S])
  ultimately show ?thesis by blast
qed

text \<open>The witness: over a bucket in memory, an upload is suspended between its put and its index update while a collection has marked.\<close>

definition mem_st :: "bytes option \<Rightarrow> (string \<Rightarrow> bytes option) app_state" where
  "mem_st b = app_state_new (\<lambda>k. if k = s3_key sample_fork sample_xorb then b else None) Loopback ''r'' ''w''"

lemma mem_run:
  "runs admitted env Some True sample_fork (s3_ops sample_fork mem_store) (s3_calls sample_fork mem_store) [] (mem_st None)
     [TIndex sample_xorb sample_body sample_xorb_info, TSweep {} [] 0] (mem_st (Some sample_body))"
proof -
  let ?runs = "runs admitted env Some True sample_fork (s3_ops sample_fork mem_store) (s3_calls sample_fork mem_store) [] (mem_st None)"
  let ?P = "s3_calls sample_fork mem_store"
  have key: "key_for sample_fork sample_xorb = Ok (s3_key sample_fork sample_xorb)" using sample_hex_ok by simp
  have look: "pc_look ?P sample_xorb (as_blob (mem_st None)) = (Ok False, as_blob (mem_st None))"
    using key by (simp add: s3_calls_def s3_put_look_def mem_store_def mem_client_def mem_st_def del: sample_fork_simps)
  have store: "pc_store ?P sample_xorb sample_body (as_blob (mem_st None)) = (Ok (), as_blob (mem_st (Some sample_body)))"
    using key by (auto simp: s3_calls_def s3_put_store_def mem_store_def mem_client_def mem_st_def fun_eq_iff simp del: sample_fork_simps)
  have upd: "st\<lparr>as_blob := as_blob (mem_st b)\<rparr> = mem_st b" if "st = mem_st b'" for st b b'
    using that by (simp add: mem_st_def app_state_new_def)
  have "?runs [TCall (CPutXorb (hex sample_fork sample_xorb) sample_body)] (mem_st None)"
    using runs.arrive [OF runs.stay, of admitted "CPutXorb (hex sample_fork sample_xorb) sample_body" env Some True sample_fork
        "s3_ops sample_fork mem_store" ?P "[]"] sample_body_len(1) by (simp del: sample_fork_simps)
  from runs.step [OF this, of 0] have "?runs [TPut sample_xorb sample_body sample_xorb_info] (mem_st None)"
    using sample_hash_roundtrip sample_gate by (simp add: put_gate_def del: sample_fork_simps)
  from runs.step [OF this, of 0] have "?runs [TStore sample_xorb sample_body sample_xorb_info] (mem_st None)"
    using look upd [OF refl, of None None] by (simp add: put_look_def)
  from runs.step [OF this, of 0] have "?runs [TIndex sample_xorb sample_body sample_xorb_info] (mem_st (Some sample_body))"
    using store upd [OF refl, of "Some sample_body" None] by (simp add: put_store_def)
  from runs.arrive [OF this, of CGc] have "?runs [TIndex sample_xorb sample_body sample_xorb_info, TCall CGc] (mem_st (Some sample_body))" by simp
  from runs.step [OF this, of 1] show ?thesis
    by (simp add: gc_mark_def mem_st_def gc_referenced_def index_default_def hm_keys_def hm_values_def)
qed

theorem concurrent_inv_witness:
  "\<exists>st. runs admitted (\<lambda>_ _. False) Some True sample_fork (s3_ops sample_fork mem_store) (s3_calls sample_fork mem_store) [] (mem_st None)
      [TIndex sample_xorb sample_body sample_xorb_info, TSweep {} [] 0] st \<and>
     loose_inv sample_fork (s3_contents sample_fork (\<lambda>s. s) (as_blob st)) st"
proof -
  have init: "s3_inv (\<lambda>s. s) (as_blob (mem_st None))" "blobs_valid sample_fork (s3_contents sample_fork (\<lambda>s. s) (as_blob (mem_st None)))"
    by (simp_all add: s3_inv_def blobs_valid_def s3_contents_def mem_st_def)
  have new: "app_state_new (as_blob (mem_st None)) Loopback ''r'' ''w'' = mem_st None" by (simp add: mem_st_def)
  note run = mem_run [of "\<lambda>_ _. False"]
  show ?thesis
    using concurrent_inv [OF sample_hex_ok mem_sdk_ok sample_validate_wf init, of admitted "\<lambda>_ _. False" Some True Loopback "''r''" "''w''", unfolded new, OF _ _ run] run
    by blast
qed

theorem concurrent_index_inv_witness:
  "\<exists>t st. runs admitted (\<lambda>_ _. True) Some True sample_fork (s3_ops sample_fork mem_store) (s3_calls sample_fork mem_store) [] (mem_st None)
      [t, TSweep {} [] 0] st \<and>
     hm_get (ix_xorbs (as_index st)) sample_xorb \<noteq> None \<and> loose_index (as_index st)"
proof -
  let ?st = "mem_st (Some sample_body)"
  obtain t st where up: "put_index True sample_xorb sample_body sample_xorb_info ?st = (t, st)" by fastforce
  obtain u ix where ix: "index_upload True sample_xorb sample_xorb_info (as_index ?st) = (u, ix)" by fastforce
  have "as_index st = ix" using up ix by (auto simp: put_index_def mem_st_def split: res.splits)
  then have xorb: "hm_get (ix_xorbs (as_index st)) sample_xorb \<noteq> None" using index_upload_frame(3) [OF ix] by simp
  note run = runs.step [OF mem_run, of 0 t st "\<lambda>_ _. True", simplified, OF up]
  from concurrent_index_inv [OF sample_validate_wf run [unfolded mem_st_def [of None]]] run xorb
  show ?thesis by blast
qed

section \<open>A collection races with a registration\<close>

text \<open>A term whose xorb is not indexed keeps a file from being reconstructed.\<close>

lemma resolve_missing:
  "x \<in> ft_xorb ` set ts \<Longrightarrow> hm_get xorbs x = None \<Longrightarrow> (\<forall>rs. resolve_terms ovf xorbs ts \<noteq> Ok (Inr rs)) \<and>
     (resolve_terms ovf xorbs ts = Ok (Inl n) \<longrightarrow> n = 500)"
proof (induction ts)
  case (Cons t ts)
  show ?case
  proof (cases "hm_get xorbs (ft_xorb t)")
    case (Some m)
    then have "x \<in> ft_xorb ` set ts" using Cons.prems by auto
    note IH = Cons.IH [OF this Cons.prems(2)]
    show ?thesis
      using Some IH by (cases "term_bytes ovf (xm_boundary_offsets m) (ft_start t) (ft_end t)"; cases "resolve_terms ovf xorbs ts")
        (auto split: sum.splits)
  qed simp
qed simp

text \<open>
  C15. In any consistent state of a server over a local store that does not fail, a registration that runs between the mark and the sweep of
  a collection is lost: both requests are answered with success, the file is
  registered, but a xorb that it needs and that no file referred to before is swept from store and index; and in every
  state in which the file is still registered with these terms and that xorb is still not indexed (so until it is uploaded again) no
  reconstruction of the file succeeds.
\<close>

theorem gc_races_with_register:
  assumes st: "local_fs_inv F c (as_blob st)" "local_fs_healthy (as_blob st)"
      "server_inv F (local_fs_contents F c (as_blob st)) st" "\<not> as_poisoned st"
    and x: "hm_get (ix_xorbs (as_index st)) x \<noteq> None" "x \<notin> referenced (as_index st)"
    and reg: "register_file F req st = (Ok (ok_json j), st1)"
    and fh: "from_hex F (rf_file_hash req) = Some fh" "hm_get (ix_files (as_index st1)) fh = Some f" "x \<in> ft_xorb ` set (fr_terms f)"
  shows "\<exists>k st'. runs allowed env to_str ovf F (local_fs_ops ovf F c) P [TCall CGc, TCall (CRegisterFile req)] st
       [done_with (ok_json k), done_with (ok_json j)] st' \<and>
     hm_get (ix_files (as_index st')) fh = Some f \<and>
     hm_get (ix_xorbs (as_index st')) x = None \<and> local_fs_contents F c (as_blob st') x = None \<and>
     (\<forall>st2 rs. hm_get (ix_files (as_index st2)) fh = Some f \<and> hm_get (ix_xorbs (as_index st2)) x = None \<and>
        fst (reconstruct ovf F (local_fs_ops ovf F c) (rf_file_hash req) st2) = Ok rs \<longrightarrow> rs_status rs = 500)"
proof -
  let ?B = "local_fs_ops ovf F c" and ?R = "referenced (as_index st)" and ?ks = "hm_keys (ix_xorbs (as_index st))"
  note facts = st(1-3) and np = st(4)
  have ok: "index_ok (as_index st)" using facts(3) by (simp add: server_inv_def)
  have s1: "as_blob st1 = as_blob st" "\<not> as_poisoned st1" "ix_xorbs (as_index st1) = ix_xorbs (as_index st)"
    using register_file_frame [OF reg] np by auto
  obtain r st' where sw: "gc_sweep ?B ?R ?ks 0 st1 = (r, st')" by fastforce
  note g = lfs.stale_sweep [OF _ _ s1(2) sw]
  have g': "r = Ok (of_nat (length (filter (\<lambda>x. x \<notin> ?R) ?ks)))" "ix_files (as_index st') = ix_files (as_index st1)"
      "as_poisoned st' = False" "hm_get (ix_xorbs (as_index st')) x = None" "local_fs_contents F c (as_blob st') x = None"
    using g facts(1,2) s1 x by (auto simp: index_ok_def)
  have "runs allowed env to_str ovf F ?B P [TCall CGc, TCall (CRegisterFile req)] st [TSweep ?R ?ks 0, TCall (CRegisterFile req)] st"
    using runs.step [OF runs.stay, of 0 "[TCall CGc, TCall (CRegisterFile req)]" to_str ovf F ?B P st _ _ allowed env] np gc_referenced_eq [OF ok]
    by (simp add: gc_mark_def)
  from runs.step [OF this, of 1]
  have "runs allowed env to_str ovf F ?B P [TCall CGc, TCall (CRegisterFile req)] st [TSweep ?R ?ks 0, done_with (ok_json j)] st1"
    using reg by simp
  from runs_alone [OF sweep_alone [OF sw] this, of 0]
  have run: "\<exists>k. runs allowed env to_str ovf F ?B P [TCall CGc, TCall (CRegisterFile req)] st [done_with (ok_json k), done_with (ok_json j)] st'"
    using g'(1) by auto
  have "rs_status rs = 500"
    if "hm_get (ix_files (as_index st2)) fh = Some f" "hm_get (ix_xorbs (as_index st2)) x = None"
      "fst (reconstruct ovf F ?B (rf_file_hash req) st2) = Ok rs" for st2 rs
    using resolve_missing [OF fh(3) that(2)] fh(1) that(1,3)
    by (auto simp: reconstruct_def split: res.splits sum.splits if_splits)
  moreover obtain k where "runs allowed env to_str ovf F ?B P [TCall CGc, TCall (CRegisterFile req)] st
      [done_with (ok_json k), done_with (ok_json j)] st'" using run by blast
  ultimately show ?thesis using g'(2,4,5) fh(2) by (intro exI [of _ k] exI [of _ st'] conjI allI impI) (blast | simp)+
qed

theorem gc_races_with_register_witness:
  "\<forall>P. \<exists>k j st'. runs (\<lambda>_. False) (\<lambda>_ _. False) Some True sample_fork sample_ops P [TCall CGc, TCall (CRegisterFile sample_file)] sample_st1
       [done_with (ok_json k), done_with (ok_json j)] st' \<and>
     hm_get (ix_files (as_index st')) 7 \<noteq> None \<and> local_fs_contents sample_fork sample_store (as_blob st') sample_xorb = None"
proof -
  have x: "hm_get (ix_xorbs (as_index sample_st1)) sample_xorb \<noteq> None" "sample_xorb \<notin> referenced (as_index sample_st1)"
    using sample_st1_index sample_st1_files(1) by (auto simp: referenced_def)
  obtain j where j: "register_file sample_fork sample_file sample_st1 = (Ok (ok_json j), sample_st2)"
    using sample_register_terms sample_hash_roundtrip [of 7] sample_put(2) sample_register(1)
    by (auto simp: register_file_def sample_file_def Let_def prod_eq_iff simp del: sample_fork_simps)
  have f: "hm_get (ix_files (as_index sample_st2)) 7 = Some \<lparr>fr_total_size = 3, fr_terms = sample_terms\<rparr>"
    by (simp add: sample_register(6))
  have "from_hex sample_fork (rf_file_hash sample_file) = Some 7"
    using sample_hash_roundtrip [of 7] by (simp add: sample_file_def del: sample_fork_simps)
  moreover have "sample_xorb \<in> ft_xorb ` set sample_terms" by (simp add: sample_terms_def)
  ultimately show ?thesis
    using gc_races_with_register [OF served_facts(1-3) [OF sample_served1 sample_validate_wf] served_np [OF sample_served1] x j _ f, of "\<lambda>_. False" "\<lambda>_ _. False"] by fastforce
qed

end
