(* ===== verification/Startup.thy ===== *)
theory Startup
  imports Router
begin

text \<open>
  \<open>main\<close> of \<open>crates/xetd/src/main.rs\<close> up to the point where it serves: bind, choose and build the store, the tokens and the
  state, publish the address in the ready file by write and rename. Parsing the command line and the
  listener itself belong to libraries; the options and the address, or the failure to bind, are arguments.
\<close>

section \<open>The ready file\<close>

text \<open>\<open>Path::file_stem\<close> of a file name, and \<open>Path::with_extension\<close>: the part after the last dot is replaced, unless that dot is the first
  character.\<close>

definition file_stem :: "string \<Rightarrow> string" where
  "file_stem name =
     (let before = rev (tl (dropWhile (\<lambda>ch. ch \<noteq> CHR ''.'') (rev name)))
      in if before = [] then name else before)"

definition with_extension :: "path \<Rightarrow> string \<Rightarrow> path" where
  "with_extension p ext =
     (if p = [] \<or> last p = ''..'' then p else butlast p @ [file_stem (last p) @ ''.'' @ ext])"

definition ready_bytes :: "string \<Rightarrow> bytes" where
  "ready_bytes addr = map of_char (''http://'' @ addr)"

definition publish_ready :: "path option \<Rightarrow> string \<Rightarrow> fs \<Rightarrow> unit res \<times> fs" where
  "publish_ready ready addr f =
     (case ready of
        None \<Rightarrow> (Ok (), f)
      | Some r \<Rightarrow>
          (let tmp = with_extension r ''tmp'' in
           (case fs_write tmp (ready_bytes addr) f of
              (FsOk _, f1) \<Rightarrow>
                (case fs_rename tmp r f1 of
                   (FsOk _, f2) \<Rightarrow> (Ok (), f2)
                 | (e, f2) \<Rightarrow> (Err (fs_msg e), f2))
            | (e, f1) \<Rightarrow> (Err (fs_msg e), f1))))"

section \<open>Start-up\<close>

text \<open>The chosen backend: \<open>Inl\<close> the local file system, \<open>Inr\<close> S3.\<close>

definition choose_blob ::
  "bool \<Rightarrow> (string \<Rightarrow> string option) \<Rightarrow> (s3_conf \<Rightarrow> 's s3_client) \<Rightarrow> args \<Rightarrow> string
     \<Rightarrow> (local_fs_blob_store + 's s3_blob_store) res" where
  "choose_blob feature env mk a addr =
     (case ar_backend a of
        BackendLocalFs \<Rightarrow> Ok (Inl (local_store_of a addr))
      | BackendS3 \<Rightarrow> bind_res (construct_s3 feature env mk a) (\<lambda>s. Ok (Inr s)))"

text \<open>
  The store and the state that are served, or the error that \<open>main\<close> exits with; \<open>w\<close> is the object store behind
  the S3 client.
\<close>

definition xetd_main ::
  "bool \<Rightarrow> (string \<Rightarrow> string option) \<Rightarrow> (s3_conf \<Rightarrow> 's s3_client) \<Rightarrow> args \<Rightarrow> string res \<Rightarrow> bytes option \<Rightarrow> bytes option
     \<Rightarrow> 's \<Rightarrow> fs \<Rightarrow> (local_fs_blob_store \<times> fs app_state + 's s3_blob_store \<times> 's app_state) res \<times> fs" where
  "xetd_main feature env mk a bound buf1 buf2 w f =
     (case bound of
        Err e \<Rightarrow> (Err e, f)
      | Panic \<Rightarrow> (Panic, f)
      | Ok addr \<Rightarrow>
          (case choose_blob feature env mk a addr of
             Err e \<Rightarrow> (Err e, f)
           | Panic \<Rightarrow> (Panic, f)
           | Ok blob \<Rightarrow>
               (case publish_ready (ar_ready_file a) addr f of
                  (Ok _, f1) \<Rightarrow>
                    (Ok (case blob of
                           Inl c \<Rightarrow> Inl (c, main_state a f1 buf1 buf2)
                         | Inr s \<Rightarrow> Inr (s, main_state a w buf1 buf2)), f1)
                | (Err e, f1) \<Rightarrow> (Err e, f1)
                | (Panic, f1) \<Rightarrow> (Panic, f1))))"

lemma context_opt_Ok: "context_opt msg v = Ok y \<longleftrightarrow> v = Some y"
  by (cases v) auto

text \<open>What a start that got as far as serving went through.\<close>

lemma xetd_main_Ok:
  assumes "xetd_main feature env mk a bound buf1 buf2 w f = (Ok srv, f')"
  obtains (local) addr where "bound = Ok addr" "ar_backend a = BackendLocalFs" "publish_ready (ar_ready_file a) addr f = (Ok (), f')"
      "srv = Inl (local_store_of a addr, main_state a f' buf1 buf2)"
    | (s3) addr s where "bound = Ok addr" "ar_backend a = BackendS3" "construct_s3 feature env mk a = Ok s"
      "publish_ready (ar_ready_file a) addr f = (Ok (), f')" "srv = Inr (s, main_state a w buf1 buf2)"
  using assms
  by (cases "ar_backend a") (auto simp: xetd_main_def choose_blob_def res_simps split: res.splits prod.splits)

section \<open>What it leaves behind\<close>

lemma with_extension_dir: "with_extension p ext = p \<or> p \<noteq> [] \<and> (\<exists>name. with_extension p ext = butlast p @ [name])"
  by (simp add: with_extension_def)

text \<open>Whatever fails, the ready file is the old one or complete, and nothing but it and its temporary neighbour is touched.\<close>

lemma publish_ready_atomic:
  assumes "publish_ready (Some r) addr f = (x, f')" and "with_extension r ''tmp'' \<noteq> r"
  shows "fs_files f' r = (if x = Ok () then Some (ready_bytes addr) else fs_files f r)"
proof -
  let ?t = "with_extension r ''tmp''"
  obtain y f1 where w: "fs_write ?t (ready_bytes addr) f = (y, f1)" by fastforce
  obtain z f2 where m: "fs_rename ?t r f1 = (z, f2)" by fastforce
  show ?thesis
    using assms w m fs_write_res [OF w] fs_rename_res [OF m]
    by (cases y; cases z) (auto simp: publish_ready_def Let_def)
qed

lemma publish_ready_elsewhere:
  assumes "publish_ready ready addr f = (x, f')" and "\<forall>r. ready = Some r \<longrightarrow> p \<noteq> r \<and> p \<noteq> with_extension r ''tmp''"
  shows "fs_files f' p = fs_files f p"
proof (cases ready)
  case None
  then show ?thesis using assms by (simp add: publish_ready_def)
next
  case (Some r)
  let ?t = "with_extension r ''tmp''"
  obtain y f1 where w: "fs_write ?t (ready_bytes addr) f = (y, f1)" by fastforce
  obtain z f2 where m: "fs_rename ?t r f1 = (z, f2)" by fastforce
  have f1: "fs_files f1 p = fs_files f p" using fs_write_res [OF w] assms(2) Some by auto
  have f2: "fs_files f2 p = fs_files f1 p" using fs_rename_res [OF m] assms(2) Some by (cases "z = FsOk ()") auto
  have "f' = f1 \<or> f' = f2"
    using assms(1) w m Some by (cases y; cases z) (auto simp: publish_ready_def Let_def)
  then show ?thesis using f1 f2 by auto
qed

text \<open>A ready file outside the blob root is no object.\<close>

lemma key_path_elsewhere:
  assumes "\<forall>xs. r \<noteq> lf_root c @ xs"
  shows "key_path F c k \<noteq> r \<and> key_path F c k \<noteq> with_extension r ''tmp''"
proof
  show "key_path F c k \<noteq> r" using assms by (auto simp: key_path_def)
  show "key_path F c k \<noteq> with_extension r ''tmp''"
  proof
    assume eq: "key_path F c k = with_extension r ''tmp''"
    with assms have "with_extension r ''tmp'' \<noteq> r" by (auto simp: key_path_def)
    then obtain name where r: "r \<noteq> []" "with_extension r ''tmp'' = butlast r @ [name]" using with_extension_dir by blast
    then have "butlast r = butlast (key_path F c k)" using eq by simp
    then have "r = lf_root c @ [take 2 (hex F k), take 2 (drop 2 (hex F k)), last r]"
      using r(1) by (metis append.assoc append_Cons append_Nil append_butlast_last_id butlast_append butlast.simps(2) key_path_def list.distinct(1))
    then show False using assms by blast
  qed
qed

lemma publish_ready_done:
  assumes "publish_ready (Some r) addr f = (Ok (), f')"
  shows "fs_files f' r = Some (ready_bytes addr)"
proof -
  let ?t = "with_extension r ''tmp''"
  obtain y f1 where w: "fs_write ?t (ready_bytes addr) f = (y, f1)" by fastforce
  obtain z f2 where m: "fs_rename ?t r f1 = (z, f2)" by fastforce
  show ?thesis
    using assms w m fs_write_res [OF w] fs_rename_res [OF m]
    by (cases y; cases z) (auto simp: publish_ready_def Let_def)
qed

lemma publish_ready_lengths:
  assumes "publish_ready ready addr f = (Ok (), f')" and "\<forall>p b. fs_files f p = Some b \<longrightarrow> blob_len_ok b"
    and "length (ready_bytes addr) < 2 ^ 63"
  shows "\<forall>p b. fs_files f' p = Some b \<longrightarrow> blob_len_ok b"
proof (cases ready)
  case None
  then show ?thesis using assms by (simp add: publish_ready_def)
next
  case (Some r)
  let ?t = "with_extension r ''tmp''"
  obtain y f1 where w: "fs_write ?t (ready_bytes addr) f = (y, f1)" by fastforce
  obtain z f2 where m: "fs_rename ?t r f1 = (z, f2)" by fastforce
  have ok: "y = FsOk ()" "z = FsOk ()" "f' = f2"
    using assms(1) w m Some by (cases y; cases z; auto simp: publish_ready_def Let_def)+
  then have f1: "fs_files f1 = (fs_files f)(?t \<mapsto> ready_bytes addr)" using fs_write_res [OF w] by blast
  then have "fs_files f' = ((fs_files f1)(?t := None))(r \<mapsto> ready_bytes addr)" using fs_rename_res [OF m] ok by auto
  then show ?thesis using f1 assms(2,3) by auto
qed

text \<open>A start that fails leaves the ready file as it was, so that nobody is pointed at a server that does not run.\<close>

lemma failed_start_publishes_nothing:
  assumes "xetd_main feature env mk a bound buf1 buf2 w f = (r, f')" and "\<forall>srv. r \<noteq> Ok srv"
    and "ar_ready_file a = Some rd" and "with_extension rd ''tmp'' \<noteq> rd"
  shows "fs_files f' rd = fs_files f rd"
proof (cases "f' = f")
  case False
  then obtain addr x where x: "publish_ready (Some rd) addr f = (x, f')" "x = Ok () \<longrightarrow> (\<exists>srv. r = Ok srv)"
    using assms(1,3) by (auto simp: xetd_main_def split: res.splits prod.splits)
  then show ?thesis using publish_ready_atomic [OF x(1) assms(4)] assms(2) by auto
qed simp

text \<open>
  C27. A server that \<open>main\<close> started over a local store whose objects pass the gate: the ready file, if one was asked for,
  holds exactly the address that was bound, the objects are untouched, and after any sequence of HTTP requests of any kind
  (any method, path, headers and body), over a file system with any failures, store and index are consistent and every stored object is
  valid. The ready file has to lie outside the blob root.
\<close>

theorem startup_server_inv:
  fixes to_str AX ovf qs
  assumes F: "validate_wf F" and start: "xetd_main feature env mk a bound buf1 buf2 w f = (Ok (Inl (c, st)), f')"
    and inv: "local_fs_inv F c f" and valid: "blobs_valid F (local_fs_contents F c f)"
    and outside: "\<forall>r xs. ar_ready_file a = Some r \<longrightarrow> r \<noteq> lf_root c @ xs"
    and short: "\<forall>addr. bound = Ok addr \<longrightarrow> length addr < 2 ^ 62"
  defines "app \<equiv> router to_str AX ovf F (local_fs_ops ovf F c) (ar_test_hooks a)"
  shows "(\<exists>addr. bound = Ok addr \<and> c = local_store_of a addr \<and>
       (\<forall>r. ar_ready_file a = Some r \<longrightarrow> fs_files f' r = Some (ready_bytes addr))) \<and>
     st = main_state a f' buf1 buf2 \<and> local_fs_contents F c f' = local_fs_contents F c f \<and>
     server_inv F (local_fs_contents F c (as_blob (serve_all app qs st))) (serve_all app qs st)"
proof -
  obtain addr where addr: "bound = Ok addr" "c = local_store_of a addr" "publish_ready (ar_ready_file a) addr f = (Ok (), f')"
      "st = main_state a f' buf1 buf2"
    by (rule xetd_main_Ok [OF start]) auto
  have "fs_files f' (key_path F c k) = fs_files f (key_path F c k)" for k
    using publish_ready_elsewhere [OF addr(3)] key_path_elsewhere outside by metis
  then have same: "local_fs_contents F c f' = local_fs_contents F c f"
    using local_fs_contents_fun [OF local_fs_inv_hex [OF inv]] by simp
  have "local_fs_inv F (local_store_of a addr) f'"
    using inv publish_ready_lengths [OF addr(3)] short addr(1) by (auto simp: local_fs_inv_def ready_bytes_def)
  moreover have "blobs_valid F (local_fs_contents F (local_store_of a addr) f')" using same valid addr(2) by simp
  ultimately have si: "server_inv F (local_fs_contents F c (as_blob (serve_all app qs st))) (serve_all app qs st)"
    unfolding app_def addr(2,4) by (rule http_sessions_keep_inv [OF F])
  have published: "\<forall>r. ar_ready_file a = Some r \<longrightarrow> fs_files f' r = Some (ready_bytes addr)"
    using addr(3) publish_ready_done by (cases "ar_ready_file a") auto
  show ?thesis by (intro conjI exI [of _ addr] addr(1,2,4) same published si)
qed

definition sample_ready_args :: args where
  "sample_ready_args = sample_args\<lparr>ar_ready_file := Some [''run'', ''ready'']\<rparr>"

theorem startup_server_inv_witness:
  "\<exists>c st f'. xetd_main False (\<lambda>_. None) (\<lambda>_. mem_client) sample_ready_args (Ok ''h:1'') None None (\<lambda>_. None)
       (sample_fs\<lparr>fs_dirs := {[''run'']}\<rparr>) = (Ok (Inl (c, st)), f') \<and>
     fs_files f' [''run'', ''ready''] = Some (ready_bytes ''h:1'') \<and>
     (let st' = serve_all (router Some sample_axum True sample_fork (local_fs_ops True sample_fork c) False) [sample_post] st
      in server_inv sample_fork (local_fs_contents sample_fork c (as_blob st')) st')"
proof -
  let ?f = "sample_fs\<lparr>fs_dirs := {[''run'']}\<rparr>" and ?c = "local_store_of sample_ready_args ''h:1''"
  have args: "ar_test_hooks sample_ready_args = False" "ar_ready_file sample_ready_args = Some [''run'', ''ready'']"
      "ar_backend sample_ready_args = BackendLocalFs"
    by (simp_all add: sample_ready_args_def sample_args_def)
  obtain f' where "publish_ready (Some [''run'', ''ready'']) ''h:1'' ?f = (Ok (), f')"
    by (simp add: publish_ready_def with_extension_def file_stem_def fs_defs fs_event_def sample_fs_def Let_def)
  then have start: "xetd_main False (\<lambda>_. None) (\<lambda>_. mem_client) sample_ready_args (Ok ''h:1'') None None (\<lambda>_. None) ?f =
      (Ok (Inl (?c, main_state sample_ready_args f' None None)), f')"
    by (simp add: xetd_main_def choose_blob_def args)
  have f: "local_fs_inv sample_fork ?c ?f" "blobs_valid sample_fork (local_fs_contents sample_fork ?c ?f)"
    using sample_hex_ok by (simp_all add: local_fs_inv_def blobs_valid_def sample_fs_def)
  have out: "\<forall>r xs. ar_ready_file sample_ready_args = Some r \<longrightarrow> r \<noteq> lf_root ?c @ xs"
    by (simp add: local_store_of_def local_fs_new_def sample_ready_args_def sample_args_def)
  have short: "\<forall>addr. Ok ''h:1'' = Ok addr \<longrightarrow> length addr < 2 ^ 62" by simp
  note s = startup_server_inv [OF sample_validate_wf start f out short, of Some sample_axum True "[sample_post]", unfolded args(1)]
  have "fs_files f' [''run'', ''ready''] = Some (ready_bytes ''h:1'')" using s args(2) by auto
  then show ?thesis unfolding Let_def using start s by blast
qed

text \<open>
  C29. A server that \<open>main\<close> started over S3: the build has the feature, endpoint, bucket and credentials were given and are what
  the client uses, the ready file holds the address, and over an object store that behaves as documented and holds
  valid objects any sequence of HTTP requests, whatever calls to it fail or lose their answer, leaves store and
  index consistent and every stored object valid.
\<close>

theorem startup_s3_inv:
  fixes to_str AX ovf qs
  assumes F: "hex_ok F" "validate_wf F" and start: "xetd_main feature env mk a bound buf1 buf2 w f = (Ok (Inr (c, st)), f')"
    and sdk: "s3_sdk_ok c obj up" and w: "s3_inv obj w" "blobs_valid F (s3_contents F obj w)"
  defines "app \<equiv> router to_str AX ovf F (s3_ops F c) (ar_test_hooks a)"
  shows "(\<exists>addr endpoint bucket access secret. bound = Ok addr \<and> feature \<and> ar_s3_endpoint a = Some endpoint \<and> ar_s3_bucket a = Some bucket \<and>
       env ''AWS_ACCESS_KEY_ID'' = Some access \<and> env ''AWS_SECRET_ACCESS_KEY'' = Some secret \<and>
       c = s3_blob_store_new mk endpoint bucket access secret (ar_s3_path_style a) \<and>
       (\<forall>r. ar_ready_file a = Some r \<longrightarrow> fs_files f' r = Some (ready_bytes addr))) \<and>
     st = main_state a w buf1 buf2 \<and>
     server_inv F (s3_contents F obj (as_blob (serve_all app qs st))) (serve_all app qs st)"
proof -
  obtain addr where addr: "bound = Ok addr" "construct_s3 feature env mk a = Ok c" "publish_ready (ar_ready_file a) addr f = (Ok (), f')"
      "st = main_state a w buf1 buf2"
    by (rule xetd_main_Ok [OF start]) auto
  have conf: "\<exists>endpoint bucket access secret. feature \<and> ar_s3_endpoint a = Some endpoint \<and> ar_s3_bucket a = Some bucket \<and>
      env ''AWS_ACCESS_KEY_ID'' = Some access \<and> env ''AWS_SECRET_ACCESS_KEY'' = Some secret \<and>
      c = s3_blob_store_new mk endpoint bucket access secret (ar_s3_path_style a)"
    using addr(2) by (auto simp: construct_s3_def res_simps context_opt_Ok split: if_splits)
  have published: "\<forall>r. ar_ready_file a = Some r \<longrightarrow> fs_files f' r = Some (ready_bytes addr)"
    using addr(3) publish_ready_done by (cases "ar_ready_file a") auto
  have "reachable to_str ovf F (s3_ops F c) st (serve_all app qs st)"
    unfolding app_def by (rule serve_all_reachable [OF reachable.init])
  then have "server_inv F (s3_contents F obj (as_blob (serve_all app qs st))) (serve_all app qs st)"
    unfolding addr(4) main_state_def by (rule s3_reachable_server_inv [OF F(1) sdk F(2) w])
  then show ?thesis using addr(1,4) conf published by blast
qed

definition sample_s3_args :: args where
  "sample_s3_args =
     sample_args\<lparr>ar_backend := BackendS3, ar_s3_endpoint := Some ''http://s3'', ar_s3_bucket := Some ''xorbs''\<rparr>"

theorem startup_s3_inv_witness:
  "\<exists>c st. xetd_main True (\<lambda>_. Some ''k'') (\<lambda>_. mem_client) sample_s3_args (Ok ''h:1'') None None (\<lambda>_. None) sample_fs =
       (Ok (Inr (c, st)), sample_fs) \<and>
     (let st' = serve_all (router Some sample_axum True sample_fork (s3_ops sample_fork c) False) [sample_post] st
      in server_inv sample_fork (s3_contents sample_fork (\<lambda>s. s) (as_blob st')) st')"
proof -
  let ?st = "main_state sample_s3_args (\<lambda>_ :: string. None :: bytes option) None None"
  have args: "ar_test_hooks sample_s3_args = False" by (simp add: sample_s3_args_def sample_args_def)
  have start: "xetd_main True (\<lambda>_. Some ''k'') (\<lambda>_. mem_client) sample_s3_args (Ok ''h:1'') None None (\<lambda>_. None) sample_fs =
      (Ok (Inr (mem_store, ?st)), sample_fs)"
    by (simp add: xetd_main_def choose_blob_def construct_s3_def s3_blob_store_new_def mem_store_def publish_ready_def
        sample_s3_args_def sample_args_def)
  have w: "s3_inv (\<lambda>s. s) (\<lambda>_. None)" "blobs_valid sample_fork (s3_contents sample_fork (\<lambda>s. s) (\<lambda>_. None))"
    by (simp_all add: s3_inv_def blobs_valid_def s3_contents_def)
  note s = startup_s3_inv [OF sample_hex_ok sample_validate_wf start mem_sdk_ok w, of Some sample_axum True "[sample_post]", unfolded args]
  show ?thesis unfolding Let_def using start s by blast
qed

end
