(* ===== verification/Blob_Race.thy ===== *)
theory Blob_Race
  imports Blob Staging_Buffer Sample_Fork
begin

text \<open>
  Two or more uploads of the same object in \<open>LocalFsBlobStore::put\<close> of \<open>crates/xetd/src/blob.rs\<close>, at the level of system calls. All of
  them use one temporary file, so here a file name leads to an inode, an open file keeps its inode across a
  rename, and a write may accept any number of bytes. They are the calls that \<open>local_fs_put\<close> makes in a row.
\<close>

section \<open>Names and inodes\<close>

record inode_fs =
  if_names :: "path \<Rightarrow> nat option"
  if_data :: "nat \<Rightarrow> bytes"
  if_fresh :: nat

text \<open>What each name reads as.\<close>

definition reads_as :: "inode_fs \<Rightarrow> path \<Rightarrow> bytes option" where
  "reads_as f p = map_option (if_data f) (if_names f p)"

definition open_truncate :: "path \<Rightarrow> inode_fs \<Rightarrow> nat \<times> inode_fs" where
  "open_truncate p f =
     (case if_names f p of
        Some n \<Rightarrow> (n, f\<lparr>if_data := (if_data f)(n := [])\<rparr>)
      | None \<Rightarrow> (if_fresh f, \<lparr>if_names = (if_names f)(p \<mapsto> if_fresh f), if_data = (if_data f)(if_fresh f := []),
                              if_fresh = Suc (if_fresh f)\<rparr>))"

section \<open>The system calls of a put\<close>

text \<open>
  Before each call; \<open>PWrite n off\<close> is inside \<open>tokio::fs::write\<close>, with the inode of its open file and the number of bytes
  that it has written.
\<close>

datatype put_pc = PExists | PMkdir | POpen | PWrite nat nat | PRename | PExistsAgain string | PRemove | PDone "bool res"

text \<open>How the system answers a call: it goes through, and \<open>k\<close> bounds how many bytes a write accepts; or it fails with an error.\<close>

datatype call_outcome = Through nat | Fails string

text \<open>
  One call. A failing look for the object counts as absence (\<open>unwrap_or(false)\<close>), the error of a failed rename is kept until the second look,
  and the removal of the temporary file is not checked. The directories exist once they were created.
\<close>

fun put_step :: "path \<Rightarrow> path \<Rightarrow> bytes \<Rightarrow> call_outcome \<Rightarrow> put_pc \<Rightarrow> inode_fs \<Rightarrow> put_pc \<times> inode_fs" where
  "put_step path tmp b (Through k) PExists f = (if if_names f path \<noteq> None then PDone (Ok False) else PMkdir, f)"
| "put_step path tmp b (Fails e) PExists f = (PMkdir, f)"
| "put_step path tmp b (Through k) PMkdir f = (POpen, f)"
| "put_step path tmp b (Fails e) PMkdir f = (PDone (Err e), f)"
| "put_step path tmp b (Through k) POpen f = (case open_truncate tmp f of (n, f') \<Rightarrow> (PWrite n 0, f'))"
| "put_step path tmp b (Fails e) POpen f = (PDone (Err e), f)"
| "put_step path tmp b (Through k) (PWrite n off) f =
     (if length b \<le> off then (PRename, f)
      else let d = take (Suc k) (drop off b)
           in (PWrite n (off + length d), f\<lparr>if_data := (if_data f)(n := pwrite (if_data f n) off d)\<rparr>))"
| "put_step path tmp b (Fails e) (PWrite n off) f = (PDone (Err e), f)"
| "put_step path tmp b (Through k) PRename f =
     (case if_names f tmp of
        Some n \<Rightarrow> (PDone (Ok True), f\<lparr>if_names := ((if_names f)(tmp := None))(path \<mapsto> n)\<rparr>)
      | None \<Rightarrow> (PExistsAgain ''No such file or directory (os error 2)'', f))"
| "put_step path tmp b (Fails e) PRename f = (PExistsAgain e, f)"
| "put_step path tmp b (Through k) (PExistsAgain e) f = (if if_names f path \<noteq> None then PRemove else PDone (Err e), f)"
| "put_step path tmp b (Fails e') (PExistsAgain e) f = (PDone (Err e), f)"
| "put_step path tmp b (Through k) PRemove f = (PDone (Ok False), f\<lparr>if_names := (if_names f)(tmp := None)\<rparr>)"
| "put_step path tmp b (Fails e) PRemove f = (PDone (Ok False), f)"
| "put_step path tmp b out (PDone r) f = (PDone r, f)"

text \<open>Any number of puts of the object \<open>b\<close>; where \<open>fails\<close>, any call may fail.\<close>

inductive put_runs ::
  "bool \<Rightarrow> path \<Rightarrow> path \<Rightarrow> bytes \<Rightarrow> put_pc list \<Rightarrow> inode_fs \<Rightarrow> put_pc list \<Rightarrow> inode_fs \<Rightarrow> bool"
  for fails path tmp b pcs0 f0 where
  stay: "put_runs fails path tmp b pcs0 f0 pcs0 f0"
| step: "put_runs fails path tmp b pcs0 f0 pcs f \<Longrightarrow> i < length pcs \<Longrightarrow> put_step path tmp b (Through k) (pcs ! i) f = (pc, f')
           \<Longrightarrow> put_runs fails path tmp b pcs0 f0 (pcs[i := pc]) f'"
| fail: "put_runs fails path tmp b pcs0 f0 pcs f \<Longrightarrow> fails \<Longrightarrow> i < length pcs \<Longrightarrow> put_step path tmp b (Fails e) (pcs ! i) f = (pc, f')
           \<Longrightarrow> put_runs fails path tmp b pcs0 f0 (pcs[i := pc]) f'"

section \<open>Without failures every object ends up complete\<close>

text \<open>
  An inode whose bytes are, or will be, those of the object: it holds the object, or some put is still writing it
  and what that put wrote so far is right.
\<close>

definition filling :: "bytes \<Rightarrow> put_pc list \<Rightarrow> inode_fs \<Rightarrow> nat \<Rightarrow> bool" where
  "filling b pcs f n \<longleftrightarrow>
     length (if_data f n) \<le> length b \<and>
     (if_data f n = b \<or>
      (\<exists>i off. i < length pcs \<and> pcs ! i = PWrite n off \<and> off \<le> length (if_data f n) \<and> take off (if_data f n) = take off b))"

definition early :: "put_pc \<Rightarrow> bool" where
  "early pc \<longleftrightarrow> pc \<in> {PExists, PMkdir, POpen}"

fun pc_ok :: "path \<Rightarrow> inode_fs \<Rightarrow> put_pc \<Rightarrow> bool" where
  "pc_ok path f (PWrite n off) \<longleftrightarrow> n < if_fresh f"
| "pc_ok path f (PExistsAgain e) \<longleftrightarrow> if_names f path \<noteq> None"
| "pc_ok path f PRemove \<longleftrightarrow> if_names f path \<noteq> None"
| "pc_ok path f (PDone r) \<longleftrightarrow> if_names f path \<noteq> None \<and> (\<exists>v. r = Ok v)"
| "pc_ok path f pc \<longleftrightarrow> True"

definition puts_inv :: "path \<Rightarrow> path \<Rightarrow> bytes \<Rightarrow> put_pc list \<Rightarrow> inode_fs \<Rightarrow> bool" where
  "puts_inv path tmp b pcs f \<longleftrightarrow>
     (\<forall>p n. if_names f p = Some n \<longrightarrow> n < if_fresh f) \<and> (\<forall>pc \<in> set pcs. pc_ok path f pc) \<and>
     (if_names f path = None \<and> (\<forall>pc \<in> set pcs. early pc) \<or>
      (if_names f path \<noteq> None \<or> if_names f tmp \<noteq> None) \<and>
      (\<forall>p n. p \<in> {path, tmp} \<and> if_names f p = Some n \<longrightarrow> filling b pcs f n))"

lemma pwrite_prefix:
  assumes "take off a = take off b" "off \<le> length a" "off \<le> length b"
  shows "take (off + length (take k (drop off b))) (pwrite a off (take k (drop off b))) = take (off + length (take k (drop off b))) b"
proof (rule nth_equalityI)
  fix i assume "i < length (take (off + length (take k (drop off b))) (pwrite a off (take k (drop off b))))"
  moreover have "i < off \<Longrightarrow> a ! i = b ! i" using arg_cong [OF assms(1), of "\<lambda>xs. xs ! i"] by simp
  ultimately show "take (off + length (take k (drop off b))) (pwrite a off (take k (drop off b))) ! i =
      take (off + length (take k (drop off b))) b ! i"
    using assms(2,3) by (auto simp: nth_pwrite)
qed (use assms in simp)

lemma pwrite_keeps_prefix:
  assumes "take j a = take j b" "j \<le> length a" "off \<le> length b"
  shows "take j (pwrite a off (take k (drop off b))) = take j b"
proof -
  have j: "j \<le> length b" using arg_cong [OF assms(1), of length] assms(2) by (simp add: min_def split: if_splits)
  have same: "i < j \<Longrightarrow> a ! i = b ! i" for i using arg_cong [OF assms(1), of "\<lambda>xs. xs ! i"] by simp
  show ?thesis by (rule nth_equalityI) (use assms(2,3) j same in \<open>auto simp: nth_pwrite\<close>)
qed

lemma step_filling:
  assumes "filling b pcs f n" "pcs ! i = PWrite m off" "i < length pcs" "off < length b"
  shows "filling b (pcs[i := PWrite m (off + length (take (Suc k) (drop off b)))])
     (f\<lparr>if_data := (if_data f)(m := pwrite (if_data f m) off (take (Suc k) (drop off b)))\<rparr>) n"
proof -
  let ?d = "take (Suc k) (drop off b)" and ?a = "if_data f n"
  let ?f = "f\<lparr>if_data := (if_data f)(m := pwrite (if_data f m) off ?d)\<rparr>"
  let ?pcs = "pcs[i := PWrite m (off + length ?d)]"
  have len: "length ?a \<le> length b" "length (if_data ?f n) \<le> length b" using assms(1,4) by (auto simp: filling_def)
  show ?thesis
  proof (cases "?a = b")
    case True
    have "pwrite b off ?d = b" using pwrite_keeps_prefix [of "length b" b b off "Suc k"] assms(4) by simp
    then have "if_data ?f n = b" using True by auto
    then show ?thesis unfolding filling_def using len by simp
  next
    case False
    then obtain j off' where j: "j < length pcs" "pcs ! j = PWrite n off'" "off' \<le> length ?a" "take off' ?a = take off' b"
      using assms(1) by (auto simp: filling_def)
    show ?thesis
    proof (cases "j = i")
      case True
      then have "m = n" "off' = off" using j(2) assms(2) by auto
      then have "take (off + length ?d) (if_data ?f n) = take (off + length ?d) b" "off + length ?d \<le> length (if_data ?f n)"
        using pwrite_prefix [OF j(4)] j(3) assms(4) by auto
      moreover have "?pcs ! i = PWrite n (off + length ?d)" using assms(3) \<open>m = n\<close> by simp
      ultimately show ?thesis unfolding filling_def using len assms(3) by (metis length_list_update)
    next
      case False
      have "take off' (if_data ?f n) = take off' b" "off' \<le> length (if_data ?f n)"
        using pwrite_keeps_prefix [OF j(4,3), of off "Suc k"] j(3,4) assms(4) by auto
      moreover have "?pcs ! j = PWrite n off'" using False j(2) by simp
      ultimately show ?thesis unfolding filling_def using len j(1) by (metis length_list_update)
    qed
  qed
qed

lemma finish_filling:
  assumes "filling b pcs f n" "pcs ! i = PWrite m off" "length b \<le> off"
  shows "filling b (pcs[i := PRename]) f n"
proof (cases "if_data f n = b")
  case False
  then obtain j off' where j: "j < length pcs" "pcs ! j = PWrite n off'" "off' \<le> length (if_data f n)"
      "take off' (if_data f n) = take off' b" "length (if_data f n) \<le> length b"
    using assms(1) by (auto simp: filling_def)
  have "j \<noteq> i"
  proof
    assume "j = i"
    then have "length b \<le> off'" using assms(2,3) j(2) by simp
    then show False using j(3-5) False by simp
  qed
  then have "pcs[i := PRename] ! j = PWrite n off'" using j(2) by simp
  then show ?thesis unfolding filling_def using j by (metis length_list_update)
qed (use assms(1) in \<open>simp add: filling_def\<close>)

text \<open>A step that neither writes nor leaves a write.\<close>

lemma other_filling:
  assumes "filling b pcs f n" "if_data f' n = if_data f n" "\<forall>m off. pcs ! i \<noteq> PWrite m off"
  shows "filling b (pcs[i := pc]) f' n"
proof (cases "if_data f n = b")
  case False
  then obtain j off' where j: "j < length pcs" "pcs ! j = PWrite n off'" "off' \<le> length (if_data f n)"
      "take off' (if_data f n) = take off' b"
    using assms(1) by (auto simp: filling_def)
  then have "pcs[i := pc] ! j = PWrite n off'" using assms(3) by (metis nth_list_update_neq)
  then show ?thesis using assms(1,2) j unfolding filling_def by (metis length_list_update)
qed (use assms(1,2) in \<open>simp add: filling_def\<close>)

lemma open_filling:
  assumes "i < length pcs" "if_data f n = []"
  shows "filling b (pcs[i := PWrite n 0]) f n"
  unfolding filling_def using assms by (metis length_list_update nth_list_update_eq le0 list.size(3) take0)

lemma pc_ok_mono:
  "pc_ok path f pc \<Longrightarrow> if_fresh f \<le> if_fresh f' \<Longrightarrow> (if_names f path \<noteq> None \<Longrightarrow> if_names f' path \<noteq> None) \<Longrightarrow> pc_ok path f' pc"
  by (cases pc) auto

lemma open_truncate_facts:
  assumes "open_truncate p f = (n, f')" "\<forall>q m. if_names f q = Some m \<longrightarrow> m < if_fresh f"
  shows "if_names f' = (if_names f)(p \<mapsto> n)" "if_data f' = (if_data f)(n := [])" "if_fresh f \<le> if_fresh f'" "n < if_fresh f'"
    "\<forall>q m. if_names f' q = Some m \<longrightarrow> m < if_fresh f'"
  using assms by (auto simp: open_truncate_def less_Suc_eq split: option.splits if_splits)

text \<open>After the step of one put it is enough to look at its next call and at the inodes behind the two names.\<close>

lemma puts_inv_update:
  assumes "puts_inv path tmp b pcs f" and "\<forall>p n. if_names f' p = Some n \<longrightarrow> n < if_fresh f'" and "if_fresh f \<le> if_fresh f'"
    and "if_names f path \<noteq> None \<longrightarrow> if_names f' path \<noteq> None" and "pc_ok path f' pc"
    and "if_names f' path \<noteq> None \<or> if_names f' tmp \<noteq> None"
    and "\<forall>p n. p \<in> {path, tmp} \<and> if_names f' p = Some n \<longrightarrow> filling b (pcs[i := pc]) f' n"
  shows "puts_inv path tmp b (pcs[i := pc]) f'"
proof -
  have "\<forall>q \<in> set pcs. pc_ok path f q" using assms(1) by (simp add: puts_inv_def)
  then have "\<forall>q \<in> set (pcs[i := pc]). pc_ok path f' q"
    using assms(3-5) pc_ok_mono [of path f _ f'] set_update_subset_insert [of pcs i pc] by blast
  then show ?thesis using assms(2,6,7) by (simp add: puts_inv_def)
qed

text \<open>A call that only looks.\<close>

lemma puts_inv_look:
  assumes inv: "puts_inv path tmp b pcs f" and i: "i < length pcs" and pc: "pc_ok path f pc"
    and early: "early (pcs ! i) \<longrightarrow> early pc \<or> if_names f path \<noteq> None" and nw: "\<forall>m off. pcs ! i \<noteq> PWrite m off"
  shows "puts_inv path tmp b (pcs[i := pc]) f"
proof -
  have fill: "filling b pcs f n \<Longrightarrow> filling b (pcs[i := pc]) f n" for n using nw by (auto intro: other_filling)
  have sub: "set (pcs[i := pc]) \<subseteq> insert pc (set pcs)" by (rule set_update_subset_insert)
  have "pcs ! i \<in> set pcs" using i by simp
  then show ?thesis using inv pc early fill sub unfolding puts_inv_def by blast
qed

text \<open>Inside a write, and at the calls after it, the object is being made.\<close>

lemma puts_inv_late:
  assumes "puts_inv path tmp b pcs f" "i < length pcs" "\<not> early (pcs ! i)"
  shows "if_names f path \<noteq> None \<or> if_names f tmp \<noteq> None" "\<forall>p n. p \<in> {path, tmp} \<and> if_names f p = Some n \<longrightarrow> filling b pcs f n"
  using assms nth_mem [OF assms(2)] unfolding puts_inv_def by blast+

lemma puts_inv_names: "puts_inv path tmp b pcs f \<Longrightarrow> \<forall>p n. if_names f p = Some n \<longrightarrow> n < if_fresh f"
  by (simp add: puts_inv_def)

lemma puts_inv_pc: "puts_inv path tmp b pcs f \<Longrightarrow> i < length pcs \<Longrightarrow> pc_ok path f (pcs ! i)"
  by (simp add: puts_inv_def)

lemma puts_inv_open:
  assumes inv: "puts_inv path tmp b pcs f" and i: "i < length pcs" and pc: "pcs ! i = POpen" and o: "open_truncate tmp f = (n, f')"
    and ne: "path \<noteq> tmp"
  shows "puts_inv path tmp b (pcs[i := PWrite n 0]) f'"
proof -
  note of = open_truncate_facts [OF o puts_inv_names [OF inv]]
  have fill: "filling b (pcs[i := PWrite n 0]) f' m" if "p \<in> {path, tmp}" "if_names f' p = Some m" for p m
  proof (cases "m = n")
    case True
    then show ?thesis using open_filling [OF i] of(2) by simp
  next
    case False
    then have "if_names f p = Some m" "p = path" using that of(1) by (auto split: if_splits)
    then have "filling b pcs f m" using inv by (auto simp: puts_inv_def)
    then show ?thesis using False of(2) pc by (intro other_filling) auto
  qed
  have tmp: "if_names f' tmp = Some n" "if_names f path \<noteq> None \<longrightarrow> if_names f' path \<noteq> None" using of(1) ne by auto
  show ?thesis
    by (rule puts_inv_update [OF inv of(5,3) tmp(2)]) (use of(4) tmp(1) in simp, use tmp(1) in blast, use fill in blast)
qed

lemma puts_inv_write:
  assumes inv: "puts_inv path tmp b pcs f" and i: "i < length pcs" and pc: "pcs ! i = PWrite n off"
    and run: "put_step path tmp b (Through k) (pcs ! i) f = (pc', f')"
  shows "puts_inv path tmp b (pcs[i := pc']) f'"
proof -
  have late: "\<not> early (pcs ! i)" by (simp add: pc early_def)
  note main = puts_inv_late [OF inv i late]
  show ?thesis
  proof (cases "length b \<le> off")
    case True
    then have "pc' = PRename" "f' = f" using run pc by auto
    then show ?thesis
      using finish_filling [OF _ pc True] puts_inv_names [OF inv] main by (intro puts_inv_update [OF inv]) auto
  next
    case False
    let ?d = "take (Suc k) (drop off b)"
    have r: "pc' = PWrite n (off + length ?d)" "f' = f\<lparr>if_data := (if_data f)(n := pwrite (if_data f n) off ?d)\<rparr>"
      using run pc False by (auto simp: Let_def)
    have "n < if_fresh f" using puts_inv_pc [OF inv i] pc by simp
    moreover have "filling b (pcs[i := pc']) f' m" if "filling b pcs f m" for m
      unfolding r by (rule step_filling [OF that pc i]) (use False in simp)
    ultimately show ?thesis using puts_inv_names [OF inv] main r by (intro puts_inv_update [OF inv]) auto
  qed
qed

lemma puts_inv_rename:
  assumes inv: "puts_inv path tmp b pcs f" and i: "i < length pcs" and pc: "pcs ! i = PRename" and ne: "path \<noteq> tmp"
    and run: "put_step path tmp b (Through k) (pcs ! i) f = (pc', f')"
  shows "puts_inv path tmp b (pcs[i := pc']) f'"
proof -
  have late: "\<not> early (pcs ! i)" by (simp add: pc early_def)
  note main = puts_inv_late [OF inv i late]
  show ?thesis
  proof (cases "if_names f tmp")
    case None
    then have "\<exists>e. pc' = PExistsAgain e" "f' = f" using run pc by auto
    then show ?thesis using main(1) None pc by (auto intro!: puts_inv_look [OF inv i] simp: early_def)
  next
    case (Some n)
    then have r: "pc' = PDone (Ok True)" "f' = f\<lparr>if_names := ((if_names f)(tmp := None))(path \<mapsto> n)\<rparr>" using run pc by auto
    have "filling b pcs f n" using main(2) Some by blast
    then have "filling b (pcs[i := pc']) f' n" using r pc by (intro other_filling) auto
    then show ?thesis using puts_inv_names [OF inv] r ne Some by (intro puts_inv_update [OF inv]) auto
  qed
qed

lemma puts_inv_remove:
  assumes inv: "puts_inv path tmp b pcs f" and i: "i < length pcs" and pc: "pcs ! i = PRemove" and ne: "path \<noteq> tmp"
  shows "puts_inv path tmp b (pcs[i := PDone (Ok False)]) (f\<lparr>if_names := (if_names f)(tmp := None)\<rparr>)"
proof -
  let ?f = "f\<lparr>if_names := (if_names f)(tmp := None)\<rparr>"
  have late: "\<not> early (pcs ! i)" by (simp add: pc early_def)
  note main = puts_inv_late [OF inv i late]
  have there: "if_names f path \<noteq> None" using puts_inv_pc [OF inv i] pc by simp
  have fill: "filling b pcs f n \<Longrightarrow> filling b (pcs[i := PDone (Ok False)]) ?f n" for n
    using pc by (intro other_filling) auto
  have "if_names ?f p = Some n \<Longrightarrow> if_names f p = Some n" for p n by (simp split: if_splits)
  then have "\<forall>p n. p \<in> {path, tmp} \<and> if_names ?f p = Some n \<longrightarrow> filling b (pcs[i := PDone (Ok False)]) ?f n"
    using main(2) fill by blast
  then show ?thesis using puts_inv_names [OF inv] there ne by (intro puts_inv_update [OF inv]) (auto split: if_splits)
qed

lemma puts_inv_step:
  assumes inv: "puts_inv path tmp b pcs f" and i: "i < length pcs" and run: "put_step path tmp b (Through k) (pcs ! i) f = (pc, f')"
    and ne: "path \<noteq> tmp"
  shows "puts_inv path tmp b (pcs[i := pc]) f'"
proof (cases "pcs ! i")
  case POpen
  then show ?thesis using run puts_inv_open [OF inv i POpen _ ne] by (auto split: prod.splits)
next
  case (PWrite n off)
  show ?thesis by (rule puts_inv_write [OF inv i PWrite run])
next
  case PRename
  show ?thesis by (rule puts_inv_rename [OF inv i PRename ne run])
next
  case PRemove
  then show ?thesis using run puts_inv_remove [OF inv i PRemove ne] by auto
next
  case (PDone r)
  then have "pcs[i := pc] = pcs" "f' = f" using run by (auto simp: list_update_same_conv [OF i])
  then show ?thesis using inv by simp
next
  case PExists
  then have "f' = f" "pc = PMkdir \<or> pc = PDone (Ok False) \<and> if_names f path \<noteq> None" using run by (auto split: if_splits)
  then show ?thesis using PExists by (auto intro!: puts_inv_look [OF inv i] simp: early_def simp del: not_None_eq)
next
  case PMkdir
  then have "f' = f" "pc = POpen" using run by auto
  then show ?thesis using PMkdir by (simp add: puts_inv_look [OF inv i] early_def)
next
  case (PExistsAgain e)
  then have "f' = f" "pc = PRemove" "if_names f path \<noteq> None" using run puts_inv_pc [OF inv i] by (auto split: if_splits)
  then show ?thesis using PExistsAgain by (simp add: puts_inv_look [OF inv i] early_def)
qed

lemma puts_inv_runs:
  "put_runs fails path tmp b pcs0 f0 pcs f \<Longrightarrow> \<not> fails \<Longrightarrow> path \<noteq> tmp \<Longrightarrow> puts_inv path tmp b pcs0 f0 \<Longrightarrow>
     puts_inv path tmp b pcs f \<and> length pcs = length pcs0"
  by (induction rule: put_runs.induct) (auto intro: puts_inv_step)

text \<open>
  C16. Uploads of one object that run at the same time settle: any number of puts of the same bytes, their system calls interleaved in any way, none
  of which fails. Every put that has answered found or made the object, and as soon as no put is writing, the
  object, if its name exists, reads as exactly those bytes.
\<close>

theorem concurrent_puts_settle:
  assumes "hex_ok F" and "if_names f (key_path F c key) = None" and "\<forall>p n. if_names f p = Some n \<longrightarrow> n < if_fresh f"
    and "put_runs False (key_path F c key) (tmp_path F c key) b (replicate m PExists) f pcs f'"
  shows "(\<forall>r. PDone r \<in> set pcs \<longrightarrow> r \<in> {Ok True, Ok False} \<and> reads_as f' (key_path F c key) \<noteq> None) \<and>
     ((\<forall>n off. PWrite n off \<notin> set pcs) \<longrightarrow> reads_as f' (key_path F c key) \<in> {None, Some b})"
proof -
  let ?p = "key_path F c key"
  have "puts_inv ?p (tmp_path F c key) b (replicate m PExists) f"
    using assms(2,3) by (auto simp: puts_inv_def early_def)
  then have inv: "puts_inv ?p (tmp_path F c key) b pcs f'"
    using puts_inv_runs [OF assms(4)] tmp_path_not_key [OF assms(1)] by metis
  have "r \<in> {Ok True, Ok False} \<and> reads_as f' ?p \<noteq> None" if "PDone r \<in> set pcs" for r
  proof -
    have "pc_ok ?p f' (PDone r)" using inv that unfolding puts_inv_def by blast
    then show ?thesis by (auto simp: reads_as_def)
  qed
  moreover have "reads_as f' ?p \<in> {None, Some b}" if "\<forall>n off. PWrite n off \<notin> set pcs"
  proof (cases "if_names f' ?p")
    case (Some n)
    then have "filling b pcs f' n" using inv unfolding puts_inv_def by auto
    then have "if_data f' n = b" using that unfolding filling_def by (metis nth_mem)
    then show ?thesis using Some by (simp add: reads_as_def)
  qed (simp add: reads_as_def)
  ultimately show ?thesis by blast
qed

section \<open>One put and two puts\<close>

text \<open>From the open to the rename, when the system accepts the whole write.\<close>

lemma put_runs_write:
  assumes "put_runs fails path tmp b pcs0 f0 pcs f" "i < length pcs" "pcs ! i = POpen" "open_truncate tmp f = (n, f1)"
    and "if_data f1 n = []"
  shows "put_runs fails path tmp b pcs0 f0 (pcs[i := PWrite n (length b)]) (f1\<lparr>if_data := (if_data f1)(n := b)\<rparr>)"
proof -
  have open_run: "put_runs fails path tmp b pcs0 f0 (pcs[i := PWrite n 0]) f1"
    using assms by (auto intro: put_runs.step)
  show ?thesis
  proof (cases b)
    case Nil
    then show ?thesis using open_run assms(5) by (simp add: fun_upd_idem)
  next
    case (Cons x xs)
    have "pwrite [] 0 b = b" by (rule nth_equalityI) (simp_all add: nth_pwrite)
    then have "put_step path tmp b (Through (length b)) (pcs[i := PWrite n 0] ! i) f1 =
        (PWrite n (length b), f1\<lparr>if_data := (if_data f1)(n := b)\<rparr>)"
      using assms(2,5) Cons by (simp add: Let_def)
    from put_runs.step [OF open_run _ this] show ?thesis using assms(2) by simp
  qed
qed

text \<open>A put that runs alone on a file system that refuses nothing does what \<open>local_fs_put\<close> does.\<close>

lemma put_alone_local:
  assumes F: "hex_ok F" and H: "local_fs_healthy g" and g: "fs_files g = reads_as f"
    and inj: "\<forall>p q n. if_names f p = Some n \<and> if_names f q = Some n \<longrightarrow> p = q" "\<forall>p n. if_names f p = Some n \<longrightarrow> n < if_fresh f"
    and put: "local_fs_put F c key b g = (r, g')"
  shows "\<exists>f'. put_runs False (key_path F c key) (tmp_path F c key) b [PExists] f [PDone r] f' \<and> reads_as f' = fs_files g'"
proof -
  let ?p = "key_path F c key" and ?t = "tmp_path F c key"
  let ?runs = "put_runs False ?p ?t b [PExists] f"
  have r: "r = Ok (reads_as f ?p = None)" using local_fs_put_healthy [OF F H put] g by simp
  show ?thesis
  proof (cases "if_names f ?p")
    case (Some n)
    then have "fs_files g' = fs_files g"
      using put g F H by (auto simp: local_fs_put_def fs_defs healthy_event reads_as_def split: if_splits)
    moreover have "?runs [PDone r] f"
      using put_runs.step [OF put_runs.stay, of 0 "[PExists]" ?p ?t b 0 f _ _ False] Some r by (simp add: reads_as_def)
    ultimately show ?thesis using g by metis
  next
    case None
    obtain n f1 where o: "open_truncate ?t f = (n, f1)" by fastforce
    note of = open_truncate_facts [OF o inj(2)]
    let ?f2 = "f1\<lparr>if_data := (if_data f1)(n := b)\<rparr>"
    let ?f3 = "?f2\<lparr>if_names := ((if_names ?f2)(?t := None))(?p \<mapsto> n)\<rparr>"
    have "?runs [PMkdir] f"
      using put_runs.step [OF put_runs.stay, of 0 "[PExists]" ?p ?t b 0 f _ _ False] None by simp
    from put_runs.step [OF this, of 0] have "?runs [POpen] f" by simp
    from put_runs_write [OF this, of 0, OF _ _ o] have "?runs [PWrite n (length b)] ?f2" using of(2) by simp
    from put_runs.step [OF this, of 0] have "?runs [PRename] ?f2" by simp
    from put_runs.step [OF this, of 0] have "?runs [PDone (Ok True)] ?f3" using of(1) by simp
    moreover have "reads_as ?f3 = ((reads_as f)(?t := None))(?p \<mapsto> b)"
    proof
      fix q
      show "reads_as ?f3 q = (((reads_as f)(?t := None))(?p \<mapsto> b)) q"
      proof (cases "if_names f q")
        case (Some m)
        have "q = ?t \<or> m \<noteq> n"
          using Some o inj by (auto simp: open_truncate_def split: option.splits)
        then show ?thesis using Some of(1,2) by (auto simp: reads_as_def)
      qed (use of(1,2) in \<open>auto simp: reads_as_def\<close>)
    qed
    moreover have "r = Ok True" using r None by (simp add: reads_as_def)
    moreover have "fs_files g' = ((reads_as f)(?t := None))(?p \<mapsto> b)"
      using local_fs_put_cases [OF F put] \<open>r = Ok True\<close> g by (metis res.inject(1) res.distinct(1))
    ultimately show ?thesis by metis
  qed
qed

text \<open>
  C17. One of two uploads of the same object fails while the other one succeeds: the second opens, and so truncates, the temporary file
  that the first is about to rename; the first is answered with success, the second runs into an I/O error. The
  object is left truncated under its name, and every later put takes it for stored.
\<close>

theorem failed_put_truncates_object:
  assumes "hex_ok F" and "if_names f (key_path F c key) = None" and "if_names f (tmp_path F c key) = None"
  shows "\<exists>f'. put_runs True (key_path F c key) (tmp_path F c key) b [PExists, PExists] f [PDone (Ok True), PDone (Err e)] f' \<and>
     reads_as f' (key_path F c key) = Some [] \<and>
     put_step (key_path F c key) (tmp_path F c key) b (Through k) PExists f' = (PDone (Ok False), f')"
proof -
  let ?p = "key_path F c key" and ?t = "tmp_path F c key" and ?n = "if_fresh f"
  let ?runs = "put_runs True ?p ?t b [PExists, PExists] f"
  let ?f1 = "\<lparr>if_names = (if_names f)(?t \<mapsto> ?n), if_data = (if_data f)(?n := []), if_fresh = Suc ?n\<rparr>"
  let ?f2 = "?f1\<lparr>if_data := (if_data ?f1)(?n := b)\<rparr>"
  let ?f3 = "?f1\<lparr>if_data := (if_data ?f2)(?n := [])\<rparr>"
  let ?f4 = "?f3\<lparr>if_names := ((if_names ?f3)(?t := None))(?p \<mapsto> ?n)\<rparr>"
  have ne: "?p \<noteq> ?t" using tmp_path_not_key [OF assms(1)] by metis
  have o: "open_truncate ?t f = (?n, ?f1)" "open_truncate ?t ?f2 = (?n, ?f3)"
    using assms(3) by (simp_all add: open_truncate_def)
  have "?runs [PMkdir, PExists] f"
    using put_runs.step [OF put_runs.stay, of 0 "[PExists, PExists]" ?p ?t b 0 f _ _ True] assms(2) by simp
  from put_runs.step [OF this, of 0] have "?runs [POpen, PExists] f" by simp
  from put_runs_write [OF this, of 0, OF _ _ o(1)] have "?runs [PWrite ?n (length b), PExists] ?f2" by simp
  from put_runs.step [OF this, of 0] have "?runs [PRename, PExists] ?f2" by simp
  from put_runs.step [OF this, of 1] have "?runs [PRename, PMkdir] ?f2" using assms(2) ne by simp
  from put_runs.step [OF this, of 1] have "?runs [PRename, POpen] ?f2" by simp
  from put_runs.step [OF this, of 1] have "?runs [PRename, PWrite ?n 0] ?f3" using o(2) by simp
  from put_runs.step [OF this, of 0] have "?runs [PDone (Ok True), PWrite ?n 0] ?f4" by simp
  from put_runs.fail [OF this, of 1 e] have "?runs [PDone (Ok True), PDone (Err e)] ?f4" by simp
  moreover have "reads_as ?f4 ?p = Some []" by (simp add: reads_as_def)
  ultimately show ?thesis by (intro exI [of _ ?f4]) simp
qed

definition sample_ifs :: inode_fs where
  "sample_ifs = \<lparr>if_names = (\<lambda>_. None), if_data = (\<lambda>_. []), if_fresh = 0\<rparr>"

definition sample_local :: local_fs_blob_store where
  "sample_local = \<lparr>lf_root = [''blobs''], lf_public_base = []\<rparr>"

theorem failed_put_truncates_object_witness:
  "\<exists>f'. put_runs True (key_path sample_fork sample_local 7) (tmp_path sample_fork sample_local 7) [1, 97] [PExists, PExists] sample_ifs
     [PDone (Ok True), PDone (Err ''No space left on device'')] f' \<and> reads_as f' (key_path sample_fork sample_local 7) = Some []"
  using failed_put_truncates_object [OF sample_hex_ok, of sample_ifs sample_local 7 "[1, 97]" "''No space left on device''" 0]
  by (auto simp: sample_ifs_def)

text \<open>The witness runs one put to its end.\<close>

theorem concurrent_puts_settle_witness:
  "\<exists>f'. put_runs False (key_path sample_fork sample_local 7) (tmp_path sample_fork sample_local 7) [1, 97] (replicate 1 PExists) sample_ifs
       [PDone (Ok True)] f' \<and> reads_as f' (key_path sample_fork sample_local 7) = Some [1, 97]"
proof -
  let ?p = "key_path sample_fork sample_local 7" and ?t = "tmp_path sample_fork sample_local 7"
  let ?g = "\<lparr>fs_files = (\<lambda>_. None), fs_dirs = {}, fs_clock = 0, fs_env = (\<lambda>_. IoOk)\<rparr>"
  obtain r g' where put: "local_fs_put sample_fork sample_local 7 [1, 97] ?g = (r, g')" by fastforce
  have g: "local_fs_healthy ?g" "fs_files ?g = reads_as sample_ifs"
    by (auto simp: local_fs_healthy_def reads_as_def sample_ifs_def)
  have r: "r = Ok True" using local_fs_put_healthy [OF sample_hex_ok g(1) put] by simp
  obtain f' where run: "put_runs False ?p ?t [1, 97] [PExists] sample_ifs [PDone (Ok True)] f'"
    using put_alone_local [OF sample_hex_ok g _ _ put] r by (auto simp: sample_ifs_def)
  have one: "[PExists] = replicate 1 PExists" by simp
  have "reads_as f' ?p = Some [1, 97]"
    using concurrent_puts_settle [OF sample_hex_ok _ _ run [unfolded one]] by (auto simp: sample_ifs_def)
  then show ?thesis using run unfolding one by blast
qed

end
