(* ===== verification/Spec2Isabelle.thy ===== *)
theory Spec2Isabelle
  imports Range Answers Router S3 Sample_Link Sample_Mount Concurrent Startup Blob_Race
begin

text \<open>
  Verification of a self-hosted Xet content-addressed store: the server \<open>xetd\<close>
  (\<open>crates/xetd\<close>), the client library \<open>xet-agent\<close> (\<open>crates/xet-agent\<close>) and the
  mounted file system \<open>xetfs\<close> (\<open>crates/xetfs\<close>).

  The program. The server keeps serialized xorbs (runs of content-defined chunks, named by a Merkle root) in a blob
  store, and an index in memory: the footer of every xorb, the reconstruction terms of every registered file, a catalog
  (volume, path) to file hash, and the position of every chunk for deduplication. Uploads pass an integrity gate that
  recomputes the root. The agent chunks a file, asks the server for every chunk, uploads the unknown runs as
  xorbs and registers the file; to read, it asks for the terms and fetches byte ranges of the xorbs. The
  file system mounts a volume: it builds an inode tree from the catalog, reads files through the agent into a
  cache, collects writes in staging buffers and ingests them on fsync, flush and release.

  Theories and code.
    \<^item> Prelude: outcomes of Rust calls (\<open>res\<close>: value, error, panic), checked and saturating arithmetic, slices, the
      string functions of the standard library that the sources call, JSON values with the accessors of serde_json.
    \<^item> Hash_Map: \<open>HashMap\<close> as an association list with distinct keys in iteration order.
    \<^item> Xet_Core: the parameter record \<open>fork\<close> for the functions of the xet-core fork that the sources call (a git
      submodule without code here), and what its documentation promises: \<open>hex_ok\<close>, \<open>info_wf\<close>, \<open>validate_wf\<close>.
    \<^item> Blob, Blob_Props: \<open>xetd/src/blob.rs\<close>. The trait \<open>BlobStore\<close> is the record \<open>blob_ops\<close>, \<open>local_fs_ops\<close> is the
      implementation over a file system \<open>fs\<close> whose environment may refuse any call or tear any write.
    \<^item> Blob_Race: the put of the local store again, as the system calls of any number of uploads of one object, each of which
      may fail, over names and inodes.
    \<^item> S3: \<open>xetd/src/s3.rs\<close> over the SDK client as a parameter.
    \<^item> Server_State: \<open>xetd/src/state.rs\<close>, the index, the counters and \<open>app_state\<close> with the poison flag of the mutex.
    \<^item> Range, Server: the handlers of \<open>xetd/src/main.rs\<close>, one function each, under the names of the source.
    \<^item> Answers: the type of the answers of every endpoint, status codes and JSON schemas (no code of its own).
    \<^item> Router: the options, \<open>router\<close>, \<open>auth_mw\<close> and \<open>random_token\<close> of \<open>xetd/src/main.rs\<close>; axum is a parameter.
    \<^item> Startup: \<open>main\<close> up to the point where it serves, over either backend, with the ready file.
    \<^item> Concurrent: the handlers again, as the steps between which the runtime can switch to another request: lock sections,
      calls of the blob store (a put is two of them, as in \<open>s3.rs\<close>) and counter updates.
    \<^item> Agent: \<open>xet-agent/src/lib.rs\<close>, the HTTP client is the parameter \<open>send\<close>.
    \<^item> Staging_Buffer, Xetfs: \<open>xetfs/src/lib.rs\<close>, \<open>connect\<close> and every callback with its reply.
    \<^item> Http_Link, Cas_Service, Fetch, End_To_End, Mount: the composition of agent, HTTP surface, server and file system.
    \<^item> Sample_Fork, Sample_Link, Sample_Mount: an executable fork and a connection at which hypotheses are discharged. They model
      no code of the repository.

  State passing. A handler takes the extracted arguments and \<open>app_state\<close> and returns \<open>Ok response\<close> or \<open>Panic\<close> with the new
  state; a panic under the index lock sets the poison flag, after which every lock panics. A file system callback takes
  and returns \<open>xetfs\<close> and the state of the world behind the network. In \<open>Server\<close> requests run one at a time; in \<open>Concurrent\<close> any number
  of them interleave (\<open>runs\<close>), requests may be dropped half way, and the store may change between two steps; that a request which runs alone
  does what its handler does is checked there too. Builds with and
  without overflow checks are covered by the flag \<open>ovf\<close>.

  Interfaces. \<open>hash_map\<close> is the contract of the maps (interpretation \<open>hm\<close>). \<open>blob_store\<close> is the contract of the trait: the
  handlers' theorems are proved inside it, over any I/O failures; it is interpreted on the local file system (\<open>lfs\<close>), and
  \<open>s3_blob_store\<close> shows it for the S3 backend from the documented behaviour of the object store. \<open>byte_buffer\<close> is the contract of
  the staging buffers as byte strings (\<open>stg\<close>). \<open>cas_service\<close> is what an ingest relies on of the service behind
  the network, including one that loses messages; it is interpreted on the router over the local store (\<open>cas\<close>).

  What is shown.
    \<^item> Server_Correct: \<open>server_inv\<close> (every indexed xorb is stored under its name and passes the integrity gate, every term of a
      file and every chunk location refers to an indexed xorb) is kept by every handler over any blob store; Server_Sync: on a store
      that does not fail, index and store describe each other exactly. The branch-by-branch behaviour of every handler is in
      Server_Props, Server_Maint and Range.
    \<^item> Answers: as long as registered terms lie inside their xorbs, every request is answered with a status and a body of
      the types of its endpoint, over a store any of whose calls may fail.
    \<^item> Blob_Race: concurrent puts of an object settle on it when none fails; when one fails, another can be acknowledged with a truncated object.
    \<^item> Startup: the ready file is complete or untouched, and the started server, over either backend, keeps its invariant over every HTTP
      session.
    \<^item> Blob_Props, S3: puts are atomic under torn writes, what was put is read back, both backends meet the contract.
    \<^item> Concurrent: under every interleaving, with and without collections, the invariant of store and index over the S3 backend, whose calls
      take effect at one point, and the invariant of the index over any store at all, whose answers are then arbitrary; and the lost
      registration when a collection runs at the same time. For the local store the integrity gate is not an invariant of the
      interleaved server: a failing put can leave a truncated object, see Blob_Race.
    \<^item> Router: tokens and scopes; without the write token nothing changes; the invariants over whole HTTP sessions.
    \<^item> Agent: a successful ingest partitions the chunks into maximal known runs and capped novel runs.
    \<^item> Xetfs_Tree, Xetfs_Props, Xetfs_Files: the inode tree is well formed after any callbacks, all of them return, reads and writes
      refine positional reads and writes on byte strings, pages of a directory enumerate it, and what is lost on failures.
    \<^item> End_To_End: ingest then reconstruct gives back the bytes; write, close, read gives back the bytes; an ingest over
      a link that loses messages is all or nothing and can be repeated; and the case in which the agent's choice of a byte range
      delivers wrong bytes.
    \<^item> Mount: a mount shows exactly the catalog of the volume; a change that was closed is found by the next mount; and the paths
      for which a change leaves a second entry behind.

  Termination and bounds. There is no fuel. Index loops are functions with a measure; \<open>path_parts\<close> follows parent links and is a
  \<open>partial_function (option)\<close>, and \<open>fs_ops_return\<close> shows that it returns on every tree the file system builds. Machine
  integers keep their width. Two bounds are assumed where memory guarantees them: the length of a buffer in memory is below
  \<open>2 ^ 63\<close>, and the inode counter, which has a node in memory per value, does not wrap.

  Hypotheses. About the fork: hash strings parse back (\<open>hex_ok\<close>), footers that the gate accepts are well formed (\<open>validate_wf\<close>), the
  chunker cuts its input (\<open>chunker_ok\<close>), an uploaded serialization is accepted with its chunks (\<open>serialize_ok\<close>), a chunk decodes from its
  segment (\<open>layout_ok\<close>), and no hash of the file at hand collides with a stored object (\<open>collision_free\<close>). About a scrub that reports exactly
  the damaged objects: no empty object is a valid xorb. About the
  frameworks: \<open>axum_ok\<close>, \<open>serde_ok\<close>, \<open>to_str_ok\<close>, \<open>http_link\<close>. About S3: \<open>s3_sdk_ok\<close>. Each is discharged at a concrete instance in a witness.
  Theorems over a server state say in what states they hold: \<open>served\<close> is a running server that started on an empty local store
  whose calls do not fail; the others take any consistent state, with \<open>local_fs_healthy\<close> where no call of the store may fail.

  Not modelled. \<open>crates/xet-core\<close> only re-exports the fork. Argument parsing, the TCP listener and logging of \<open>main\<close> are I/O of
  libraries. The kernel side of FUSE is left out, and of its replies the attribute time-out and the generation number, which are
  constants. The system calls of a put of the local store are interleaved with each other (\<open>Blob_Race\<close>), not with
  the other handlers; the concurrent invariant of the store is therefore stated for S3.
\<close>

end
